(* ===== verification/Prelude.thy ===== *)
theory Prelude
  imports Main "HOL-Library.Word" "HOL-Library.Sublist"
begin

text \<open>
  Shared vocabulary of the development: the Go standard-library operations on
  strings that several components call, times and durations, the answer of a
  database query, generic lemmas on lists and maps, and the named collections
  that carry the component proofs.

  A Go \<^verbatim>\<open>string\<close> is a sequence of bytes and HOL's \<^typ>\<open>char\<close> is an
  8-bit value, so a Go string is a HOL \<^typ>\<open>string\<close>, byte by byte.  Binary wire
  formats, which the code takes apart with bit operations, use \<open>8 word\<close>.
\<close>

named_theorems go_string \<open>equations of the modelled Go string library\<close>
named_theorems chan_simps \<open>equations of buffered Go channels\<close>
named_theorems audit_simps \<open>equations of the audit chain\<close>
named_theorems session_simps \<open>equations of the session manager\<close>

type_synonym byte = "8 word"
type_synonym bytes = "byte list"
type_synonym gotime = int \<comment> \<open>nanoseconds since the Unix epoch\<close>
type_synonym duration = int \<comment> \<open>nanoseconds\<close>

abbreviation (input) Second :: duration where
  "Second \<equiv> 1000000000"

abbreviation (input) Minute :: duration where
  "Minute \<equiv> 60000000000"

text \<open>\<^verbatim>\<open>time.Time.Unix\<close>: whole seconds, rounded down (Go keeps a non-negative
  nanosecond offset).\<close>

definition Unix :: "gotime \<Rightarrow> int" where
  "Unix t = t div Second"

section \<open>Strings\<close>

definition HasPrefix :: "string \<Rightarrow> string \<Rightarrow> bool" where
  "HasPrefix s p \<longleftrightarrow> take (length p) s = p"

definition TrimPrefix :: "string \<Rightarrow> string \<Rightarrow> string" where
  "TrimPrefix s p = (if HasPrefix s p then drop (length p) s else s)"

text \<open>\<^verbatim>\<open>strings.Contains\<close>: some suffix of the string starts with the pattern.\<close>

fun Contains :: "string \<Rightarrow> string \<Rightarrow> bool" where
  "Contains [] p = (p = [])"
| "Contains (c # s) p = (HasPrefix (c # s) p \<or> Contains s p)"

lemma HasPrefix_append [simp, go_string]: "HasPrefix (p @ s) p"
  by (simp add: HasPrefix_def)

lemma TrimPrefix_append [simp, go_string]: "TrimPrefix (p @ s) p = s"
  by (simp add: TrimPrefix_def HasPrefix_def)

lemma HasPrefix_iff_append: "HasPrefix s p \<longleftrightarrow> (\<exists>r. s = p @ r)"
  by (auto simp: HasPrefix_def) (metis append_take_drop_id)

lemma HasPrefix_eq_append: "HasPrefix s p \<Longrightarrow> s = p @ TrimPrefix s p"
  by (auto simp: HasPrefix_iff_append)

text \<open>
  \<^verbatim>\<open>strings.TrimSpace\<close> removes leading and trailing Unicode white space.  The
  UTF-8 encodings of the code points with the White\_Space property are listed;
  a leading (trailing) rune is white space exactly when one of them is a prefix
  (suffix) of the string, because none of them is a prefix or a suffix of the
  encoding of another rune.
\<close>

definition ascii_spaces :: "string list" where
  "ascii_spaces = [[CHR 9], [CHR 10], [CHR 11], [CHR 12], [CHR 13], [CHR 32]]"

definition wide_spaces :: "string list" where
  "wide_spaces =
     [[CHR 0xC2, CHR 0x85], [CHR 0xC2, CHR 0xA0], [CHR 0xE1, CHR 0x9A, CHR 0x80]]
     @ map (\<lambda>n. [CHR 0xE2, CHR 0x80, char_of n]) [0x80..<0x8B]
     @ [[CHR 0xE2, CHR 0x80, CHR 0xA8], [CHR 0xE2, CHR 0x80, CHR 0xA9],
        [CHR 0xE2, CHR 0x80, CHR 0xAF], [CHR 0xE2, CHR 0x81, CHR 0x9F],
        [CHR 0xE3, CHR 0x80, CHR 0x80]]"

definition utf8_spaces :: "string list" where
  "utf8_spaces = ascii_spaces @ wide_spaces"

text \<open>Repeatedly drop any of the given non-empty words from the front.\<close>

function trim_left :: "string list \<Rightarrow> string \<Rightarrow> string" where
  "trim_left ws s =
     (case find (\<lambda>w. w \<noteq> [] \<and> HasPrefix s w) ws of
        None \<Rightarrow> s
      | Some w \<Rightarrow> trim_left ws (drop (length w) s))"
  by pat_completeness auto
termination
  by (relation "measure (\<lambda>(ws, s). length s)")
     (auto simp: find_Some_iff HasPrefix_def dest!: nth_mem, metis
        add_diff_cancel_left' append_take_drop_id diff_less length_append length_drop
        length_greater_0_conv take_eq_Nil2)

declare trim_left.simps [simp del]

definition TrimSpace :: "string \<Rightarrow> string" where
  "TrimSpace s = rev (trim_left (map rev utf8_spaces) (rev (trim_left utf8_spaces s)))"


definition printable :: "char \<Rightarrow> bool" where
  "printable c \<longleftrightarrow> 33 \<le> (of_char c :: nat) \<and> (of_char c :: nat) \<le> 126"

lemma trim_left_fix: "(\<And>w. w \<in> set ws \<Longrightarrow> w \<noteq> [] \<Longrightarrow> \<not> HasPrefix s w) \<Longrightarrow> trim_left ws s = s"
  by (subst trim_left.simps) (fastforce simp: find_Some_iff split: option.split dest: nth_mem)

lemma trim_left_Nil [simp]: "trim_left ws [] = []"
  by (rule trim_left_fix) (simp add: HasPrefix_def)

lemma utf8_spaces_ends:
  "w \<in> set utf8_spaces \<Longrightarrow> \<not> printable (hd w) \<and> \<not> printable (last w) \<and> w \<noteq> []"
  by (auto simp: utf8_spaces_def ascii_spaces_def wide_spaces_def printable_def)

lemma TrimSpace_Nil [simp, go_string]: "TrimSpace [] = []"
  by (simp add: TrimSpace_def)

lemma TrimSpace_fix [go_string]:
  assumes "s \<noteq> [] \<Longrightarrow> printable (hd s) \<and> printable (last s)"
  shows "TrimSpace s = s"
proof (cases s)
  case (Cons c r)
  have "trim_left utf8_spaces s = s"
    using assms Cons
    by (intro trim_left_fix) (auto simp: HasPrefix_iff_append Cons_eq_append_conv dest!: utf8_spaces_ends)
  moreover have "trim_left (map rev utf8_spaces) (rev s) = rev s"
  proof (intro trim_left_fix notI)
    fix w assume w: "w \<in> set (map rev utf8_spaces)" "w \<noteq> []" "HasPrefix (rev s) w"
    then obtain v r' where "v \<in> set utf8_spaces" "w = rev v" "rev s = rev v @ r'"
      by (auto simp: HasPrefix_iff_append)
    then have "last s = last v" "v \<noteq> []"
      using w(2) by (auto simp: rev_eq_append_conv)
    then show False
      using assms Cons utf8_spaces_ends [OF \<open>v \<in> set utf8_spaces\<close>] by auto
  qed
  ultimately show ?thesis by (simp add: TrimSpace_def)
qed simp

lemma trim_left_suffix: "suffix (trim_left ws s) s"
proof (induction ws s rule: trim_left.induct)
  case (1 ws s)
  show ?case
  proof (cases "find (\<lambda>w. w \<noteq> [] \<and> HasPrefix s w) ws")
    case None
    then show ?thesis by (subst trim_left.simps) simp
  next
    case (Some w)
    with 1 have "suffix (trim_left ws (drop (length w) s)) (drop (length w) s)" by simp
    then show ?thesis
      using Some by (subst trim_left.simps) (simp add: suffix_order.trans suffix_drop)
  qed
qed

lemma trim_left_done: "w \<in> set ws \<Longrightarrow> w \<noteq> [] \<Longrightarrow> \<not> HasPrefix (trim_left ws s) w"
proof (induction ws s rule: trim_left.induct)
  case (1 ws s)
  show ?case
  proof (cases "find (\<lambda>w. w \<noteq> [] \<and> HasPrefix s w) ws")
    case None
    then have "trim_left ws s = s" by (subst trim_left.simps) simp
    with None 1(2,3) show ?thesis by (auto simp: find_None_iff)
  next
    case (Some v)
    with 1 show ?thesis by (subst trim_left.simps) simp
  qed
qed

lemma TrimSpace_idem [simp, go_string]: "TrimSpace (TrimSpace s) = TrimSpace s"
proof -
  let ?a = "trim_left utf8_spaces s"
  let ?r = "trim_left (map rev utf8_spaces) (rev ?a)"
  have "prefix (rev ?r) ?a"
    using trim_left_suffix [of "map rev utf8_spaces" "rev ?a"] by (simp add: suffix_to_prefix)
  then obtain z where z: "?a = rev ?r @ z" by (auto simp: prefix_def)
  have "\<not> HasPrefix (rev ?r) w" if "w \<in> set utf8_spaces" "w \<noteq> []" for w
    using trim_left_done [OF that, of s] z by (metis HasPrefix_iff_append append.assoc)
  then have "trim_left utf8_spaces (rev ?r) = rev ?r"
    by (intro trim_left_fix) auto
  moreover have "trim_left (map rev utf8_spaces) ?r = ?r"
    by (rule trim_left_fix) (use trim_left_done in blast)
  ultimately show ?thesis by (simp add: TrimSpace_def)
qed

abbreviation crlf :: string where
  "crlf \<equiv> [CHR 13, CHR 10]"

section \<open>Decimal and hexadecimal output\<close>

definition digit :: "nat \<Rightarrow> char" where
  "digit n = char_of (48 + n mod 10)"

fun nat_to_string :: "nat \<Rightarrow> string" where
  "nat_to_string n = (if n < 10 then [digit n] else nat_to_string (n div 10) @ [digit (n mod 10)])"

declare nat_to_string.simps [simp del]

text \<open>\<^verbatim>\<open>strconv.Itoa\<close> and the \<^verbatim>\<open>%d\<close> verb.\<close>

definition Itoa :: "int \<Rightarrow> string" where
  "Itoa n = (if n < 0 then CHR ''-'' # nat_to_string (nat (- n)) else nat_to_string (nat n))"

text \<open>\<^verbatim>\<open>hex.EncodeToString\<close>: two lower-case digits per byte.\<close>

definition hexdigit :: "nat \<Rightarrow> char" where
  "hexdigit n = (if n < 10 then char_of (48 + n) else char_of (87 + n))"

definition hexbyte :: "char \<Rightarrow> string" where
  "hexbyte c = [hexdigit (of_char c div 16), hexdigit (of_char c mod 16)]"

definition EncodeHex :: "string \<Rightarrow> string" where
  "EncodeHex s = concat (map hexbyte s)"

lemma hexdigit_inj: "m < 16 \<Longrightarrow> n < 16 \<Longrightarrow> hexdigit m = hexdigit n \<Longrightarrow> m = n"
proof -
  have "\<forall>m \<in> set [0..<16]. \<forall>n \<in> set [0..<16]. hexdigit m = hexdigit n \<longrightarrow> m = n"
    by code_simp
  then show "m < 16 \<Longrightarrow> n < 16 \<Longrightarrow> hexdigit m = hexdigit n \<Longrightarrow> m = n"
    by simp
qed

lemma of_char_bound: "(of_char c :: nat) < 256"
  by simp

lemma hexbyte_inj: "hexbyte c = hexbyte d \<Longrightarrow> c = d"
proof -
  assume h: "hexbyte c = hexbyte d"
  have "(of_char c :: nat) div 16 < 16" "(of_char d :: nat) div 16 < 16"
    using of_char_bound [of c] of_char_bound [of d] by linarith+
  then have "(of_char c :: nat) div 16 = of_char d div 16" "(of_char c :: nat) mod 16 = of_char d mod 16"
    using h by (auto simp: hexbyte_def intro!: hexdigit_inj)
  then have "(of_char c :: nat) = of_char d" by (metis div_mult_mod_eq)
  then show "c = d" by (metis char_of_char)
qed

lemma length_EncodeHex [simp]: "length (EncodeHex s) = 2 * length s"
  by (induction s) (simp_all add: EncodeHex_def hexbyte_def)

lemma EncodeHex_inj: "EncodeHex s = EncodeHex t \<Longrightarrow> s = t"
proof (induction s arbitrary: t)
  case Nil
  then show ?case by (cases t) (simp_all add: EncodeHex_def hexbyte_def)
next
  case (Cons c s)
  then obtain d t' where "t = d # t'"
    by (cases t) (auto simp: EncodeHex_def hexbyte_def)
  with Cons show ?case
    using hexbyte_inj [of c d] by (auto simp: EncodeHex_def hexbyte_def)
qed

lemma EncodeHex_eq_Nil [simp]: "EncodeHex s = [] \<longleftrightarrow> s = []"
  by (cases s) (auto simp: EncodeHex_def hexbyte_def)

lemma EncodeHex_chars: "c \<in> set (EncodeHex s) \<Longrightarrow> c \<noteq> CHR ''|''"
proof -
  assume "c \<in> set (EncodeHex s)"
  then obtain d where "c = hexdigit (of_char d div 16) \<or> c = hexdigit (of_char d mod 16)"
    by (auto simp: EncodeHex_def hexbyte_def)
  moreover have "(of_char d :: nat) div 16 < 16" using of_char_bound [of d] by linarith
  moreover have "\<forall>n \<in> set [0..<16]. hexdigit n \<noteq> CHR ''|''" by code_simp
  ultimately show ?thesis by auto
qed

section \<open>Lists and maps\<close>

text \<open>The last \<open>n\<close> elements of a list.\<close>

definition lastn :: "nat \<Rightarrow> 'a list \<Rightarrow> 'a list" where
  "lastn n xs = drop (length xs - n) xs"

lemma length_lastn [simp]: "length (lastn n xs) = min n (length xs)"
  by (simp add: lastn_def)

lemma lastn_all [simp]: "length xs \<le> n \<Longrightarrow> lastn n xs = xs"
  by (simp add: lastn_def)

lemma lastn_lastn_append [simp]: "lastn n (lastn n xs @ ys) = lastn n (xs @ ys)"
proof (cases "length xs \<le> n")
  case False
  then have "length (lastn n xs @ ys) - n = length ys"
    by simp
  moreover have "length (xs @ ys) - n = length ys + (length xs - n)"
    using False by simp
  ultimately show ?thesis
    using False by (simp add: lastn_def)
qed simp

text \<open>Splitting a string at the first occurrence of a separator is unambiguous.\<close>

lemma split_at_unique:
  assumes "c \<notin> set a" "c \<notin> set a'" "a @ c # b = a' @ c # b'"
  shows "a = a' \<and> b = b'"
  using assms
proof (induction a arbitrary: a')
  case Nil
  then show ?case by (cases a') auto
next
  case (Cons x a)
  then show ?case by (cases a') auto
qed

lemma subseq_snoc: "subseq xs ys \<Longrightarrow> subseq (xs @ [z]) (ys @ [z])"
  by (simp add: list_emb_append_mono)

lemma subseq_skip: "subseq xs ys \<Longrightarrow> subseq xs (ys @ zs)"
  by (simp add: list_emb_append_mono [where xs' = "[]", simplified] subseq_rev_drop_many)

section \<open>Answers of the database\<close>

text \<open>
  A query handed to \<^verbatim>\<open>database/sql\<close> either fails or yields rows; scanning a
  row may fail (\<open>None\<close>), and after the last row \<^verbatim>\<open>rows.Err\<close> may report
  that the iteration was cut short.
\<close>

datatype 'r rows =
    QueryErr
  | Rows "'r option list" bool

datatype 'r row_result =
    NoRows
  | RowErr
  | Row 'r


section \<open>Runs of operations\<close>

text \<open>
  A sequence of operations \<open>xs\<close>, each applied by \<open>f\<close>, is admissible from a state
  when every operation meets its precondition \<open>ok\<close> in the state it runs in.
\<close>

fun run_ok :: "('o \<Rightarrow> 's \<Rightarrow> bool) \<Rightarrow> ('o \<Rightarrow> 's \<Rightarrow> 's) \<Rightarrow> 'o list \<Rightarrow> 's \<Rightarrow> bool" where
  "run_ok ok f [] s = True"
| "run_ok ok f (x # xs) s = (ok x s \<and> run_ok ok f xs (f x s))"

lemma run_ok_append [simp]:
  "run_ok ok f (xs @ ys) s \<longleftrightarrow> run_ok ok f xs s \<and> run_ok ok f ys (fold f xs s)"
  by (induction xs arbitrary: s) auto

lemma run_ok_all: "run_ok (\<lambda>x s. P x) f xs s \<longleftrightarrow> list_all P xs"
  by (induction xs arbitrary: s) auto

text \<open>
  The interface of a component whose operations keep an invariant, and, where the
  component is a log, only ever extend it.
\<close>

locale invariant_ops =
  fixes f :: "'o \<Rightarrow> 's \<Rightarrow> 's"
    and ok :: "'o \<Rightarrow> 's \<Rightarrow> bool"
    and inv :: "'s \<Rightarrow> bool"
  assumes inv_step: "inv s \<Longrightarrow> ok x s \<Longrightarrow> inv (f x s)"
begin

lemma inv_run: "inv s \<Longrightarrow> run_ok ok f xs s \<Longrightarrow> inv (fold f xs s)"
  by (induction xs arbitrary: s) (auto intro: inv_step)

end

locale append_only = invariant_ops f ok inv
  for f :: "'o \<Rightarrow> 's \<Rightarrow> 's" and ok :: "'o \<Rightarrow> 's \<Rightarrow> bool" and inv :: "'s \<Rightarrow> bool" +
  fixes entries :: "'s \<Rightarrow> 'e list"
  assumes extends: "prefix (entries s) (entries (f x s))"
begin

lemma extends_run: "prefix (entries s) (entries (fold f xs s))"
proof (induction xs arbitrary: s)
  case (Cons x xs)
  have "prefix (entries (f x s)) (entries (fold f xs (f x s)))"
    by (rule Cons.IH)
  with extends [of s x] show ?case
    by (simp add: prefix_order.trans)
qed simp

end


section \<open>The contract of a keyed store\<close>

text \<open>
  A registry of objects under a key of their own: the session store, the hub's map
  of live sessions and the registry of agents.
\<close>

locale keyed_store =
  fixes key :: "'v \<Rightarrow> 'k"
    and ref :: "'v \<Rightarrow> 'r"
    and put :: "'v \<Rightarrow> 's \<Rightarrow> 's"
    and get :: "'k \<Rightarrow> 's \<Rightarrow> 'r option"
    and del :: "'k \<Rightarrow> 's \<Rightarrow> 's"
  assumes get_put: "get k (put v s) = (if k = key v then Some (ref v) else get k s)"
    and get_del: "get k (del k' s) = (if k = k' then None else get k s)"
begin

lemma get_put_same: "get (key v) (put v s) = Some (ref v)"
  by (simp add: get_put)

lemma get_del_same: "get k (del k s) = None"
  by (simp add: get_del)

lemma get_puts: "key v \<notin> key ` set vs \<Longrightarrow> get (key v) (fold put vs (put v s)) = Some (ref v)"
proof (induction vs rule: rev_induct)
  case Nil
  show ?case by (simp add: get_put_same)
next
  case (snoc w vs)
  then show ?case by (auto simp: get_put)
qed

lemma get_dels: "get k (fold del ks s) = (if k \<in> set ks then None else get k s)"
  by (induction ks arbitrary: s) (auto simp: get_del)

end

section \<open>Histories\<close>

text \<open>What the steps of a run contribute, one after the other.\<close>

fun over_run :: "('a \<Rightarrow> 's \<Rightarrow> 's) \<Rightarrow> ('a \<Rightarrow> 's \<Rightarrow> 'x list) \<Rightarrow> 'a list \<Rightarrow> 's \<Rightarrow> 'x list" where
  "over_run step f [] s = []"
| "over_run step f (a # as) s = f a s @ over_run step f as (step a s)"

lemma over_run_map: "over_run step (\<lambda>a s. map g (f a s)) as s = map g (over_run step f as s)"
  by (induction as arbitrary: s) simp_all

text \<open>A buffer: whatever a step puts in or takes out, what was held and put is what was taken and is held.  Over a
  run nothing is lost inside it, repeated or reordered.\<close>

locale fifo_history =
  fixes step :: "'a \<Rightarrow> 's \<Rightarrow> 's"
    and put :: "'a \<Rightarrow> 's \<Rightarrow> 'x list"
    and got :: "'a \<Rightarrow> 's \<Rightarrow> 'x list"
    and held :: "'s \<Rightarrow> 'x list"
  assumes fifo: "held s @ put a s = got a s @ held (step a s)"
begin

lemma history: "held s @ over_run step put as s = over_run step got as s @ held (fold step as s)"
proof (induction as arbitrary: s)
  case (Cons a as)
  have "held s @ over_run step put (a # as) s = got a s @ held (step a s) @ over_run step put as (step a s)"
    using fifo [of s a] by (metis append.assoc over_run.simps(2))
  with Cons show ?case by simp
qed simp

lemma from_empty: "held s = [] \<Longrightarrow> over_run step put as s = over_run step got as s @ held (fold step as s)"
  using history [of s as] by simp

end

text \<open>A log: every step appends what it adds, as long as the invariant holds.\<close>

locale log_history = invariant_ops step ok inv
  for step :: "'a \<Rightarrow> 's \<Rightarrow> 's" and ok :: "'a \<Rightarrow> 's \<Rightarrow> bool" and inv :: "'s \<Rightarrow> bool" +
  fixes added :: "'a \<Rightarrow> 's \<Rightarrow> 'x list"
    and log :: "'s \<Rightarrow> 'x list"
  assumes adds: "inv s \<Longrightarrow> ok a s \<Longrightarrow> log (step a s) = log s @ added a s"
begin

lemma log_run: "inv s \<Longrightarrow> run_ok ok step as s \<Longrightarrow> log (fold step as s) = log s @ over_run step added as s"
  by (induction as arbitrary: s) (auto simp: inv_step adds)

end

end
