(* ===== verification/Codec.thy ===== *)
theory Codec
  imports Prelude
begin

text \<open>
  The text and byte encodings of the Go standard library that the program stores
  and sends: positional digits (big-endian integers), \<^verbatim>\<open>encoding/base64\<close> (standard
  alphabet, padded) and \<^verbatim>\<open>encoding/base32\<close>, each with the decoder's treatment of
  newlines, padding and bad input, and the contract of a codec.
\<close>

section \<open>The contract of a codec\<close>

locale codec =
  fixes ok :: "'a \<Rightarrow> bool"
    and enc :: "'a \<Rightarrow> 'b"
    and dec :: "'b \<Rightarrow> 'a option"
  assumes dec_enc: "ok x \<Longrightarrow> dec (enc x) = Some x"
begin

lemma enc_inj: "ok x \<Longrightarrow> ok y \<Longrightarrow> enc x = enc y \<longleftrightarrow> x = y"
  by (metis dec_enc option.inject)

lemma dec_None: "dec s = None \<Longrightarrow> ok x \<Longrightarrow> s \<noteq> enc x"
  by (auto simp: dec_enc)

lemma dec_map: "list_all ok xs \<Longrightarrow> map dec (map enc xs) = map Some xs"
  by (induction xs) (simp_all add: dec_enc)

end

section \<open>Positional digits\<close>

definition from_digits :: "nat \<Rightarrow> nat list \<Rightarrow> nat" where
  "from_digits b ds = foldl (\<lambda>n d. n * b + d) 0 ds"

fun to_digits :: "nat \<Rightarrow> nat \<Rightarrow> nat \<Rightarrow> nat list" where
  "to_digits b 0 n = []"
| "to_digits b (Suc k) n = to_digits b k (n div b) @ [n mod b]"

lemma from_digits_snoc [simp]: "from_digits b (ds @ [d]) = from_digits b ds * b + d"
  by (simp add: from_digits_def)

lemma from_digits_Nil [simp]: "from_digits b [] = 0"
  by (simp add: from_digits_def)

lemma length_to_digits [simp]: "length (to_digits b k n) = k"
  by (induction k arbitrary: n) simp_all

lemma to_digits_nth: "i < k \<Longrightarrow> to_digits b k n ! i = n div b ^ (k - 1 - i) mod b"
proof (induction k arbitrary: n)
  case (Suc k)
  show ?case
  proof (cases "i < k")
    case True
    then have "k - i = Suc (k - 1 - i)" by simp
    with True Suc show ?thesis by (simp add: nth_append div_mult2_eq)
  next
    case False
    with Suc.prems show ?thesis by (simp add: nth_append less_Suc_eq)
  qed
qed simp

lemma to_digits_bound: "0 < b \<Longrightarrow> d \<in> set (to_digits b k n) \<Longrightarrow> d < b"
  by (induction k arbitrary: n) auto

lemma from_to_digits: "from_digits b (to_digits b k n) = n mod b ^ k"
proof (induction k arbitrary: n)
  case (Suc k)
  have "(n div b mod b ^ k) * b + n mod b = n mod (b * b ^ k)"
    by (metis mod_mult2_eq add.commute mult.commute)
  with Suc show ?case by simp
qed simp

lemma to_from_digits:
  "\<forall>d \<in> set ds. d < b \<Longrightarrow> to_digits b (length ds) (from_digits b ds) = ds"
  by (induction ds rule: rev_induct) auto

lemma from_digits_bound:
  assumes "0 < b" "\<forall>d \<in> set ds. d < b"
  shows "from_digits b ds < b ^ length ds"
  using assms
proof (induction ds rule: rev_induct)
  case (snoc d ds)
  then have "from_digits b ds + 1 \<le> b ^ length ds" "d < b" by auto
  then have "(from_digits b ds + 1) * b \<le> b ^ length ds * b" by (intro mult_right_mono) auto
  with \<open>d < b\<close> show ?case by (simp add: algebra_simps)
qed simp

text \<open>Converting a group of digits to another base of the same size and back.\<close>

lemma regroup:
  assumes "0 < b" "\<forall>d \<in> set ds. d < b" "b ^ length ds = c ^ k"
  shows "to_digits b (length ds) (from_digits c (to_digits c k (from_digits b ds))) = ds"
  using from_digits_bound [OF assms(1,2)] assms to_from_digits [OF assms(2)]
  by (simp add: from_to_digits)

lemma from_digits_zeros:
  "from_digits b (ds @ replicate k 0) = from_digits b ds * b ^ k"
  by (induction k) (simp_all add: replicate_append_same [symmetric] append_assoc [symmetric] del: append_assoc)

section \<open>Alphabets\<close>

definition alphabet64 :: string where
  "alphabet64 = ''ABCDEFGHIJKLMNOPQRSTUVWXYZabcdefghijklmnopqrstuvwxyz0123456789+/''"

definition alphabet32 :: string where
  "alphabet32 = ''ABCDEFGHIJKLMNOPQRSTUVWXYZ234567''"

fun index_in :: "string \<Rightarrow> char \<Rightarrow> nat option" where
  "index_in [] c = None"
| "index_in (x # xs) c = (if x = c then Some 0 else map_option Suc (index_in xs c))"

lemma index_in_nth: "distinct xs \<Longrightarrow> n < length xs \<Longrightarrow> index_in xs (xs ! n) = Some n"
  by (induction xs arbitrary: n) (auto simp: nth_Cons split: nat.splits)

definition b64_char :: "nat \<Rightarrow> char" where "b64_char n = alphabet64 ! n"
definition b64_val :: "char \<Rightarrow> nat option" where "b64_val c = index_in alphabet64 c"
definition b32_char :: "nat \<Rightarrow> char" where "b32_char n = alphabet32 ! n"
definition b32_val :: "char \<Rightarrow> nat option" where "b32_val c = index_in alphabet32 c"

lemma b64_val_char [simp]: "n < 64 \<Longrightarrow> b64_val (b64_char n) = Some n"
  unfolding b64_val_def b64_char_def by (rule index_in_nth) (code_simp, simp add: alphabet64_def)

lemma b32_val_char [simp]: "n < 32 \<Longrightarrow> b32_val (b32_char n) = Some n"
  unfolding b32_val_def b32_char_def by (rule index_in_nth) (code_simp, simp add: alphabet32_def)

lemma b64_val_special [simp]: "b64_val (CHR ''='') = None" "b64_val (CHR 10) = None" "b64_val (CHR 13) = None"
  by code_simp+

lemma b32_val_special [simp]: "b32_val (CHR ''='') = None" "b32_val (CHR 10) = None" "b32_val (CHR 13) = None"
  by code_simp+

definition ords :: "string \<Rightarrow> nat list" where "ords = map of_char"
definition chars :: "nat list \<Rightarrow> string" where "chars = map char_of"

lemma chars_ords [simp]: "chars (ords s) = s"
  by (simp add: chars_def ords_def o_def)

lemma ords_bound: "\<forall>d \<in> set (ords s). d < 256"
  by (auto simp: ords_def)

lemma chars_append [simp]: "chars (xs @ ys) = chars xs @ chars ys"
  by (simp add: chars_def)

fun vals :: "(char \<Rightarrow> nat option) \<Rightarrow> string \<Rightarrow> nat list option" where
  "vals v [] = Some []"
| "vals v (c # s) =
     (case v c of None \<Rightarrow> None | Some n \<Rightarrow> (case vals v s of None \<Rightarrow> None | Some ns \<Rightarrow> Some (n # ns)))"

lemma vals_map: "(\<And>d. d \<in> set ds \<Longrightarrow> v (f d) = Some d) \<Longrightarrow> vals v (map f ds) = Some ds"
  by (induction ds) auto

definition strip_newlines :: "string \<Rightarrow> string" where
  "strip_newlines s = filter (\<lambda>c. c \<noteq> CHR 10 \<and> c \<noteq> CHR 13) s"


section \<open>Base 64\<close>

text \<open>A group of three bytes as four 6-bit digits, and back.\<close>

definition b64_group :: "nat list \<Rightarrow> nat list" where
  "b64_group bs = to_digits 64 4 (from_digits 256 bs)"

definition b64_ungroup :: "nat list \<Rightarrow> nat list" where
  "b64_ungroup ds = to_digits 256 3 (from_digits 64 ds)"

fun b64_EncodeToString :: "string \<Rightarrow> string" where
  "b64_EncodeToString [] = []"
| "b64_EncodeToString [a] = map b64_char (take 2 (b64_group (ords [a] @ [0, 0]))) @ ''==''"
| "b64_EncodeToString [a, b] = map b64_char (take 3 (b64_group (ords [a, b] @ [0]))) @ ''=''"
| "b64_EncodeToString (a # b # c # r) = map b64_char (b64_group (ords [a, b, c])) @ b64_EncodeToString r"

text \<open>
  The decoder on a string without newlines: groups of four digits; padding only in
  the last group, after at least two digits, and nothing after it.
\<close>

fun b64_decode :: "string \<Rightarrow> string option" where
  "b64_decode [] = Some []"
| "b64_decode (a # b # c # d # r) =
     (if d = CHR ''='' then
        if r \<noteq> [] then None
        else if c = CHR ''='' then map_option (\<lambda>ds. chars (take 1 (b64_ungroup (ds @ [0, 0])))) (vals b64_val [a, b])
        else map_option (\<lambda>ds. chars (take 2 (b64_ungroup (ds @ [0])))) (vals b64_val [a, b, c])
      else case vals b64_val [a, b, c, d] of
             None \<Rightarrow> None
           | Some ds \<Rightarrow> map_option (\<lambda>s. chars (b64_ungroup ds) @ s) (b64_decode r))"
| "b64_decode _ = None"

definition b64_DecodeString :: "string \<Rightarrow> string option" where
  "b64_DecodeString s = b64_decode (strip_newlines s)"

lemma b64_group_bound: "d \<in> set (b64_group bs) \<Longrightarrow> d < 64"
  unfolding b64_group_def by (rule to_digits_bound) simp_all

lemma length_b64_group [simp]: "length (b64_group bs) = 4"
  by (simp add: b64_group_def)

lemma b64_ungroup_group: "length bs = 3 \<Longrightarrow> \<forall>d \<in> set bs. d < 256 \<Longrightarrow> b64_ungroup (b64_group bs) = bs"
  unfolding b64_ungroup_def b64_group_def using regroup [of 256 bs 64 4] by simp

lemma list4: "length ds = 4 \<Longrightarrow> \<exists>a b c d. ds = [a, b, c, d]"
  by (auto simp: numeral_eq_Suc length_Suc_conv)

lemma b64_group_zeros:
  "b64_group (xs @ [0]) ! 3 = 0" "b64_group (xs @ [0, 0]) ! 2 = 0"
proof -
  have "from_digits 256 (xs @ [0]) = 4 * from_digits 256 xs * 64" by simp
  then show "b64_group (xs @ [0]) ! 3 = 0"
    by (simp add: b64_group_def to_digits_nth)
  have "from_digits 256 (xs @ [0, 0]) = 16 * from_digits 256 xs * 64 * 64"
    using from_digits_zeros [of 256 xs 2] by (simp add: numeral_2_eq_2)
  then show "b64_group (xs @ [0, 0]) ! 2 = 0"
    by (simp add: b64_group_def to_digits_nth)
qed

lemma no_newline: "d < 64 \<Longrightarrow> b64_char d \<noteq> CHR 10 \<and> b64_char d \<noteq> CHR 13 \<and> b64_char d \<noteq> CHR ''=''"
  by (metis b64_val_char b64_val_special option.distinct(1))

lemma b64_take_no_newline: "c \<in> set (map b64_char (take n (b64_group bs))) \<Longrightarrow> c \<noteq> CHR 10 \<and> c \<noteq> CHR 13 \<and> c \<noteq> CHR ''=''"
  using no_newline b64_group_bound by (auto dest!: in_set_takeD)

lemma strip_b64: "strip_newlines (b64_EncodeToString s) = b64_EncodeToString s"
  unfolding strip_newlines_def
proof (induction s rule: b64_EncodeToString.induct)
  case (2 a)
  have "\<forall>c \<in> set (map b64_char (take 2 (b64_group (ords [a] @ [0, 0])))). c \<noteq> CHR 10 \<and> c \<noteq> CHR 13"
    using b64_take_no_newline by blast
  then show ?case by (simp add: filter_id_conv del: list.map take_map)
next
  case (3 a b)
  have "\<forall>c \<in> set (map b64_char (take 3 (b64_group (ords [a, b] @ [0])))). c \<noteq> CHR 10 \<and> c \<noteq> CHR 13"
    using b64_take_no_newline by blast
  then show ?case by (simp add: filter_id_conv del: list.map)
next
  case (4 a b c r)
  have "\<forall>x \<in> set (map b64_char (b64_group (ords [a, b, c]))). x \<noteq> CHR 10 \<and> x \<noteq> CHR 13"
    using no_newline b64_group_bound by auto
  with 4 show ?case by (simp add: filter_id_conv del: list.map)
qed simp

lemma b64_decode_encode: "b64_decode (b64_EncodeToString s) = Some s"
proof (induction s rule: b64_EncodeToString.induct)
  case (2 a)
  obtain w x y z where g: "b64_group (ords [a] @ [0, 0]) = [w, x, y, z]"
    using list4 [OF length_b64_group] by blast
  have "y = 0" "z = 0"
    using b64_group_zeros(1) [of "ords [a] @ [0]"] b64_group_zeros(2) [of "ords [a]"] g
    by simp_all
  moreover have "w < 64" "x < 64"
    using b64_group_bound [of _ "ords [a] @ [0, 0]"] g by auto
  moreover have "b64_ungroup [w, x, y, z] = ords [a] @ [0, 0]"
    using b64_ungroup_group [of "ords [a] @ [0, 0]"] g by (simp add: ords_def)
  ultimately show ?case
    using g by (simp add: ords_def chars_def)
next
  case (3 a b)
  obtain w x y z where g: "b64_group (ords [a, b] @ [0]) = [w, x, y, z]"
    using list4 [OF length_b64_group] by blast
  have "z = 0"
    using b64_group_zeros(1) [of "ords [a, b]"] g by simp
  moreover have "w < 64" "x < 64" "y < 64"
    using b64_group_bound [of _ "ords [a, b] @ [0]"] g by auto
  moreover have "b64_ungroup [w, x, y, z] = ords [a, b] @ [0]"
    using b64_ungroup_group [of "ords [a, b] @ [0]"] g by (simp add: ords_def)
  ultimately show ?case
    using g no_newline [of y] by (simp add: ords_def chars_def numeral_3_eq_3)
next
  case (4 a b c r)
  obtain w x y z where g: "b64_group (ords [a, b, c]) = [w, x, y, z]"
    using list4 [OF length_b64_group] by blast
  have "w < 64" "x < 64" "y < 64" "z < 64"
    using b64_group_bound [of _ "ords [a, b, c]"] g by auto
  moreover have "b64_ungroup [w, x, y, z] = ords [a, b, c]"
    using b64_ungroup_group [of "ords [a, b, c]"] g by (simp add: ords_def)
  ultimately show ?case
    using g 4 no_newline [of z] chars_ords [of "[a, b, c]"] by simp
qed simp

interpretation base64: codec "\<lambda>s. True" b64_EncodeToString b64_DecodeString
  by unfold_locales (simp add: b64_DecodeString_def strip_b64 b64_decode_encode)

section \<open>Base 32\<close>

definition b32_group :: "nat list \<Rightarrow> nat list" where
  "b32_group bs = to_digits 32 8 (from_digits 256 bs)"

definition b32_ungroup :: "nat list \<Rightarrow> nat list" where
  "b32_ungroup ds = to_digits 256 5 (from_digits 32 ds)"

text \<open>How many digits a last group of that many bytes has, and how many bytes a last
  group of that many digits; other digit counts are corrupt input.\<close>

definition b32_digits :: "nat \<Rightarrow> nat" where
  "b32_digits n = [0, 2, 4, 5, 7] ! n"

definition b32_bytes :: "nat \<Rightarrow> nat option" where
  "b32_bytes n = map_of [(2, 1), (4, 2), (5, 3), (7, 4), (8, 5)] n"

fun b32_EncodeToString :: "string \<Rightarrow> string" where
  "b32_EncodeToString (a # b # c # d # e # r) =
     map b32_char (b32_group (ords [a, b, c, d, e])) @ b32_EncodeToString r"
| "b32_EncodeToString s =
     (if s = [] then []
      else let n = b32_digits (length s)
           in map b32_char (take n (b32_group (ords s @ replicate (5 - length s) 0))) @ replicate (8 - n) (CHR ''=''))"

text \<open>
  One group of the decoder: \<open>ds\<close> are the digits read so far.  Padding ends the input
  when at least two digits were read and less than a group is left; it must fill
  the group.  The result is the digits of the group and the rest of the input,
  \<open>None\<close> when the padding ended it.
\<close>

fun b32_quantum :: "nat list \<Rightarrow> string \<Rightarrow> (nat list \<times> string option) option" where
  "b32_quantum ds s =
     (if length ds \<ge> 8 then Some (ds, Some s)
      else case s of
        [] \<Rightarrow> None
      | c # r \<Rightarrow>
          if c = CHR ''='' \<and> length ds \<ge> 2 \<and> length r < 8 then
            if length r + length ds < 7 then None
            else if \<exists>x \<in> set (take (7 - length ds) r). x \<noteq> CHR ''='' then None
            else if b32_bytes (length ds) = None then None
            else Some (ds, None)
          else case b32_val c of None \<Rightarrow> None | Some v \<Rightarrow> b32_quantum (ds @ [v]) r)"

declare b32_quantum.simps [simp del]

fun b32_decode :: "nat \<Rightarrow> string \<Rightarrow> string option" where
  "b32_decode 0 s = (if s = [] then Some [] else None)"
| "b32_decode (Suc k) s =
     (if s = [] then Some []
      else case b32_quantum [] s of
        None \<Rightarrow> None
      | Some (ds, rest) \<Rightarrow>
          (let bs = chars (take (the (b32_bytes (length ds))) (b32_ungroup (ds @ replicate (8 - length ds) 0)))
           in case rest of None \<Rightarrow> Some bs | Some r \<Rightarrow> map_option (\<lambda>s. bs @ s) (b32_decode k r)))"

text \<open>Every group consumes a character at least, so the length of the input is fuel enough.\<close>

definition b32_DecodeString :: "string \<Rightarrow> string option" where
  "b32_DecodeString s = (let t = strip_newlines s in b32_decode (length t) t)"

lemma b32_quantum_digits:
  "length ds + length es = 8 \<Longrightarrow> \<forall>e \<in> set es. e < 32 \<Longrightarrow>
   b32_quantum ds (map b32_char es @ r) = Some (ds @ es, Some r)"
proof (induction es arbitrary: ds)
  case Nil
  then show ?case by (simp add: b32_quantum.simps)
next
  case (Cons e es)
  have "b32_char e \<noteq> CHR ''=''"
    using Cons.prems(2) b32_val_char [of e] b32_val_special by (metis list.set_intros(1) option.distinct(1))
  with Cons show ?case
    by (subst b32_quantum.simps) simp
qed

lemma b32_group_bound: "d \<in> set (b32_group bs) \<Longrightarrow> d < 32"
  unfolding b32_group_def by (rule to_digits_bound) simp_all

lemma b32_ungroup_group: "length bs = 5 \<Longrightarrow> \<forall>d \<in> set bs. d < 256 \<Longrightarrow> b32_ungroup (b32_group bs) = bs"
  unfolding b32_ungroup_def b32_group_def using regroup [of 256 bs 32 8] by simp

lemma b32_decode_Nil [simp]: "b32_decode k [] = Some []"
  by (cases k) simp_all

lemma b32_decode_encode:
  "length s mod 5 = 0 \<Longrightarrow> length s \<le> k \<Longrightarrow> b32_decode k (b32_EncodeToString s) = Some s"
proof (induction s arbitrary: k rule: b32_EncodeToString.induct)
  case (1 a b c d e r)
  obtain k' where k: "k = Suc k'" "length r \<le> k'" using 1(3) by (cases k) auto
  let ?g = "b32_group (ords [a, b, c, d, e])"
  have l: "length ?g = 8" by (simp add: b32_group_def)
  have "b32_quantum [] (map b32_char ?g @ b32_EncodeToString r) = Some (?g, Some (b32_EncodeToString r))"
    using b32_quantum_digits [of "[]" ?g] b32_group_bound l by auto
  moreover have "b32_ungroup ?g = ords [a, b, c, d, e]"
    by (rule b32_ungroup_group) (simp_all add: ords_def)
  moreover have "?g \<noteq> []" using l by auto
  moreover have "b32_decode k' (b32_EncodeToString r) = Some r"
    using 1(1) [of k'] 1(2) k by simp
  ultimately show ?case
    using l chars_ords [of "[a, b, c, d, e]"] by (simp add: k b32_bytes_def ords_def)
qed (use b32_decode_Nil in auto)

end
