(* ===== verification/Secrets.thy ===== *)
theory Secrets
  imports Codec
begin

text \<open>
  Encryption at rest of stored credentials (\<^verbatim>\<open>internal/crypto/secrets.go\<close>).  The
  AEAD the cipher wraps (AES-256-GCM) is a parameter: its nonce size, \<open>Seal\<close> and
  \<open>Open\<close>; the law the code relies on is \<open>aead_ok\<close>.  The random nonce is an
  argument, \<open>None\<close> when the random source failed.
\<close>

record aead =
  NonceSize :: nat
  Seal :: "string \<Rightarrow> string \<Rightarrow> string"
  Open :: "string \<Rightarrow> string \<Rightarrow> string option"

text \<open>What \<^verbatim>\<open>cipher.AEAD\<close> documents: opening what was sealed under the same nonce
  gives the plaintext.\<close>

definition aead_ok :: "aead \<Rightarrow> bool" where
  "aead_ok a \<longleftrightarrow> (\<forall>n p. length n = NonceSize a \<longrightarrow> Open a n (Seal a n p) = Some p)"

definition secret_prefix :: string where
  "secret_prefix = ''enc:v1:''"

definition Encrypt :: "aead \<Rightarrow> string option \<Rightarrow> string \<Rightarrow> string" where
  "Encrypt a nonce plain =
     (if plain = [] then []
      else case nonce of
        None \<Rightarrow> plain
      | Some n \<Rightarrow> secret_prefix @ b64_EncodeToString (n @ Seal a n plain))"

definition EncryptPtr :: "aead \<Rightarrow> string option \<Rightarrow> string option \<Rightarrow> string option" where
  "EncryptPtr a nonce p = (case p of None \<Rightarrow> None | Some s \<Rightarrow> Some (Encrypt a nonce s))"

definition Decrypt :: "aead \<Rightarrow> string \<Rightarrow> string" where
  "Decrypt a s =
     (if \<not> HasPrefix s secret_prefix then s
      else case b64_DecodeString (TrimPrefix s secret_prefix) of
        None \<Rightarrow> []
      | Some raw \<Rightarrow>
          (let k = NonceSize a
           in if length raw < k then []
              else case Open a (take k raw) (drop k raw) of None \<Rightarrow> [] | Some pt \<Rightarrow> pt))"

definition DecryptPtr :: "aead \<Rightarrow> string option \<Rightarrow> string option" where
  "DecryptPtr a p = (case p of None \<Rightarrow> None | Some s \<Rightarrow> Some (Decrypt a s))"

text \<open>The nonces \<open>io.ReadFull\<close> can produce: full length, or none at all.\<close>

definition nonce_ok :: "aead \<Rightarrow> string option \<Rightarrow> bool" where
  "nonce_ok a nonce \<longleftrightarrow> (case nonce of None \<Rightarrow> True | Some n \<Rightarrow> length n = NonceSize a)"

lemma Decrypt_Nil [simp]: "Decrypt a [] = []"
  by (simp add: Decrypt_def HasPrefix_def secret_prefix_def)

lemma Encrypt_Nil_iff [simp]: "Encrypt a nonce s = [] \<longleftrightarrow> s = []"
  by (simp add: Encrypt_def secret_prefix_def split: option.splits)

lemma Decrypt_Encrypt:
  assumes "aead_ok a" "nonce_ok a nonce" "nonce = None \<Longrightarrow> \<not> HasPrefix s secret_prefix"
  shows "Decrypt a (Encrypt a nonce s) = s"
  using assms
  by (cases "s = []") (simp add: Encrypt_def, auto simp: Decrypt_def Encrypt_def aead_ok_def nonce_ok_def base64.dec_enc Let_def split: option.splits)

lemma DecryptPtr_EncryptPtr:
  assumes "aead_ok a" "nonce_ok a nonce" "\<And>s. nonce = None \<Longrightarrow> p = Some s \<Longrightarrow> \<not> HasPrefix s secret_prefix"
  shows "DecryptPtr a (EncryptPtr a nonce p) = p"
  using assms by (auto simp: DecryptPtr_def EncryptPtr_def Decrypt_Encrypt split: option.splits)

lemma Encrypt_prefix: "s \<noteq> [] \<Longrightarrow> HasPrefix (Encrypt a (Some n) s) secret_prefix"
  by (simp add: Encrypt_def)

text \<open>A stored credential reads back as it was entered: whatever the nonce was, decrypting
  what \<open>Encrypt\<close> stored gives the plaintext (even when the random source failed and
  the plaintext was stored as it is, unless it happens to start with the version
  tag); a value without the tag, written by an older build, is returned unchanged;
  and a tagged value that yields anything at all is one the AEAD authenticated.\<close>

theorem credential_roundtrip:
  assumes "aead_ok a" and "nonce_ok a nonce" and "nonce \<noteq> None \<or> \<not> HasPrefix s secret_prefix"
  shows "Decrypt a (Encrypt a nonce s) = s \<and>
    (\<not> HasPrefix t secret_prefix \<longrightarrow> Decrypt a t = t) \<and>
    (HasPrefix t secret_prefix \<and> Decrypt a t \<noteq> [] \<longrightarrow> (\<exists>n c. Open a n c = Some (Decrypt a t)))"
proof (intro conjI impI)
  show "Decrypt a (Encrypt a nonce s) = s"
    using assms by (intro Decrypt_Encrypt) auto
qed (auto simp: Decrypt_def Let_def split: option.splits if_splits)

text \<open>A toy AEAD for the witnesses: the nonce is appended as the tag.\<close>

definition toy_aead :: aead where
  "toy_aead = \<lparr>NonceSize = 2, Seal = (\<lambda>n p. rev p @ n),
     Open = (\<lambda>n c. let k = length c - length n in if drop k c = n then Some (rev (take k c)) else None)\<rparr>"

lemma toy_aead_ok: "aead_ok toy_aead"
  by (simp add: aead_ok_def toy_aead_def)

theorem credential_roundtrip_witness:
  "Decrypt toy_aead (Encrypt toy_aead (Some ''xy'') ''hunter2'') = ''hunter2'' \<and>
   Decrypt toy_aead ''legacy'' = ''legacy''"
proof -
  have "nonce_ok toy_aead (Some ''xy'')" by (simp add: nonce_ok_def toy_aead_def)
  moreover have "\<not> HasPrefix ''legacy'' secret_prefix" by (simp add: HasPrefix_def secret_prefix_def)
  ultimately show ?thesis
    using credential_roundtrip [OF toy_aead_ok, of "Some ''xy''" "''hunter2''" "''legacy''"] by simp
qed

end
