(* ===== verification/Http.thy ===== *)
theory Http
  imports Main
begin

text \<open>
  Answers of the HTTP handlers (\<^verbatim>\<open>internal/api/router.go\<close>: \<open>writeJSON\<close> and
  \<open>writeErr\<close>).  The body of a JSON answer is kept as the value that is marshalled.
\<close>

datatype 'a response =
    JSON (status: nat) (body: 'a)
  | Failed (status: nat) (err_text: string)
  | NoBody (status: nat)

definition writeJSON :: "nat \<Rightarrow> 'a \<Rightarrow> 'a response" where
  "writeJSON code v = JSON code v"

definition writeErr :: "nat \<Rightarrow> string \<Rightarrow> 'a response" where
  "writeErr code msg = Failed code msg"

abbreviation (input) StatusOK :: nat where "StatusOK \<equiv> 200"
abbreviation (input) StatusCreated :: nat where "StatusCreated \<equiv> 201"
abbreviation (input) StatusNoContent :: nat where "StatusNoContent \<equiv> 204"
abbreviation (input) StatusBadRequest :: nat where "StatusBadRequest \<equiv> 400"
abbreviation (input) StatusUnauthorized :: nat where "StatusUnauthorized \<equiv> 401"
abbreviation (input) StatusForbidden :: nat where "StatusForbidden \<equiv> 403"
abbreviation (input) StatusNotFound :: nat where "StatusNotFound \<equiv> 404"
abbreviation (input) StatusInternalServerError :: nat where "StatusInternalServerError \<equiv> 500"
abbreviation (input) StatusBadGateway :: nat where "StatusBadGateway \<equiv> 502"

definition succeeded :: "'a response \<Rightarrow> bool" where
  "succeeded r \<longleftrightarrow> 200 \<le> status r \<and> status r < 300"

lemma response_simps [simp]:
  "status (writeJSON c v) = c" "status (writeErr c m) = c" "body (writeJSON c v) = v"
  by (simp_all add: writeJSON_def writeErr_def)

lemma write_distinct [simp]: "writeJSON c v \<noteq> writeErr c' m" "writeErr c' m \<noteq> writeJSON c v"
  "writeJSON c v = writeJSON c' v' \<longleftrightarrow> c = c' \<and> v = v'"
  by (simp_all add: writeJSON_def writeErr_def)

end
