(* ===== verification/Servers.thy ===== *)
theory Servers
  imports Secrets Http
begin

text \<open>
  The inventory: servers (\<^verbatim>\<open>internal/models/server.go\<close>, \<^verbatim>\<open>internal/api/servers.go\<close>)
  and server groups (\<^verbatim>\<open>internal/api/groups.go\<close>), with the tables of the database
  they live in.  Rows the database answers with are arguments of the listing
  handlers; statements that change rows are operations on the tables, and whether
  the database refused a statement is an argument.  Parsing a private key
  (\<^verbatim>\<open>golang.org/x/crypto/ssh\<close>) is the parameter \<open>parse_err\<close>: the text of its error,
  if it fails.
\<close>

definition ModeAgent :: string where "ModeAgent = ''agent''"
definition ModeDirect :: string where "ModeDirect = ''direct''"
definition StatusOnline :: string where "StatusOnline = ''online''"
definition StatusOffline :: string where "StatusOffline = ''offline''"
definition StatusUnknown :: string where "StatusUnknown = ''unknown''"

record server =
  sv_ID :: string
  sv_Name :: string
  sv_Host :: string
  sv_Port :: int
  sv_Protocol :: string
  sv_ConnectionMode :: string
  sv_AgentToken :: "string option"
  sv_AgentConnectedAt :: "gotime option"
  sv_Status :: string
  sv_OSInfo :: "string option"
  sv_SSHUser :: "string option"
  sv_SSHKey :: "string option"
  sv_SSHPassword :: "string option"
  sv_SSHHostKey :: "string option"
  sv_HasSSHKey :: bool
  sv_HasSSHPassword :: bool
  sv_Metrics :: "string option"
  sv_MetricsAt :: "gotime option"
  sv_UseSSHCA :: bool
  sv_VulnCount :: int
  sv_VulnCritical :: int
  sv_VulnScannedAt :: "gotime option"
  sv_CreatedAt :: gotime

record group =
  gr_ID :: string
  gr_Name :: string
  gr_Description :: "string option"
  gr_CreatedAt :: gotime

text \<open>A row of \<^verbatim>\<open>access_requests\<close>.\<close>

record access_request =
  ar_ID :: string
  ar_UserID :: "string option"
  ar_ServerID :: string
  ar_Reason :: "string option"
  ar_Status :: string
  ar_RequestedAt :: gotime
  ar_DecidedAt :: "gotime option"
  ar_DecidedBy :: "string option"
  ar_ExpiresAt :: "gotime option"

text \<open>The tables.\<close>

record tables =
  t_servers :: "string \<rightharpoonup> server"
  t_groups :: "group list"
  t_members :: "(string \<times> string) set" \<comment> \<open>group id, server id\<close>
  t_requests :: "access_request list"

section \<open>The schema\<close>

text \<open>What the database itself checks and does, by \<^verbatim>\<open>internal/db/migrations\<close>: the handlers have no such checks, their statements fail
  when a row would violate a constraint.  The keys below are those the rows of the model can violate; that a random token is
  taken, or that a server with sessions is deleted, is among the reasons for which an argument says that a
  statement fails.\<close>

definition server_key_free :: "string \<Rightarrow> ('a tables_scheme) \<Rightarrow> bool" where
  [simp]: "server_key_free i t \<longleftrightarrow> t_servers t i = None"

definition find_group :: "string \<Rightarrow> ('a tables_scheme) \<Rightarrow> group option" where
  "find_group i t = find (\<lambda>g. gr_ID g = i) (t_groups t)"

definition group_name_taken :: "string \<Rightarrow> string option \<Rightarrow> ('a tables_scheme) \<Rightarrow> bool" where
  "group_name_taken n self t \<longleftrightarrow> list_ex (\<lambda>g. gr_Name g = n \<and> Some (gr_ID g) \<noteq> self) (t_groups t)"

definition group_keys_free :: "string \<Rightarrow> string \<Rightarrow> ('a tables_scheme) \<Rightarrow> bool" where
  [simp]: "group_keys_free i n t \<longleftrightarrow> \<not> group_name_taken n None t \<and> find_group i t = None"

definition member_refs_exist :: "string \<Rightarrow> string \<Rightarrow> ('a tables_scheme) \<Rightarrow> bool" where
  [simp]: "member_refs_exist groupID serverID t \<longleftrightarrow> find_group groupID t \<noteq> None \<and> t_servers t serverID \<noteq> None"

text \<open>\<^verbatim>\<open>ON DELETE CASCADE\<close>: the rows that go with a server, and with a group.\<close>

definition cascade_server :: "string \<Rightarrow> ('a tables_scheme) \<Rightarrow> 'a tables_scheme" where
  [simp]: "cascade_server i t =
     t\<lparr>t_members := {m \<in> t_members t. snd m \<noteq> i}, t_requests := filter (\<lambda>a. ar_ServerID a \<noteq> i) (t_requests t)\<rparr>"

definition cascade_group :: "string \<Rightarrow> ('a tables_scheme) \<Rightarrow> 'a tables_scheme" where
  [simp]: "cascade_group i t = t\<lparr>t_members := {m \<in> t_members t. fst m \<noteq> i}\<rparr>"

section \<open>Servers\<close>

definition validatePrivateKey :: "(string \<Rightarrow> string option) \<Rightarrow> string option \<Rightarrow> string option" where
  "validatePrivateKey parse_err key =
     (case key of None \<Rightarrow> None | Some k \<Rightarrow> if k = [] then None else parse_err k)"

text \<open>\<open>scanServer\<close> fills in the two flags the row does not store.\<close>

definition nonempty :: "string option \<Rightarrow> bool" where
  "nonempty p \<longleftrightarrow> p \<noteq> None \<and> p \<noteq> Some []"

definition scanServer :: "server \<Rightarrow> server" where
  "scanServer s = s\<lparr>sv_HasSSHKey := nonempty (sv_SSHKey s), sv_HasSSHPassword := nonempty (sv_SSHPassword s)\<rparr>"

text \<open>What \<^verbatim>\<open>encoding/json\<close> writes of a server: the fields tagged \<^verbatim>\<open>-\<close> are left out.\<close>

datatype json_server = JServer
  (js_id: string) (js_name: string) (js_host: string) (js_port: int) (js_protocol: string)
  (js_mode: string) (js_agent_token: "string option") (js_connected_at: "gotime option")
  (js_status: string) (js_os: "string option") (js_user: "string option")
  (js_has_key: bool) (js_has_password: bool) (js_metrics: "string option") (js_metrics_at: "gotime option")
  (js_use_ca: bool) (js_vulns: int) (js_critical: int) (js_scanned_at: "gotime option") (js_created_at: gotime)

definition marshal_server :: "server \<Rightarrow> json_server" where
  "marshal_server s = JServer (sv_ID s) (sv_Name s) (sv_Host s) (sv_Port s) (sv_Protocol s)
     (sv_ConnectionMode s) (sv_AgentToken s) (sv_AgentConnectedAt s) (sv_Status s) (sv_OSInfo s) (sv_SSHUser s)
     (sv_HasSSHKey s) (sv_HasSSHPassword s) (sv_Metrics s) (sv_MetricsAt s) (sv_UseSSHCA s)
     (sv_VulnCount s) (sv_VulnCritical s) (sv_VulnScannedAt s) (sv_CreatedAt s)"

text \<open>The loop over the rows stops at the first row that cannot be scanned.\<close>

fun collect :: "('r \<Rightarrow> 'b) \<Rightarrow> 'r option list \<Rightarrow> 'b list option" where
  "collect f [] = Some []"
| "collect f (None # rs) = None"
| "collect f (Some r # rs) = map_option (\<lambda>xs. f r # xs) (collect f rs)"

definition ListServers :: "server rows \<Rightarrow> json_server list response" where
  "ListServers q =
     (case q of
        QueryErr \<Rightarrow> writeErr StatusInternalServerError ''db error''
      | Rows rs _ \<Rightarrow>
          (case collect (\<lambda>r. marshal_server (scanServer r)) rs of
             None \<Rightarrow> writeErr StatusInternalServerError ''scan error''
           | Some xs \<Rightarrow> writeJSON StatusOK xs))"

definition GetServer :: "bool \<Rightarrow> string \<Rightarrow> ('a tables_scheme) \<Rightarrow> json_server response" where
  "GetServer fails i t =
     (if fails then writeErr StatusInternalServerError ''db error''
      else case t_servers t i of
        None \<Rightarrow> writeErr StatusNotFound ''not found''
      | Some s \<Rightarrow> writeJSON StatusOK (marshal_server (scanServer s)))"

record serverReq =
  rq_Name :: string
  rq_Host :: string
  rq_Port :: int
  rq_Protocol :: string
  rq_ConnectionMode :: string
  rq_OSInfo :: "string option"
  rq_SSHUser :: "string option"
  rq_SSHKey :: "string option"
  rq_SSHPassword :: "string option"
  rq_UseSSHCA :: bool

definition newToken :: "string \<Rightarrow> string" where
  "newToken rnd = EncodeHex rnd"

text \<open>
  \<open>CreateServer\<close>.  The environment: the 32 random bytes of the token, the nonces of
  the two encryptions, the id and time the database assigns, and whether it
  refused the insert; the body is \<open>None\<close> when it is not valid JSON.
\<close>

record server_env =
  se_rnd :: string
  se_nonceKey :: "string option"
  se_noncePass :: "string option"
  se_id :: string
  se_now :: gotime
  se_fails :: bool

definition default_req :: "serverReq \<Rightarrow> serverReq" where
  "default_req r =
     r\<lparr>rq_Port := (if rq_Port r = 0 then 22 else rq_Port r),
       rq_Protocol := (if rq_Protocol r = [] then ''ssh'' else rq_Protocol r),
       rq_ConnectionMode := (if rq_ConnectionMode r = [] then ModeDirect else rq_ConnectionMode r)\<rparr>"

definition server_row :: "aead \<Rightarrow> server_env \<Rightarrow> serverReq \<Rightarrow> server" where
  "server_row c env r =
     \<lparr>sv_ID = se_id env, sv_Name = rq_Name r, sv_Host = rq_Host r, sv_Port = rq_Port r,
      sv_Protocol = rq_Protocol r, sv_ConnectionMode = rq_ConnectionMode r,
      sv_AgentToken = Some (newToken (se_rnd env)), sv_AgentConnectedAt = None, sv_Status = StatusUnknown,
      sv_OSInfo = rq_OSInfo r, sv_SSHUser = rq_SSHUser r,
      sv_SSHKey = EncryptPtr c (se_nonceKey env) (rq_SSHKey r),
      sv_SSHPassword = EncryptPtr c (se_noncePass env) (rq_SSHPassword r),
      sv_SSHHostKey = None, sv_HasSSHKey = False, sv_HasSSHPassword = False,
      sv_Metrics = None, sv_MetricsAt = None, sv_UseSSHCA = rq_UseSSHCA r,
      sv_VulnCount = 0, sv_VulnCritical = 0, sv_VulnScannedAt = None, sv_CreatedAt = se_now env\<rparr>"

definition CreateServer ::
  "(string \<Rightarrow> string option) \<Rightarrow> aead \<Rightarrow> server_env \<Rightarrow> serverReq option \<Rightarrow> ('a tables_scheme) \<Rightarrow>
   json_server response \<times> 'a tables_scheme" where
  "CreateServer parse_err c env req t =
     (case req of
        None \<Rightarrow> (writeErr StatusBadRequest ''name and host required'', t)
      | Some r0 \<Rightarrow>
          if rq_Name r0 = [] \<or> rq_Host r0 = [] then (writeErr StatusBadRequest ''name and host required'', t)
          else (let r = default_req r0
                in case validatePrivateKey parse_err (rq_SSHKey r) of
                     Some e \<Rightarrow> (writeErr StatusBadRequest (''invalid SSH private key: '' @ e), t)
                   | None \<Rightarrow>
                   if se_fails env \<or> \<not> server_key_free (se_id env) t then (writeErr StatusBadRequest ''could not create server'', t)
                   else (let s = server_row c env r
                         in (writeJSON StatusCreated (marshal_server (scanServer s)),
                             t\<lparr>t_servers := (t_servers t)(se_id env \<mapsto> s)\<rparr>))))"

definition coalesce_opt :: "'a option \<Rightarrow> 'a option \<Rightarrow> 'a option" where
  "coalesce_opt a b = (case a of None \<Rightarrow> b | Some x \<Rightarrow> Some x)"

definition UpdateServer ::
  "(string \<Rightarrow> string option) \<Rightarrow> aead \<Rightarrow> server_env \<Rightarrow> string \<Rightarrow> serverReq option \<Rightarrow> ('a tables_scheme) \<Rightarrow>
   json_server response \<times> 'a tables_scheme" where
  "UpdateServer parse_err c env i req t =
     (case req of
        None \<Rightarrow> (writeErr StatusBadRequest ''invalid body'', t)
      | Some r0 \<Rightarrow>
          (let r = r0\<lparr>rq_Port := (if rq_Port r0 = 0 then 22 else rq_Port r0)\<rparr>
           in case validatePrivateKey parse_err (rq_SSHKey r) of
                Some e \<Rightarrow> (writeErr StatusBadRequest (''invalid SSH private key: '' @ e), t)
              | None \<Rightarrow>
              if se_fails env then (writeErr StatusBadRequest ''could not update server'', t)
              else case t_servers t i of
                None \<Rightarrow> (writeErr StatusNotFound ''not found'', t)
              | Some s \<Rightarrow>
                  (let s' = s\<lparr>sv_Name := rq_Name r, sv_Host := rq_Host r, sv_Port := rq_Port r,
                        sv_Protocol := rq_Protocol r, sv_ConnectionMode := rq_ConnectionMode r,
                        sv_OSInfo := rq_OSInfo r, sv_SSHUser := rq_SSHUser r,
                        sv_SSHKey := coalesce_opt (EncryptPtr c (se_nonceKey env) (rq_SSHKey r)) (sv_SSHKey s),
                        sv_SSHPassword := coalesce_opt (EncryptPtr c (se_noncePass env) (rq_SSHPassword r)) (sv_SSHPassword s),
                        sv_UseSSHCA := rq_UseSSHCA r\<rparr>
                   in (writeJSON StatusOK (marshal_server (scanServer s')),
                       t\<lparr>t_servers := (t_servers t)(i \<mapsto> s')\<rparr>))))"

definition DeleteServer :: "bool \<Rightarrow> string \<Rightarrow> ('a tables_scheme) \<Rightarrow> unit response \<times> 'a tables_scheme" where
  "DeleteServer fails i t =
     (if fails then (writeErr StatusBadRequest ''could not delete (in use?)'', t)
      else (NoBody StatusNoContent, cascade_server i (t\<lparr>t_servers := (t_servers t)(i := None)\<rparr>)))"

definition RotateToken :: "string \<Rightarrow> bool \<Rightarrow> string \<Rightarrow> ('a tables_scheme) \<Rightarrow> string response \<times> 'a tables_scheme" where
  "RotateToken rnd fails i t =
     (let tok = newToken rnd
      in if fails then (writeErr StatusInternalServerError ''db error'', t)
         else case t_servers t i of
           None \<Rightarrow> (writeErr StatusNotFound ''not found'', t)
         | Some s \<Rightarrow> (writeJSON StatusOK tok,
                      t\<lparr>t_servers := (t_servers t)(i \<mapsto> s\<lparr>sv_AgentToken := Some tok\<rparr>)\<rparr>))"

section \<open>Groups\<close>

datatype json_group = JGroup (jg_id: string) (jg_name: string) (jg_desc: "string option") (jg_members: "string list")

text \<open>\<open>groupMembers\<close>: rows that cannot be scanned are skipped, a failed query is empty.\<close>

definition groupMembers :: "string rows \<Rightarrow> string list" where
  "groupMembers q = (case q of QueryErr \<Rightarrow> [] | Rows rs _ \<Rightarrow> List.map_filter (\<lambda>r. r) rs)"

definition ListGroups :: "(string \<Rightarrow> string rows) \<Rightarrow> group rows \<Rightarrow> json_group list response" where
  "ListGroups members q =
     (case q of
        QueryErr \<Rightarrow> writeErr StatusInternalServerError ''db error''
      | Rows rs _ \<Rightarrow>
          (case collect (\<lambda>g. JGroup (gr_ID g) (gr_Name g) (gr_Description g) (groupMembers (members (gr_ID g)))) rs of
             None \<Rightarrow> writeErr StatusInternalServerError ''scan error''
           | Some xs \<Rightarrow> writeJSON StatusOK xs))"

definition CreateGroup ::
  "string \<Rightarrow> gotime \<Rightarrow> bool \<Rightarrow> (string \<times> string option) option \<Rightarrow> ('a tables_scheme) \<Rightarrow>
   json_group response \<times> 'a tables_scheme" where
  "CreateGroup newid now fails req t =
     (case req of
        None \<Rightarrow> (writeErr StatusBadRequest ''name required'', t)
      | Some (name, desc) \<Rightarrow>
          if name = [] then (writeErr StatusBadRequest ''name required'', t)
          else if fails \<or> \<not> group_keys_free newid name t
          then (writeErr StatusBadRequest ''could not create group (duplicate?)'', t)
          else (writeJSON StatusCreated (JGroup newid name desc []),
                t\<lparr>t_groups := t_groups t @ [\<lparr>gr_ID = newid, gr_Name = name, gr_Description = desc, gr_CreatedAt = now\<rparr>]\<rparr>))"

definition UpdateGroup ::
  "string rows \<Rightarrow> bool \<Rightarrow> string \<Rightarrow> (string \<times> string option) option \<Rightarrow> ('a tables_scheme) \<Rightarrow>
   json_group response \<times> 'a tables_scheme" where
  "UpdateGroup members fails i req t =
     (case req of
        None \<Rightarrow> (writeErr StatusBadRequest ''invalid body'', t)
      | Some (name, desc) \<Rightarrow>
          if fails \<or> (find_group i t \<noteq> None \<and> group_name_taken name (Some i) t)
          then (writeErr StatusBadRequest ''could not update group'', t)
          else case find_group i t of
            None \<Rightarrow> (writeErr StatusNotFound ''not found'', t)
          | Some g \<Rightarrow> (writeJSON StatusOK (JGroup (gr_ID g) name desc (groupMembers members)),
                       t\<lparr>t_groups := map (\<lambda>g. if gr_ID g = i then g\<lparr>gr_Name := name, gr_Description := desc\<rparr> else g) (t_groups t)\<rparr>))"

definition DeleteGroup :: "bool \<Rightarrow> string \<Rightarrow> ('a tables_scheme) \<Rightarrow> unit response \<times> 'a tables_scheme" where
  "DeleteGroup fails i t =
     (if fails then (writeErr StatusBadRequest ''could not delete group'', t)
      else (NoBody StatusNoContent, cascade_group i (t\<lparr>t_groups := filter (\<lambda>g. gr_ID g \<noteq> i) (t_groups t)\<rparr>)))"

definition AddMember :: "bool \<Rightarrow> string \<Rightarrow> string option \<Rightarrow> ('a tables_scheme) \<Rightarrow> unit response \<times> 'a tables_scheme" where
  "AddMember fails groupID req t =
     (case req of
        None \<Rightarrow> (writeErr StatusBadRequest ''server_id required'', t)
      | Some sid \<Rightarrow>
          if sid = [] then (writeErr StatusBadRequest ''server_id required'', t)
          else if fails \<or> \<not> member_refs_exist groupID sid t
          then (writeErr StatusBadRequest ''could not add member'', t)
          else (writeJSON StatusOK (), t\<lparr>t_members := insert (groupID, sid) (t_members t)\<rparr>))"

definition RemoveMember :: "bool \<Rightarrow> string \<Rightarrow> string \<Rightarrow> ('a tables_scheme) \<Rightarrow> unit response \<times> 'a tables_scheme" where
  "RemoveMember fails groupID sid t =
     (if fails then (writeErr StatusBadRequest ''could not remove member'', t)
      else (NoBody StatusNoContent, t\<lparr>t_members := t_members t - {(groupID, sid)}\<rparr>))"


section \<open>Credentials at rest\<close>

text \<open>Two server rows that differ in their secrets only, and in those only by value.\<close>

definition same_public :: "server \<Rightarrow> server \<Rightarrow> bool" where
  "same_public s s' \<longleftrightarrow>
     s' = s\<lparr>sv_SSHKey := sv_SSHKey s', sv_SSHPassword := sv_SSHPassword s', sv_SSHHostKey := sv_SSHHostKey s'\<rparr> \<and>
     nonempty (sv_SSHKey s') = nonempty (sv_SSHKey s) \<and> nonempty (sv_SSHPassword s') = nonempty (sv_SSHPassword s)"

lemma marshal_same_public: "same_public s s' \<Longrightarrow> marshal_server (scanServer s) = marshal_server (scanServer s')"
  unfolding same_public_def marshal_server_def scanServer_def
  by (cases s, cases s') simp

lemma collect_cong:
  "list_all2 (rel_option (\<lambda>r r'. f r = f r')) rs rs' \<Longrightarrow> collect f rs = collect f rs'"
  by (induction rule: list_all2_induct) (auto simp: option.rel_sel elim!: option.rel_cases)

text \<open>C12: Stored credentials never leave through the inventory API: the answers of listing and
  fetching servers are the same for any two databases whose servers differ only in the
  values of the stored private key, password and pinned host key.\<close>

theorem credentials_never_served:
  assumes "rel_option same_public (t_servers t i) (t_servers t' i)"
    and "list_all2 (rel_option same_public) rs rs'"
  shows "GetServer fails i t = GetServer fails i t' \<and>
         ListServers (Rows rs e) = ListServers (Rows rs' e)"
proof
  show "GetServer fails i t = GetServer fails i t'"
    using assms(1) by (auto simp: GetServer_def marshal_same_public option.rel_sel split: option.splits)
  have "list_all2 (rel_option (\<lambda>r r'. marshal_server (scanServer r) = marshal_server (scanServer r'))) rs rs'"
    using assms(2) by (rule list_all2_mono) (auto elim: option.rel_mono_strong simp: marshal_same_public)
  from collect_cong [OF this] show "ListServers (Rows rs e) = ListServers (Rows rs' e)"
    by (simp add: ListServers_def)
qed

text \<open>A request and an environment for the witnesses.\<close>

definition sample_req :: serverReq where
  "sample_req = \<lparr>rq_Name = ''web'', rq_Host = ''10.0.0.1'', rq_Port = 0, rq_Protocol = [], rq_ConnectionMode = [],
     rq_OSInfo = None, rq_SSHUser = Some ''ops'', rq_SSHKey = None, rq_SSHPassword = Some ''hunter2'', rq_UseSSHCA = False\<rparr>"

definition sample_senv :: "string \<Rightarrow> server_env" where
  "sample_senv i = \<lparr>se_rnd = ''abc'', se_nonceKey = Some ''k1'', se_noncePass = Some ''p1'', se_id = i,
     se_now = 0, se_fails = False\<rparr>"

definition sample_server :: server where
  "sample_server = server_row toy_aead (sample_senv ''h1'') (default_req sample_req)"

definition no_tables :: tables where
  "no_tables = \<lparr>t_servers = Map.empty, t_groups = [], t_members = {}, t_requests = []\<rparr>"

theorem credentials_never_served_witness:
  "GetServer False ''h1'' (no_tables\<lparr>t_servers := [''h1'' \<mapsto> sample_server]\<rparr>) =
   GetServer False ''h1'' (no_tables\<lparr>t_servers := [''h1'' \<mapsto> sample_server\<lparr>sv_SSHPassword := Some ''leak''\<rparr>]\<rparr>)"
proof -
  let ?s = sample_server and ?s' = "sample_server\<lparr>sv_SSHPassword := Some ''leak''\<rparr>"
  have "same_public ?s ?s'"
    by (simp add: same_public_def nonempty_def sample_server_def server_row_def EncryptPtr_def sample_req_def
        default_req_def)
  then show ?thesis
    using credentials_never_served [of "no_tables\<lparr>t_servers := [''h1'' \<mapsto> ?s]\<rparr>" "''h1''"
        "no_tables\<lparr>t_servers := [''h1'' \<mapsto> ?s']\<rparr>" "[]" "[]" False]
    by simp
qed

text \<open>The credentials a server would be contacted with.\<close>

definition credentials :: "aead \<Rightarrow> server \<Rightarrow> string option \<times> string option" where
  "credentials c s = (DecryptPtr c (sv_SSHKey s), DecryptPtr c (sv_SSHPassword s))"

definition env_ok :: "aead \<Rightarrow> server_env \<Rightarrow> bool" where
  "env_ok c env \<longleftrightarrow> (\<exists>n m. se_nonceKey env = Some n \<and> length n = NonceSize c \<and>
     se_noncePass env = Some m \<and> length m = NonceSize c)"

definition sealed :: "string option \<Rightarrow> bool" where
  "sealed p \<longleftrightarrow> (nonempty p \<longrightarrow> HasPrefix (the p) secret_prefix)"

lemma env_okD: "env_ok c env \<Longrightarrow> nonce_ok c (se_nonceKey env) \<and> se_nonceKey env \<noteq> None \<and>
    nonce_ok c (se_noncePass env) \<and> se_noncePass env \<noteq> None"
  by (auto simp: env_ok_def nonce_ok_def)

lemma sealed_EncryptPtr: "n \<noteq> None \<Longrightarrow> sealed (EncryptPtr c n p)"
  by (auto simp: sealed_def nonempty_def EncryptPtr_def Encrypt_prefix split: option.splits)

lemma CreateServer_ok:
  "CreateServer parse_err c env (Some r) t = (JSON 201 j, t') \<Longrightarrow>
   t_servers t' = (t_servers t)(se_id env \<mapsto> server_row c env (default_req r))"
  by (auto simp: CreateServer_def Let_def writeErr_def split: if_splits option.splits)

lemma UpdateServer_ok:
  assumes "UpdateServer parse_err c env i (Some r) t = (JSON 200 j, t')" "t_servers t i = Some old"
  shows "\<exists>s. t_servers t' i = Some s \<and>
    sv_SSHKey s = coalesce_opt (EncryptPtr c (se_nonceKey env) (rq_SSHKey r)) (sv_SSHKey old) \<and>
    sv_SSHPassword s = coalesce_opt (EncryptPtr c (se_noncePass env) (rq_SSHPassword r)) (sv_SSHPassword old)"
  using assms by (auto simp: UpdateServer_def Let_def writeErr_def split: if_splits option.splits)

lemma default_req_credentials [simp]:
  "rq_SSHKey (default_req r) = rq_SSHKey r" "rq_SSHPassword (default_req r) = rq_SSHPassword r"
  by (simp_all add: default_req_def)

lemma server_row_credentials [simp]:
  "sv_SSHKey (server_row c env r) = EncryptPtr c (se_nonceKey env) (rq_SSHKey r)"
  "sv_SSHPassword (server_row c env r) = EncryptPtr c (se_noncePass env) (rq_SSHPassword r)"
  by (simp_all add: server_row_def)

lemma DecryptPtr_coalesce:
  assumes "aead_ok c" "nonce_ok c n" "n \<noteq> None"
  shows "DecryptPtr c (EncryptPtr c n p) = p"
    and "DecryptPtr c (coalesce_opt (EncryptPtr c n p) q) = coalesce_opt p (DecryptPtr c q)"
proof -
  show 1: "DecryptPtr c (EncryptPtr c n p) = p" for p
    using assms by (intro DecryptPtr_EncryptPtr) auto
  show "DecryptPtr c (coalesce_opt (EncryptPtr c n p) q) = coalesce_opt p (DecryptPtr c q)"
    using 1 [of p] by (cases p) (auto simp: coalesce_opt_def EncryptPtr_def)
qed

text \<open>C11: Credentials entered through the API are stored sealed and come back unchanged where
  they are used: after a successful create, and after a successful update that
  names them; an update that leaves a credential out keeps the stored one.\<close>

theorem credentials_stored_and_kept:
  assumes "aead_ok c" and "env_ok c env"
  shows "(CreateServer parse_err c env (Some r) t = (JSON 201 j, t') \<longrightarrow>
           (\<exists>s. t_servers t' (se_id env) = Some s \<and> credentials c s = (rq_SSHKey r, rq_SSHPassword r) \<and>
                sealed (sv_SSHKey s) \<and> sealed (sv_SSHPassword s))) \<and>
         (UpdateServer parse_err c env i (Some r) t = (JSON 200 j, t') \<and> t_servers t i = Some old \<longrightarrow>
           (\<exists>s. t_servers t' i = Some s \<and>
                credentials c s = (coalesce_opt (rq_SSHKey r) (fst (credentials c old)),
                                   coalesce_opt (rq_SSHPassword r) (snd (credentials c old)))))"
proof (intro conjI impI)
  note ok = env_okD [OF assms(2)]
  note dec = DecryptPtr_coalesce [OF assms(1)]
  show "\<exists>s. t_servers t' (se_id env) = Some s \<and> credentials c s = (rq_SSHKey r, rq_SSHPassword r) \<and>
      sealed (sv_SSHKey s) \<and> sealed (sv_SSHPassword s)"
    if "CreateServer parse_err c env (Some r) t = (JSON 201 j, t')"
    using CreateServer_ok [OF that] ok by (simp add: credentials_def dec sealed_EncryptPtr)
  show "\<exists>s. t_servers t' i = Some s \<and> credentials c s = (coalesce_opt (rq_SSHKey r) (fst (credentials c old)),
      coalesce_opt (rq_SSHPassword r) (snd (credentials c old)))"
    if "UpdateServer parse_err c env i (Some r) t = (JSON 200 j, t') \<and> t_servers t i = Some old"
    using UpdateServer_ok [of parse_err c env i r t j t' old] that ok by (auto simp: credentials_def dec)
qed

theorem credentials_stored_and_kept_witness:
  "\<exists>s. t_servers (snd (CreateServer (\<lambda>k. None) toy_aead (sample_senv ''h1'') (Some sample_req) no_tables)) ''h1'' = Some s \<and>
     credentials toy_aead s = (None, Some ''hunter2'')"
proof -
  have ok: "env_ok toy_aead (sample_senv ''h1'')"
    by (simp add: env_ok_def sample_senv_def toy_aead_def)
  obtain j where "CreateServer (\<lambda>k. None) toy_aead (sample_senv ''h1'') (Some sample_req) no_tables =
      (JSON 201 j, snd (CreateServer (\<lambda>k. None) toy_aead (sample_senv ''h1'') (Some sample_req) no_tables))"
    by (simp add: CreateServer_def sample_req_def sample_senv_def Let_def default_req_def validatePrivateKey_def
        writeJSON_def no_tables_def)
  from credentials_stored_and_kept [OF toy_aead_ok ok, THEN conjunct1, rule_format, OF this] show ?thesis
    by (auto simp: sample_req_def sample_senv_def)
qed

end
