(* ===== verification/AuditLog.thy ===== *)
theory AuditLog
  imports Prelude
begin

text \<open>
  The append-only audit log of \<^verbatim>\<open>internal/auditlog/auditlog.go\<close>: the table
  \<^verbatim>\<open>audit_logs\<close> as a list of rows, the single append path that links each row to
  the latest one by a hash, and the verifier that walks the chain.  SHA-256 is a
  parameter \<open>sha\<close> of the definitions; what a result needs of it (32 bytes out,
  no collision among the strings actually hashed) is a named hypothesis.  The
  mutex \<^verbatim>\<open>mu\<close> makes one \<open>Append\<close> a single atomic step.
\<close>

record audit_row =
  row_id :: int
  session_id :: "string option"
  server_id :: "string option"
  user_id :: "string option"
  event_type :: string
  data :: "string option"
  row_hash :: "string option"
  prev_hash :: "string option"
  row_ts :: gotime

type_synonym audit_table = "audit_row list"

text \<open>
  What the database answers during one \<open>Append\<close>: whether the \<^verbatim>\<open>SELECT\<close> or the
  \<^verbatim>\<open>INSERT\<close> fails, the serial number drawn for the row, and \<^verbatim>\<open>NOW()\<close>.
\<close>

record append_env =
  select_fails :: bool
  insert_fails :: bool
  serial :: int
  now_ts :: gotime

text \<open>Event types the gateway writes.\<close>

definition EventSessionStart :: string where "EventSessionStart = ''session_start''"
definition EventSessionEnd :: string where "EventSessionEnd = ''session_end''"
definition EventOutput :: string where "EventOutput = ''output''"
definition EventInput :: string where "EventInput = ''input''"

text \<open>\<open>ns\<close> turns the empty string into SQL NULL.\<close>

definition ns :: "string \<Rightarrow> string option" where
  "ns s = (if s = [] then None else Some s)"

definition chainHash :: "(string \<Rightarrow> string) \<Rightarrow> string \<Rightarrow> string \<Rightarrow> string \<Rightarrow> string" where
  "chainHash sha prev eventType d = EncodeHex (sha (prev @ ''|'' @ eventType @ ''|'' @ d))"

text \<open>\<^verbatim>\<open>ORDER BY id\<close> and \<^verbatim>\<open>COALESCE(x, '')\<close>.\<close>

definition by_id :: "audit_table \<Rightarrow> audit_table" where
  "by_id t = sort_key row_id t"

definition coalesce :: "string option \<Rightarrow> string" where
  "coalesce x = (case x of None \<Rightarrow> [] | Some s \<Rightarrow> s)"

text \<open>
  The hash of the row with the highest id: \<open>None\<close> when the table is empty, the
  column is NULL or the query fails (its error is discarded by the code).
\<close>

definition latest_hash :: "bool \<Rightarrow> audit_table \<Rightarrow> string option" where
  "latest_hash fails t =
     (if fails \<or> t = [] then None else row_hash (last (by_id t)))"

text \<open>The event handed to \<^verbatim>\<open>Sink\<close> after a successful append.\<close>

record sink_event =
  sink_type :: string
  sink_data :: string
  sink_session :: string
  sink_server :: string
  sink_user :: string

definition Append ::
  "(string \<Rightarrow> string) \<Rightarrow> append_env \<Rightarrow> string \<Rightarrow> string \<Rightarrow> string \<Rightarrow> string \<Rightarrow> string \<Rightarrow>
   audit_table \<Rightarrow> bool \<times> audit_table \<times> sink_event list" where
  "Append sha env sessionID serverID userID eventType d t =
     (let prev = latest_hash (select_fails env) t;
          h = chainHash sha (coalesce prev) eventType d
      in if insert_fails env then (False, t, [])
         else (True,
               t @ [\<lparr>row_id = serial env, session_id = ns sessionID, server_id = ns serverID,
                     user_id = ns userID, event_type = eventType, data = ns d,
                     row_hash = Some h, prev_hash = prev, row_ts = now_ts env\<rparr>],
               [\<lparr>sink_type = eventType, sink_data = d, sink_session = sessionID,
                 sink_server = serverID, sink_user = userID\<rparr>]))"

record VerifyResult =
  OK :: bool
  Checked :: nat
  BreakAtID :: int
  BreakError :: string

fun verify_loop :: "(string \<Rightarrow> string) \<Rightarrow> string \<Rightarrow> nat \<Rightarrow> audit_row option list \<Rightarrow> VerifyResult option" where
  "verify_loop sha prevHash checked [] =
     Some \<lparr>OK = True, Checked = checked, BreakAtID = 0, BreakError = []\<rparr>"
| "verify_loop sha prevHash checked (None # rs) = None"
| "verify_loop sha prevHash checked (Some r # rs) =
     (let h = coalesce (row_hash r); prev = coalesce (prev_hash r)
      in if h = [] then verify_loop sha prevHash (checked + 1) rs
         else if prev \<noteq> prevHash then
           Some \<lparr>OK = False, Checked = checked, BreakAtID = row_id r,
                 BreakError = ''prev_hash does not link to prior row''\<rparr>
         else if chainHash sha prev (event_type r) (coalesce (data r)) \<noteq> h then
           Some \<lparr>OK = False, Checked = checked, BreakAtID = row_id r,
                 BreakError = ''row hash mismatch (content altered)''\<rparr>
         else verify_loop sha h (checked + 1) rs)"

text \<open>
  \<open>Verify\<close> on the rows the query yields.  The result is \<open>None\<close> where the code
  returns a non-nil error: the query failed, a row could not be scanned, or
  \<^verbatim>\<open>rows.Err\<close> is set after an iteration that found no break.
\<close>

definition Verify :: "(string \<Rightarrow> string) \<Rightarrow> audit_row rows \<Rightarrow> VerifyResult option" where
  "Verify sha q =
     (case q of
        QueryErr \<Rightarrow> None
      | Rows rs rerr \<Rightarrow>
          (case verify_loop sha [] 0 rs of
             None \<Rightarrow> None
           | Some v \<Rightarrow> if OK v \<and> rerr then None else Some v))"

text \<open>The query answered in full over a table.\<close>

definition verify_table :: "(string \<Rightarrow> string) \<Rightarrow> audit_table \<Rightarrow> VerifyResult option" where
  "verify_table sha t = Verify sha (Rows (map Some (by_id t)) False)"

section \<open>The abstract chain\<close>

text \<open>
  The specification of an intact chain: every row carries a hash, the first links
  to nothing and every other row to its predecessor, and the hash is that of the
  row's own content.
\<close>

fun chained :: "(string \<Rightarrow> string) \<Rightarrow> string \<Rightarrow> audit_table \<Rightarrow> bool" where
  "chained sha p [] = True"
| "chained sha p (r # rs) =
     (coalesce (prev_hash r) = p \<and> coalesce (row_hash r) \<noteq> []
      \<and> coalesce (row_hash r) = chainHash sha p (event_type r) (coalesce (data r))
      \<and> chained sha (coalesce (row_hash r)) rs)"

text \<open>The hash a chain ends with, starting from \<open>p\<close>.\<close>

fun head_hash :: "string \<Rightarrow> audit_table \<Rightarrow> string" where
  "head_hash p [] = p"
| "head_hash p (r # rs) = head_hash (coalesce (row_hash r)) rs"

lemma coalesce_simps [simp, audit_simps]: "coalesce None = []" "coalesce (Some s) = s"
  by (simp_all add: coalesce_def)

lemma coalesce_ns [simp, audit_simps]: "coalesce (ns s) = s"
  by (simp add: ns_def)

lemma chained_append [simp, audit_simps]:
  "chained sha p (xs @ ys) \<longleftrightarrow> chained sha p xs \<and> chained sha (head_hash p xs) ys"
  by (induction xs arbitrary: p) auto

lemma head_hash_append [simp, audit_simps]: "head_hash p (xs @ ys) = head_hash (head_hash p xs) ys"
  by (induction xs arbitrary: p) auto

lemma head_hash_last: "xs \<noteq> [] \<Longrightarrow> head_hash p xs = coalesce (row_hash (last xs))"
  by (induction xs arbitrary: p) auto

text \<open>The verifier walks over an intact prefix and goes on from its head.\<close>

lemma verify_loop_skip:
  "chained sha p xs \<Longrightarrow>
   verify_loop sha p k (map Some xs @ q) = verify_loop sha (head_hash p xs) (k + length xs) q"
  by (induction xs arbitrary: p k) (auto simp: Let_def)

lemma verify_loop_chained:
  "chained sha p rs \<Longrightarrow>
   verify_loop sha p k (map Some rs) =
     Some \<lparr>OK = True, Checked = k + length rs, BreakAtID = 0, BreakError = []\<rparr>"
  using verify_loop_skip [of sha p rs k "[]"] by simp

text \<open>The verifier accepts exactly the chains whose hashed rows are intact.\<close>

definition hashed :: "audit_row \<Rightarrow> bool" where
  "hashed r \<longleftrightarrow> coalesce (row_hash r) \<noteq> []"

lemma verify_loop_OK_iff:
  "(\<exists>v. verify_loop sha p k (map Some rs) = Some v \<and> OK v) \<longleftrightarrow> chained sha p (filter hashed rs)"
proof (induction rs arbitrary: p k)
  case (Cons r rs)
  show ?case
    by (cases "hashed r") (use Cons in \<open>auto simp: Let_def hashed_def\<close>)
qed simp

lemma by_id_sorted [simp]: "sorted (map row_id t) \<Longrightarrow> by_id t = t"
  by (simp add: by_id_def sort_key_id_if_sorted)

lemma sorted_snoc_ids:
  "sorted (map row_id t) \<Longrightarrow> (\<And>r. r \<in> set t \<Longrightarrow> row_id r < i) \<Longrightarrow> row_id x = i \<Longrightarrow>
   sorted (map row_id (t @ [x]))"
  by (auto simp: sorted_append less_imp_le)

lemma verify_table_OK_iff:
  "sorted (map row_id t) \<Longrightarrow>
   (\<exists>v. verify_table sha t = Some v \<and> OK v) \<longleftrightarrow> chained sha [] (filter hashed t)"
  using verify_loop_OK_iff [of sha "[]" 0 t]
  by (auto simp: verify_table_def Verify_def split: option.splits)


section \<open>Histories of appends\<close>

record append_op =
  op_env :: append_env
  op_session :: string
  op_server :: string
  op_user :: string
  op_type :: string
  op_data :: string

definition append_step :: "(string \<Rightarrow> string) \<Rightarrow> append_op \<Rightarrow> audit_table \<Rightarrow> audit_table" where
  "append_step sha x t =
     fst (snd (Append sha (op_env x) (op_session x) (op_server x) (op_user x) (op_type x) (op_data x) t))"

text \<open>
  The database serves the append: the read of the latest hash succeeds and the
  serial number is above every id in the table.  The insert itself may fail.
\<close>

definition append_ok :: "append_op \<Rightarrow> audit_table \<Rightarrow> bool" where
  "append_ok x t \<longleftrightarrow> \<not> select_fails (op_env x) \<and> list_all (\<lambda>r. row_id r < serial (op_env x)) t"

definition log_inv :: "(string \<Rightarrow> string) \<Rightarrow> audit_table \<Rightarrow> bool" where
  "log_inv sha t \<longleftrightarrow> sorted (map row_id t) \<and> chained sha [] t"

lemma chained_hashed: "chained sha p t \<Longrightarrow> filter hashed t = t"
  by (induction t arbitrary: p) (auto simp: hashed_def)

lemma latest_hash_head: "sorted (map row_id t) \<Longrightarrow> coalesce (latest_hash False t) = head_hash [] t"
  by (cases "t = []") (simp_all add: latest_hash_def head_hash_last)

lemma append_step_log_inv:
  assumes sha: "\<And>x. length (sha x) = 32"
    and inv: "log_inv sha t" and ok: "append_ok x t"
  shows "log_inv sha (append_step sha x t)"
proof (cases "insert_fails (op_env x)")
  case True
  with inv show ?thesis by (simp add: append_step_def Append_def Let_def)
next
  case False
  have "chainHash sha p e d \<noteq> []" for p e d
    using sha [of "p @ ''|'' @ e @ ''|'' @ d"] by (auto simp: chainHash_def)
  moreover have "coalesce (latest_hash False t) = head_hash [] t"
    using inv by (simp add: log_inv_def latest_hash_head)
  ultimately show ?thesis
    using inv ok False
    by (auto simp: append_step_def Append_def Let_def log_inv_def append_ok_def sorted_append
        list_all_iff less_imp_le)
qed

text \<open>The append path as an append-only log, for any digest of 32 bytes.\<close>

definition digest_32 :: "(string \<Rightarrow> string) \<Rightarrow> bool" where
  "digest_32 sha \<longleftrightarrow> (\<forall>x. length (sha x) = 32)"

interpretation audit: append_only "append_step sha" append_ok "\<lambda>t. digest_32 sha \<longrightarrow> log_inv sha t" id
proof unfold_locales
  show "(digest_32 sha \<longrightarrow> log_inv sha s) \<Longrightarrow> append_ok x s \<Longrightarrow>
        (digest_32 sha \<longrightarrow> log_inv sha (append_step sha x s))" for x s
    by (auto simp: digest_32_def intro: append_step_log_inv)
  show "prefix (id s) (id (append_step sha x s))" for x s
    by (simp add: append_step_def Append_def Let_def)
qed

lemma log_inv_verifies:
  "log_inv sha t \<Longrightarrow>
   verify_table sha t = Some \<lparr>OK = True, Checked = length t, BreakAtID = 0, BreakError = []\<rparr>"
  by (simp add: log_inv_def verify_table_def Verify_def verify_loop_chained)


section \<open>What the chain commits to\<close>

text \<open>The strings hashed along a table, and the content an auditor reads in it.\<close>

definition hash_input :: "audit_row \<Rightarrow> string" where
  "hash_input r = coalesce (prev_hash r) @ ''|'' @ event_type r @ ''|'' @ coalesce (data r)"

definition content :: "audit_row \<Rightarrow> string \<times> string" where
  "content r = (event_type r, coalesce (data r))"

lemma chained_snocD:
  "chained sha p (xs @ [r]) \<Longrightarrow>
   chained sha p xs \<and> coalesce (prev_hash r) = head_hash p xs \<and>
   coalesce (row_hash r) = EncodeHex (sha (hash_input r)) \<and> coalesce (row_hash r) \<noteq> []"
  by (auto simp: chainHash_def hash_input_def)

lemma head_hash_no_bar: "chained sha [] xs \<Longrightarrow> CHR ''|'' \<notin> set (head_hash [] xs)"
  by (cases xs rule: rev_cases) (auto simp: chainHash_def dest: EncodeHex_chars)

lemma head_hash_Nil_iff: "chained sha [] xs \<Longrightarrow> head_hash [] xs = [] \<longleftrightarrow> xs = []"
  by (cases xs rule: rev_cases) auto

lemma hash_input_inj:
  assumes "hash_input r = hash_input r'"
    and "CHR ''|'' \<notin> set (coalesce (prev_hash r))" "CHR ''|'' \<notin> set (coalesce (prev_hash r'))"
    and "CHR ''|'' \<notin> set (event_type r)" "CHR ''|'' \<notin> set (event_type r')"
  shows "coalesce (prev_hash r) = coalesce (prev_hash r') \<and> content r = content r'"
proof -
  have "coalesce (prev_hash r) = coalesce (prev_hash r') \<and>
        event_type r @ CHR ''|'' # coalesce (data r) = event_type r' @ CHR ''|'' # coalesce (data r')"
    using assms by (intro split_at_unique) (simp_all add: hash_input_def)
  with assms(4,5) show ?thesis
    using split_at_unique [of "CHR ''|''" "event_type r" "event_type r'" "coalesce (data r)" "coalesce (data r')"]
    by (simp add: content_def)
qed

lemma chained_commits:
  assumes "chained sha [] xs" "chained sha [] ys"
    and "head_hash [] xs = head_hash [] ys"
    and "inj_on sha (hash_input ` (set xs \<union> set ys))"
    and "\<And>r. r \<in> set xs \<union> set ys \<Longrightarrow> CHR ''|'' \<notin> set (event_type r)"
  shows "map content xs = map content ys"
  using assms
proof (induction xs arbitrary: ys rule: rev_induct)
  case Nil
  then show ?case using head_hash_Nil_iff [of sha ys] by simp
next
  case (snoc r xs)
  then obtain r' ys' where ys: "ys = ys' @ [r']"
    using head_hash_Nil_iff [of sha ys] by (cases ys rule: rev_cases) auto
  note cr = chained_snocD [OF snoc.prems(1)] and cr' = chained_snocD [OF snoc.prems(2) [unfolded ys]]
  have "EncodeHex (sha (hash_input r)) = EncodeHex (sha (hash_input r'))"
    using cr cr' snoc.prems(3) ys by simp
  then have "sha (hash_input r) = sha (hash_input r')"
    by (rule EncodeHex_inj)
  then have "hash_input r = hash_input r'"
    using inj_onD [OF snoc.prems(4), of "hash_input r" "hash_input r'"] by (simp add: ys)
  moreover have "CHR ''|'' \<notin> set (coalesce (prev_hash r))" "CHR ''|'' \<notin> set (coalesce (prev_hash r'))"
    using cr cr' head_hash_no_bar [of sha xs] head_hash_no_bar [of sha ys'] by simp_all
  ultimately have eq: "coalesce (prev_hash r) = coalesce (prev_hash r')" "content r = content r'"
    using hash_input_inj [of r r'] snoc.prems(5) [of r] snoc.prems(5) [of r'] by (simp_all add: ys)
  have "map content xs = map content ys'"
  proof (rule snoc.IH)
    show "inj_on sha (hash_input ` (set xs \<union> set ys'))"
      using snoc.prems(4) by (rule inj_on_subset) (auto simp: ys)
    show "CHR ''|'' \<notin> set (event_type q)" if "q \<in> set xs \<union> set ys'" for q
      using that snoc.prems(5) [of q] by (auto simp: ys)
  qed (use cr cr' eq in simp_all)
  with eq show ?case by (simp add: ys)
qed

section \<open>Properties\<close>

text \<open>Every history of appends from an empty log verifies: as long as the read of the
  latest hash succeeds and serial numbers grow, the verifier reports the chain
  intact and counts every row, whichever inserts failed in between.\<close>

theorem append_history_verifies:
  assumes "digest_32 sha" and "run_ok append_ok (append_step sha) ops []"
  shows "verify_table sha (fold (append_step sha) ops []) =
    Some \<lparr>OK = True, Checked = length (fold (append_step sha) ops []), BreakAtID = 0, BreakError = []\<rparr>"
proof -
  have "digest_32 sha \<longrightarrow> log_inv sha (fold (append_step sha) ops [])"
    by (rule audit.inv_run) (simp_all add: log_inv_def assms(2))
  with assms(1) show ?thesis by (simp add: log_inv_verifies)
qed

definition sample_env :: "int \<Rightarrow> append_env" where
  "sample_env n = \<lparr>select_fails = False, insert_fails = (n = 2), serial = n, now_ts = 0\<rparr>"

definition sample_ops :: "append_op list" where
  "sample_ops = map (\<lambda>n. \<lparr>op_env = sample_env n, op_session = [], op_server = [], op_user = [],
                          op_type = ''login_failed'', op_data = ''root''\<rparr>) [1, 2, 3]"

definition sample_sha :: "string \<Rightarrow> string" where
  "sample_sha x = take 32 (rev x @ replicate 32 CHR ''0'')"

theorem append_history_verifies_witness:
  "verify_table sample_sha (fold (append_step sample_sha) sample_ops []) =
     Some \<lparr>OK = True, Checked = 2, BreakAtID = 0, BreakError = []\<rparr>"
proof -
  have "length (fold (append_step sample_sha) sample_ops []) = 2"
    by (simp add: sample_ops_def sample_env_def append_step_def Append_def Let_def)
  moreover have "run_ok append_ok (append_step sample_sha) sample_ops []"
    by (simp add: sample_ops_def sample_env_def append_ok_def append_step_def Append_def Let_def)
  moreover have "digest_32 sample_sha"
    by (auto simp: digest_32_def sample_sha_def min_def)
  ultimately show ?thesis
    using append_history_verifies [of sample_sha sample_ops] by simp
qed

text \<open>C3: The head of a verified chain commits to its hashed rows: if the verifier finds two logs intact, each in the order of
  its ids, no event type of a hashed row contains the separator \<^verbatim>\<open>|\<close>, and the last hash is the same, then their hashed rows are the same sequence of
  (event type, data), up to a SHA-256 collision on the strings hashed along them.  Rows without a hash are not
  committed to (\<open>blanked_last_row_undetected\<close>), and an event type with a separator makes the hashed
  string ambiguous (\<open>separator_ambiguous\<close>); no event type the gateway writes has one.\<close>

theorem head_commits_to_history:
  assumes "sorted (map row_id t)" "sorted (map row_id t')"
    and "verify_table sha t = Some v" "OK v" "verify_table sha t' = Some v'" "OK v'"
    and "head_hash [] (filter hashed t) = head_hash [] (filter hashed t')"
    and "inj_on sha (hash_input ` set (filter hashed t @ filter hashed t'))"
    and "\<And>r. r \<in> set (filter hashed t @ filter hashed t') \<Longrightarrow> CHR ''|'' \<notin> set (event_type r)"
  shows "map content (filter hashed t) = map content (filter hashed t')"
proof -
  have "chained sha [] (filter hashed t)" "chained sha [] (filter hashed t')"
    using verify_table_OK_iff [OF assms(1), of sha] verify_table_OK_iff [OF assms(2), of sha] assms(3-6)
    by auto
  then show ?thesis
    using assms(7-9) unfolding set_append by (rule chained_commits)
qed

definition sample_row :: "(string \<Rightarrow> string) \<Rightarrow> audit_row" where
  "sample_row sha = \<lparr>row_id = 1, session_id = None, server_id = None, user_id = None,
     event_type = ''input'', data = Some ''ls'', row_hash = Some (chainHash sha [] ''input'' ''ls''),
     prev_hash = None, row_ts = 0\<rparr>"

theorem head_commits_to_history_witness:
  "map content (filter hashed [sample_row id]) = map content (filter hashed [(sample_row id)\<lparr>user_id := Some ''u''\<rparr>])"
proof (rule head_commits_to_history [where sha = id
    and v = "\<lparr>OK = True, Checked = 1, BreakAtID = 0, BreakError = []\<rparr>"
    and v' = "\<lparr>OK = True, Checked = 1, BreakAtID = 0, BreakError = []\<rparr>"])
qed (simp_all add: sample_row_def hashed_def chainHash_def verify_table_def Verify_def hash_input_def,
     auto)

text \<open>Editing a row in place is detected and located: if the event type or data of one
  row of a verified log is changed and SHA-256 does not collide on the two inputs,
  the verifier stops at that very row with \<^verbatim>\<open>row hash mismatch\<close>, whatever follows.\<close>

theorem edited_row_located:
  assumes "chained sha [] (xs @ r # ys)" and "sorted (map row_id (xs @ r # ys))"
    and "row_id r' = row_id r" "row_hash r' = row_hash r" "prev_hash r' = prev_hash r"
    and "sha (hash_input r') \<noteq> sha (hash_input r)"
  shows "verify_table sha (xs @ r' # ys) =
    Some \<lparr>OK = False, Checked = length xs, BreakAtID = row_id r,
          BreakError = ''row hash mismatch (content altered)''\<rparr>"
proof -
  have "sorted (map row_id (xs @ r' # ys))"
    using assms(2,3) by simp
  moreover have "chainHash sha (coalesce (prev_hash r)) (event_type r') (coalesce (data r')) \<noteq> coalesce (row_hash r)"
    using assms(1,5,6) EncodeHex_inj by (auto simp: chainHash_def hash_input_def)
  ultimately show ?thesis
    using assms(1,3-5) by (auto simp: verify_table_def Verify_def verify_loop_skip Let_def)
qed

theorem edited_row_located_witness:
  "verify_table id [(sample_row id)\<lparr>data := Some ''rm''\<rparr>] =
     Some \<lparr>OK = False, Checked = 0, BreakAtID = 1,
           BreakError = ''row hash mismatch (content altered)''\<rparr>"
  using edited_row_located [of id "[]" "sample_row id" "[]" "(sample_row id)\<lparr>data := Some ''rm''\<rparr>"]
  by (simp add: sample_row_def chainHash_def hash_input_def EncodeHex_def hexbyte_def)

text \<open>Deleting rows at the end of the log is not detected: every prefix of a log that
  verifies verifies too.  The package comment promises that any deletion breaks the
  chain; nothing outside the table records how long the chain should be.\<close>

theorem truncation_undetected:
  assumes "sorted (map row_id t)" and "verify_table sha t = Some v" and "OK v"
  shows "\<exists>w. verify_table sha (take n t) = Some w \<and> OK w"
proof -
  have "chained sha [] (filter hashed (take n t) @ filter hashed (drop n t))"
    using assms verify_table_OK_iff [OF assms(1), of sha] by (simp flip: filter_append)
  moreover have "sorted (map row_id (take n t))"
    using assms(1) by (metis sorted_wrt_take take_map)
  ultimately show ?thesis
    using verify_table_OK_iff by simp
qed

theorem truncation_undetected_witness:
  "\<exists>w. verify_table id (take 0 [sample_row id]) = Some w \<and> OK w"
  by (rule truncation_undetected [where v = "\<lparr>OK = True, Checked = 1, BreakAtID = 0, BreakError = []\<rparr>"])
     (simp_all add: sample_row_def chainHash_def verify_table_def Verify_def Let_def)

text \<open>
  Two more ways around the verifier, as lemmas: a row whose hash is blanked is
  skipped, so the last row can be rewritten at will; and the separator is not
  escaped, so text can move between event type and data under the same hash.
\<close>

lemma blanked_last_row_undetected:
  "chained sha [] xs \<Longrightarrow> sorted (map row_id (xs @ [r])) \<Longrightarrow>
   \<exists>w. verify_table sha (xs @ [r\<lparr>row_hash := None\<rparr>]) = Some w \<and> OK w"
  using chained_hashed [of sha "[]" xs] by (subst verify_table_OK_iff) (simp_all add: hashed_def)

lemma separator_ambiguous:
  "chainHash sha p (e @ ''|'' @ x) d = chainHash sha p e (x @ ''|'' @ d)"
  by (simp add: chainHash_def)

text \<open>
  An append whose read of the latest hash failed starts a second chain: the row it
  writes does not link to the row before it and the verifier stops there.
\<close>

lemma failed_select_breaks_chain:
  assumes inv: "log_inv sha t" and t: "t \<noteq> []" and len: "digest_32 sha"
    and env: "select_fails env" "\<not> insert_fails env" "list_all (\<lambda>r. row_id r < serial env) t"
  shows "\<exists>v. verify_table sha (fst (snd (Append sha env s h u e d t))) = Some v \<and>
             \<not> OK v \<and> BreakAtID v = serial env"
proof -
  have "head_hash [] t \<noteq> []"
    using inv t head_hash_Nil_iff by (auto simp: log_inv_def)
  moreover have "sha x \<noteq> []" for x
    using len by (auto simp: digest_32_def dest: spec [of _ x])
  ultimately show ?thesis
    using inv env
    by (auto simp: Append_def latest_hash_def verify_table_def Verify_def log_inv_def verify_loop_skip Let_def
        chainHash_def sorted_append list_all_iff less_imp_le)
qed

end
