(* ===== verification/Chan.thy ===== *)
theory Chan
  imports Prelude
begin

text \<open>
  Buffered Go channels and the one way the code sends on them: a \<^verbatim>\<open>select\<close> with a
  \<^verbatim>\<open>default\<close> branch, which drops the value when the buffer is full.  Closing a
  closed channel and sending on a closed channel panic in Go; those are the
  \<open>None\<close> results here.  Channels are shared between goroutines, so they live in
  a heap addressed by \<^typ>\<open>nat\<close>.
\<close>

record 'a chan =
  ccap :: nat
  cbuf :: "'a list"
  cclosed :: bool

definition make_chan :: "nat \<Rightarrow> 'a chan" where
  "make_chan n = \<lparr>ccap = n, cbuf = [], cclosed = False\<rparr>"

definition send_nb :: "'a \<Rightarrow> 'a chan \<Rightarrow> 'a chan option" where
  "send_nb m c =
     (if cclosed c then None
      else if length (cbuf c) < ccap c then Some (c\<lparr>cbuf := cbuf c @ [m]\<rparr>)
      else Some c)"

definition close_chan :: "'a chan \<Rightarrow> 'a chan option" where
  "close_chan c = (if cclosed c then None else Some (c\<lparr>cclosed := True\<rparr>))"

datatype 'a recv = Got 'a | Closed | Blocks

definition recv_chan :: "'a chan \<Rightarrow> 'a recv \<times> 'a chan" where
  "recv_chan c =
     (case cbuf c of
        x # xs \<Rightarrow> (Got x, c\<lparr>cbuf := xs\<rparr>)
      | [] \<Rightarrow> (if cclosed c then Closed else Blocks, c))"

section \<open>The contract of a non-blocking mailbox\<close>

text \<open>
  What the publishers of the gateway rely on: a value is accepted while there is
  room and dropped otherwise, never blocking and never reordering.
\<close>

locale mailbox =
  fixes put :: "'m \<Rightarrow> 'c \<Rightarrow> 'c"
    and held :: "'c \<Rightarrow> 'm list"
    and cap :: "'c \<Rightarrow> nat"
  assumes put_room: "length (held c) < cap c \<Longrightarrow> held (put m c) = held c @ [m]"
    and put_full: "cap c \<le> length (held c) \<Longrightarrow> held (put m c) = held c"
    and put_cap: "cap (put m c) = cap c"
begin

lemma held_put: "held (put m c) = (if length (held c) < cap c then held c @ [m] else held c)"
  using put_room put_full by simp

lemma puts_cap: "cap (fold put ms c) = cap c"
  by (induction ms arbitrary: c) (simp_all add: put_cap)

text \<open>Exactly the first values that fit are kept, in the order they were sent.\<close>

lemma held_puts: "length (held c) \<le> cap c \<Longrightarrow> held (fold put ms c) = held c @ take (cap c - length (held c)) ms"
proof (induction ms arbitrary: c)
  case (Cons m ms)
  show ?case
  proof (cases "length (held c) < cap c")
    case True
    then have "Suc (length (held c)) \<le> cap c" by simp
    with Cons.IH [of "put m c"] True show ?thesis
      by (simp add: put_cap put_room Suc_diff_Suc take_Cons')
  next
    case False
    with Cons show ?thesis by (simp add: put_cap put_full)
  qed
qed simp

lemma puts_within: "length (held c) \<le> cap c \<Longrightarrow> length (held (fold put ms c)) \<le> cap c"
  by (simp add: held_puts)

lemma puts_all: "length (held c) + length ms \<le> cap c \<Longrightarrow> held (fold put ms c) = held c @ ms"
  by (simp add: held_puts)

end

text \<open>The non-blocking send on a channel that is open, as a total operation.\<close>

definition offer :: "'a \<Rightarrow> 'a chan \<Rightarrow> 'a chan" where
  "offer m c = (if length (cbuf c) < ccap c then c\<lparr>cbuf := cbuf c @ [m]\<rparr> else c)"

interpretation chan: mailbox offer cbuf ccap
  by unfold_locales (simp_all add: offer_def)

lemma send_nb_open [chan_simps]: "\<not> cclosed c \<Longrightarrow> send_nb m c = Some (offer m c)"
  by (simp add: send_nb_def offer_def)

lemma send_nb_closed [chan_simps]: "cclosed c \<Longrightarrow> send_nb m c = None"
  by (simp add: send_nb_def)

lemma offer_closed [simp, chan_simps]: "cclosed (offer m c) = cclosed c"
  by (simp add: offer_def)

section \<open>A heap of channels\<close>

type_synonym 'a chans = "nat \<rightharpoonup> 'a chan"

definition chan_open :: "'a chans \<Rightarrow> nat \<Rightarrow> bool" where
  "chan_open H c = (case H c of None \<Rightarrow> False | Some ch \<Rightarrow> \<not> cclosed ch)"

definition chan_shut :: "'a chans \<Rightarrow> nat \<Rightarrow> bool" where
  "chan_shut H c = (case H c of None \<Rightarrow> False | Some ch \<Rightarrow> cclosed ch)"

definition close_at :: "nat \<Rightarrow> 'a chans \<Rightarrow> 'a chans option" where
  "close_at c H =
     (case H c of None \<Rightarrow> None
      | Some ch \<Rightarrow> (case close_chan ch of None \<Rightarrow> None | Some ch' \<Rightarrow> Some (H(c \<mapsto> ch'))))"

definition send_at :: "'a \<Rightarrow> nat \<Rightarrow> 'a chans \<Rightarrow> 'a chans option" where
  "send_at m c H =
     (case H c of None \<Rightarrow> None
      | Some ch \<Rightarrow> (case send_nb m ch of None \<Rightarrow> None | Some ch' \<Rightarrow> Some (H(c \<mapsto> ch'))))"

text \<open>The loops over a set of subscribers.\<close>

fun send_all :: "'a \<Rightarrow> nat list \<Rightarrow> 'a chans \<Rightarrow> 'a chans option" where
  "send_all m [] H = Some H"
| "send_all m (c # cs) H = Option.bind (send_at m c H) (send_all m cs)"

fun close_all :: "nat list \<Rightarrow> 'a chans \<Rightarrow> 'a chans option" where
  "close_all [] H = Some H"
| "close_all (c # cs) H = Option.bind (close_at c H) (close_all cs)"

lemma send_at_open:
  "H c = Some ch \<Longrightarrow> \<not> cclosed ch \<Longrightarrow> send_at m c H = Some (H(c \<mapsto> offer m ch))"
  by (simp add: send_at_def send_nb_open)

lemma close_at_open:
  "H c = Some ch \<Longrightarrow> \<not> cclosed ch \<Longrightarrow> close_at c H = Some (H(c \<mapsto> ch\<lparr>cclosed := True\<rparr>))"
  by (simp add: close_at_def close_chan_def)

lemma chan_openE:
  assumes "chan_open H c"
  obtains ch where "H c = Some ch" "\<not> cclosed ch"
  using assms by (auto simp: chan_open_def split: option.splits)

lemma send_all_open:
  assumes "distinct cs" "\<And>c. c \<in> set cs \<Longrightarrow> chan_open H c"
  shows "send_all m cs H = Some (\<lambda>c. if c \<in> set cs then map_option (offer m) (H c) else H c)"
  using assms
proof (induction cs arbitrary: H)
  case (Cons c cs)
  obtain ch where ch: "H c = Some ch" "\<not> cclosed ch"
    using Cons.prems(2) [of c] by (auto elim: chan_openE)
  have "send_all m cs (H(c \<mapsto> offer m ch)) =
      Some (\<lambda>a. if a \<in> set cs then map_option (offer m) ((H(c \<mapsto> offer m ch)) a) else (H(c \<mapsto> offer m ch)) a)"
    by (rule Cons.IH) (use Cons.prems in \<open>auto simp: chan_open_def\<close>)
  with ch Cons.prems(1) show ?case
    by (auto simp: send_at_open fun_eq_iff)
qed simp

lemma close_all_open:
  assumes "distinct cs" "\<And>c. c \<in> set cs \<Longrightarrow> chan_open H c"
  shows "close_all cs H = Some (\<lambda>c. if c \<in> set cs then map_option (cclosed_update (\<lambda>_. True)) (H c) else H c)"
  using assms
proof (induction cs arbitrary: H)
  case (Cons c cs)
  obtain ch where ch: "H c = Some ch" "\<not> cclosed ch"
    using Cons.prems(2) [of c] by (auto elim: chan_openE)
  let ?H = "H(c \<mapsto> ch\<lparr>cclosed := True\<rparr>)"
  have "close_all cs ?H = Some (\<lambda>a. if a \<in> set cs then map_option (cclosed_update (\<lambda>_. True)) (?H a) else ?H a)"
    by (rule Cons.IH) (use Cons.prems in \<open>auto simp: chan_open_def\<close>)
  with ch Cons.prems(1) show ?case
    by (auto simp: close_at_open fun_eq_iff)
qed simp

lemma chan_open_send [simp]:
  "chan_open (\<lambda>c. if c \<in> set cs then map_option (offer m) (H c) else H c) a = chan_open H a"
  by (auto simp: chan_open_def split: option.splits)

lemma chan_open_close [simp]:
  "chan_open (\<lambda>c. if c \<in> set cs then map_option (cclosed_update (\<lambda>_. True)) (H c) else H c) a
   \<longleftrightarrow> a \<notin> set cs \<and> chan_open H a"
  by (auto simp: chan_open_def split: option.splits)

end
