(* ===== verification/Notify.thy ===== *)
theory Notify
  imports AuditLog Chan
begin

text \<open>
  Webhook notifications (\<^verbatim>\<open>internal/notify/notify.go\<close>) and the audit sink the
  gateway installs (\<^verbatim>\<open>cmd/gateway/main.go\<close>).  A notifier owns a channel of 512
  events; the worker goroutine posts each event to every configured URL.
\<close>

datatype jval = JInt int | JStr string

record event =
  ev_Type :: string
  ev_Severity :: string
  ev_Timestamp :: string
  ev_User :: string
  ev_Server :: string
  ev_Session :: string
  ev_Message :: string
  ev_Data :: "(string \<times> jval) list"

record notifier =
  webhooks :: "string list"
  nchan :: "event chan"
  worker_running :: bool

definition New_notifier :: "string list \<Rightarrow> notifier" where
  "New_notifier urls =
     (let hooks = filter (\<lambda>u. u \<noteq> []) urls
      in \<lparr>webhooks = hooks, nchan = make_chan 512, worker_running = (hooks \<noteq> [])\<rparr>)"

definition Enabled :: "notifier \<Rightarrow> bool" where
  "Enabled n \<longleftrightarrow> webhooks n \<noteq> []"

text \<open>The channel is never closed, so the non-blocking send cannot panic.\<close>

definition Send :: "event \<Rightarrow> notifier \<Rightarrow> notifier" where
  "Send e n =
     (if \<not> Enabled n then n
      else case send_nb e (nchan n) of None \<Rightarrow> n | Some c \<Rightarrow> n\<lparr>nchan := c\<rparr>)"

text \<open>\<open>emit\<close> and \<open>notify\<close> are nil-safe wrappers of \<open>Send\<close>.\<close>

definition emit :: "event \<Rightarrow> notifier option \<Rightarrow> notifier option" where
  "emit e n = map_option (Send e) n"

text \<open>
  One iteration of the worker: take an event from the channel and post it to every
  webhook; a URL that cannot be turned into a request is skipped (\<open>ok\<close> says which
  can), and failed posts are only logged.
\<close>

definition worker_step :: "(string \<Rightarrow> bool) \<Rightarrow> notifier \<Rightarrow> (string \<times> event) list \<times> notifier" where
  "worker_step ok n =
     (case recv_chan (nchan n) of
        (Got e, c) \<Rightarrow> (map (\<lambda>u. (u, e)) (filter ok (webhooks n)), n\<lparr>nchan := c\<rparr>)
      | (_, _) \<Rightarrow> ([], n))"

fun worker :: "nat \<Rightarrow> (string \<Rightarrow> bool) \<Rightarrow> notifier \<Rightarrow> (string \<times> event) list \<times> notifier" where
  "worker 0 ok n = ([], n)"
| "worker (Suc k) ok n =
     (let r = worker_step ok n; q = worker k ok (snd r) in (fst r @ fst q, snd q))"

text \<open>
  The audit sink: output events are skipped, data is cut to 1000 bytes, everything
  else goes to the SIEM notifier.
\<close>

definition audit_sink :: "sink_event \<Rightarrow> notifier \<Rightarrow> notifier" where
  "audit_sink e n =
     (if sink_type e = ''output'' then n
      else Send \<lparr>ev_Type = ''audit.'' @ sink_type e, ev_Severity = [], ev_Timestamp = [], ev_User = sink_user e,
                 ev_Server = sink_server e, ev_Session = sink_session e,
                 ev_Message = (if length (sink_data e) > 1000 then take 1000 (sink_data e) else sink_data e),
                 ev_Data = []\<rparr> n)"

section \<open>Delivery\<close>

definition notifier_ok :: "notifier \<Rightarrow> bool" where
  "notifier_ok n \<longleftrightarrow> \<not> cclosed (nchan n)"

interpretation notif: mailbox Send "\<lambda>n. cbuf (nchan n)"
  "\<lambda>n. if Enabled n \<and> notifier_ok n then ccap (nchan n) else 0"
  by unfold_locales
     (auto simp: Send_def notifier_ok_def Enabled_def send_nb_def split: if_splits option.splits)

lemma Send_frame [simp]: "webhooks (Send e n) = webhooks n" "worker_running (Send e n) = worker_running n"
  "notifier_ok (Send e n) = notifier_ok n"
  by (auto simp: Send_def notifier_ok_def send_nb_def split: option.splits)

lemma fold_Send_webhooks [simp]: "webhooks (fold Send es n) = webhooks n"
  by (induction es arbitrary: n) simp_all

lemma worker_drains:
  "length (cbuf (nchan n)) \<le> k \<Longrightarrow>
   fst (worker k ok n) = concat (map (\<lambda>e. map (\<lambda>u. (u, e)) (filter ok (webhooks n))) (cbuf (nchan n)))"
proof (induction k arbitrary: n)
  case (Suc k)
  show ?case
  proof (cases "cbuf (nchan n)")
    case Nil
    with Suc show ?thesis by (simp add: worker_step_def recv_chan_def Let_def)
  next
    case (Cons e es)
    then have "worker_step ok n = (map (\<lambda>u. (u, e)) (filter ok (webhooks n)), n\<lparr>nchan := (nchan n)\<lparr>cbuf := es\<rparr>\<rparr>)"
      by (simp add: worker_step_def recv_chan_def)
    with Suc.IH [of "n\<lparr>nchan := (nchan n)\<lparr>cbuf := es\<rparr>\<rparr>"] Suc.prems Cons show ?thesis
      by (simp add: Let_def)
  qed
qed simp

text \<open>Best-effort delivery: of any burst of events sent to a fresh notifier, exactly the
  first 512 are posted, each to every non-empty webhook URL, in the order sent; a
  notifier without URLs posts nothing.  The worker needs no more iterations than
  there are events.\<close>

theorem notifier_delivers:
  "fst (worker (length es) ok (fold Send es (New_notifier urls))) =
     (if filter (\<lambda>u. u \<noteq> []) urls = [] then []
      else concat (map (\<lambda>e. map (\<lambda>u. (u, e)) (filter ok (filter (\<lambda>u. u \<noteq> []) urls))) (take 512 es)))"
proof -
  let ?n = "New_notifier urls"
  have ok: "notifier_ok ?n" by (simp add: New_notifier_def notifier_ok_def make_chan_def Let_def)
  have "cbuf (nchan (fold Send es ?n)) = take (if Enabled ?n then 512 else 0) es"
    using notif.held_puts [of ?n es] ok
    by (simp add: New_notifier_def make_chan_def Let_def)
  then show ?thesis
    by (subst worker_drains) (auto simp: New_notifier_def Enabled_def Let_def min_def)
qed

end
