(* ===== verification/Access.thy ===== *)
theory Access
  imports Servers Notify
begin

text \<open>
  Just-in-time access (\<^verbatim>\<open>internal/access/access.go\<close>, \<^verbatim>\<open>internal/api/access.go\<close>): users
  request access to a server, administrators approve for a number of minutes or
  deny, and the connection handlers ask for an active grant.  The claims of the
  caller's token are an argument of the handlers.
\<close>

record claims =
  cl_UserID :: string
  cl_Username :: string
  cl_Role :: string

definition RoleAdmin :: string where "RoleAdmin = ''admin''"
definition RoleOperator :: string where "RoleOperator = ''operator''"
definition RoleAuditor :: string where "RoleAuditor = ''auditor''"

section \<open>The grant check\<close>

definition grants :: "gotime \<Rightarrow> string \<Rightarrow> string \<Rightarrow> access_request \<Rightarrow> bool" where
  "grants now userID serverID a \<longleftrightarrow>
     ar_UserID a = Some userID \<and> ar_ServerID a = serverID \<and> ar_Status a = ''approved'' \<and>
     (case ar_ExpiresAt a of None \<Rightarrow> True | Some e \<Rightarrow> e > now)"

text \<open>The result and whether there was an error; \<open>fails\<close>: the query failed.\<close>

definition HasActiveGrant :: "bool \<Rightarrow> gotime \<Rightarrow> string \<Rightarrow> string \<Rightarrow> ('a tables_scheme) \<Rightarrow> bool \<times> bool" where
  "HasActiveGrant fails now userID serverID t =
     (if fails then (False, True)
      else (list_ex (grants now userID serverID) (t_requests t), False))"

text \<open>\<open>jitOK\<close> of the SFTP handlers; a request without claims is refused.\<close>

definition jitOK :: "bool \<Rightarrow> bool \<Rightarrow> gotime \<Rightarrow> claims option \<Rightarrow> string \<Rightarrow> ('a tables_scheme) \<Rightarrow> bool" where
  "jitOK jitRequired fails now cl serverID t =
     (if \<not> jitRequired then True
      else case cl of
        None \<Rightarrow> False
      | Some c \<Rightarrow> if cl_Role c = RoleAdmin then True else fst (HasActiveGrant fails now (cl_UserID c) serverID t))"

section \<open>Requests and decisions\<close>

record access_env =
  ae_id :: string
  ae_now :: gotime
  ae_fails :: bool

text \<open>The keys of \<^verbatim>\<open>access_requests\<close>: the id is free and the server exists.\<close>

definition request_keys_ok :: "string \<Rightarrow> string \<Rightarrow> ('a tables_scheme) \<Rightarrow> bool" where
  [simp]: "request_keys_ok i sid t \<longleftrightarrow> i \<notin> ar_ID ` set (t_requests t) \<and> t_servers t sid \<noteq> None"

text \<open>The body is \<open>None\<close> when it is not valid JSON.\<close>

definition RequestAccess ::
  "access_env \<Rightarrow> claims \<Rightarrow> (string \<times> string) option \<Rightarrow> ('a tables_scheme) \<Rightarrow> notifier option \<Rightarrow>
   string response \<times> 'a tables_scheme \<times> notifier option" where
  "RequestAccess env cl req t n =
     (case req of
        None \<Rightarrow> (writeErr StatusBadRequest ''server_id required'', t, n)
      | Some (sid, why) \<Rightarrow>
          if sid = [] then (writeErr StatusBadRequest ''server_id required'', t, n)
          else if ae_fails env \<or> \<not> request_keys_ok (ae_id env) sid t
          then (writeErr StatusBadRequest ''could not create request'', t, n)
          else (writeJSON StatusCreated (ae_id env),
                t\<lparr>t_requests := t_requests t @
                  [\<lparr>ar_ID = ae_id env, ar_UserID = Some (cl_UserID cl), ar_ServerID = sid,
                    ar_Reason = (if why = [] then None else Some why), ar_Status = ''pending'',
                    ar_RequestedAt = ae_now env, ar_DecidedAt = None, ar_DecidedBy = None, ar_ExpiresAt = None\<rparr>]\<rparr>,
                emit \<lparr>ev_Type = ''access.requested'', ev_Severity = ''info'', ev_Timestamp = [], ev_User = cl_Username cl,
                      ev_Server = sid, ev_Session = [], ev_Message = why,
                      ev_Data = [(''request_id'', JStr (ae_id env))]\<rparr> n))"

datatype access_view = AView (av_id: string) (av_user: "string option") (av_username: string)
  (av_server: string) (av_server_name: string) (av_reason: "string option") (av_status: string)
  (av_requested: gotime) (av_expires: "gotime option")

text \<open>
  \<open>ListAccessRequests\<close>: administrators see every request, others their own; newest
  first, at most 200.  \<open>uname\<close> is the join with the users table; two requests of
  the same instant keep the order of the table.
\<close>

definition ListAccessRequests ::
  "(string \<Rightarrow> string option) \<Rightarrow> bool \<Rightarrow> claims \<Rightarrow> ('a tables_scheme) \<Rightarrow> access_view list response" where
  "ListAccessRequests uname fails cl t =
     (if fails then writeErr StatusInternalServerError ''db error''
      else let rs = (if cl_Role cl \<noteq> RoleAdmin
                     then filter (\<lambda>a. ar_UserID a = Some (cl_UserID cl)) (t_requests t)
                     else t_requests t);
               sorted_rs = take 200 (sort_key (\<lambda>a. - ar_RequestedAt a) rs)
           in writeJSON StatusOK (map (\<lambda>a. AView (ar_ID a) (ar_UserID a)
                (case ar_UserID a of None \<Rightarrow> [] | Some u \<Rightarrow> (case uname u of None \<Rightarrow> [] | Some nm \<Rightarrow> nm))
                (ar_ServerID a) (case t_servers t (ar_ServerID a) of None \<Rightarrow> [] | Some s \<Rightarrow> sv_Name s)
                (ar_Reason a) (ar_Status a) (ar_RequestedAt a) (ar_ExpiresAt a)) sorted_rs))"

definition is_pending :: "string \<Rightarrow> access_request \<Rightarrow> bool" where
  "is_pending i a \<longleftrightarrow> ar_ID a = i \<and> ar_Status a = ''pending''"

definition update_requests ::
  "(access_request \<Rightarrow> bool) \<Rightarrow> (access_request \<Rightarrow> access_request) \<Rightarrow> ('a tables_scheme) \<Rightarrow> 'a tables_scheme" where
  "update_requests p f t = t\<lparr>t_requests := map (\<lambda>a. if p a then f a else a) (t_requests t)\<rparr>"

definition grant_minutes :: "int \<Rightarrow> int" where
  "grant_minutes m = (if m \<le> 0 then 60 else m)"

text \<open>The minutes are 0 when the body does not decode.\<close>

definition ApproveAccess ::
  "access_env \<Rightarrow> claims \<Rightarrow> string \<Rightarrow> int \<Rightarrow> ('a tables_scheme) \<Rightarrow> int response \<times> 'a tables_scheme" where
  "ApproveAccess env cl i minutes t =
     (let m = grant_minutes minutes
      in if ae_fails env then (writeErr StatusInternalServerError ''db error'', t)
         else if \<not> list_ex (is_pending i) (t_requests t)
         then (writeErr StatusNotFound ''request not pending'', t)
         else (writeJSON StatusOK m,
               update_requests (is_pending i)
                 (\<lambda>a. a\<lparr>ar_Status := ''approved'', ar_DecidedBy := Some (cl_UserID cl),
                       ar_DecidedAt := Some (ae_now env), ar_ExpiresAt := Some (ae_now env + m * Minute)\<rparr>) t))"

definition DenyAccess ::
  "access_env \<Rightarrow> claims \<Rightarrow> string \<Rightarrow> ('a tables_scheme) \<Rightarrow> unit response \<times> 'a tables_scheme" where
  "DenyAccess env cl i t =
     (if ae_fails env then (writeErr StatusInternalServerError ''db error'', t)
      else if \<not> list_ex (is_pending i) (t_requests t)
      then (writeErr StatusNotFound ''request not pending'', t)
      else (writeJSON StatusOK (),
            update_requests (is_pending i)
              (\<lambda>a. a\<lparr>ar_Status := ''denied'', ar_DecidedBy := Some (cl_UserID cl),
                    ar_DecidedAt := Some (ae_now env)\<rparr>) t))"

section \<open>Histories of requests and decisions\<close>

datatype access_op =
    AReq access_env claims "(string \<times> string) option"
  | AApprove access_env claims string int
  | ADeny access_env claims string
  | ACreate server_env "serverReq option"
  | ADelete bool string

fun access_step :: "(string \<Rightarrow> string option) \<Rightarrow> aead \<Rightarrow> access_op \<Rightarrow> tables \<Rightarrow> tables" where
  "access_step pe c (AReq env cl req) t = fst (snd (RequestAccess env cl req t None))"
| "access_step pe c (AApprove env cl i m) t = snd (ApproveAccess env cl i m t)"
| "access_step pe c (ADeny env cl i) t = snd (DenyAccess env cl i t)"
| "access_step pe c (ACreate env req) t = snd (CreateServer pe c env req t)"
| "access_step pe c (ADelete fails i) t = snd (DeleteServer fails i t)"

definition requested_in :: "access_op list \<Rightarrow> access_request \<Rightarrow> bool" where
  "requested_in ops a \<longleftrightarrow>
     (\<exists>env cl why. AReq env cl (Some (ar_ServerID a, why)) \<in> set ops \<and> ae_id env = ar_ID a \<and>
        ar_UserID a = Some (cl_UserID cl))"

text \<open>An approval of the request in the history, made while it was pending.\<close>

definition approved_in :: "(string \<Rightarrow> string option) \<Rightarrow> aead \<Rightarrow> tables \<Rightarrow> access_op list \<Rightarrow> access_request \<Rightarrow> bool" where
  "approved_in pe c t0 ops a \<longleftrightarrow>
     (\<exists>pre env cl m post b. ops = pre @ AApprove env cl (ar_ID a) m # post \<and>
        b \<in> set (t_requests (fold (access_step pe c) pre t0)) \<and> is_pending (ar_ID a) b \<and>
        ar_UserID b = ar_UserID a \<and> ar_ServerID b = ar_ServerID a \<and>
        ar_DecidedBy a = Some (cl_UserID cl) \<and>
        ar_ExpiresAt a = Some (ae_now env + grant_minutes m * Minute))"

lemma approved_in_snoc: "approved_in pe c t0 ops a \<Longrightarrow> approved_in pe c t0 (ops @ [x]) a"
  unfolding approved_in_def by (metis append.assoc append_Cons)

lemma requested_in_snoc: "requested_in ops a \<Longrightarrow> requested_in (ops @ [x]) a"
  by (auto simp: requested_in_def)

text \<open>What one step makes of a request row.\<close>

lemma access_step_row:
  assumes "a \<in> set (t_requests (access_step pe c x t))"
  shows "a \<in> set (t_requests t) \<or>
    (\<exists>env cl why. x = AReq env cl (Some (ar_ServerID a, why)) \<and> ae_id env = ar_ID a \<and>
       ar_UserID a = Some (cl_UserID cl) \<and> ar_Status a = ''pending'') \<or>
    (\<exists>b. b \<in> set (t_requests t) \<and> is_pending (ar_ID a) b \<and> ar_UserID b = ar_UserID a \<and> ar_ServerID b = ar_ServerID a \<and>
       ((\<exists>env cl m. x = AApprove env cl (ar_ID a) m \<and> ar_Status a = ''approved'' \<and>
           ar_DecidedBy a = Some (cl_UserID cl) \<and> ar_ExpiresAt a = Some (ae_now env + grant_minutes m * Minute)) \<or>
        (\<exists>env cl. x = ADeny env cl (ar_ID a) \<and> ar_Status a = ''denied'')))"
proof (cases x)
  case (AReq env cl req)
  with assms show ?thesis
    by (cases req) (auto simp: RequestAccess_def split: if_splits)
next
  case (AApprove env cl i m)
  with assms show ?thesis
    by (auto simp: ApproveAccess_def update_requests_def Let_def is_pending_def split: if_splits)
next
  case (ADeny env cl i)
  with assms show ?thesis
    by (auto simp: DenyAccess_def update_requests_def is_pending_def split: if_splits)
next
  case (ACreate env req)
  then have "t_requests (access_step pe c x t) = t_requests t"
    by (auto simp: CreateServer_def Let_def split: option.splits if_splits)
  with assms show ?thesis by simp
next
  case (ADelete fails i)
  with assms show ?thesis
    by (auto simp: DeleteServer_def split: if_splits)
qed

lemma access_history:
  assumes "t_requests t0 = []" "a \<in> set (t_requests (fold (access_step pe c) ops t0))"
  shows "requested_in ops a \<and> (ar_Status a = ''approved'' \<longrightarrow> approved_in pe c t0 ops a)"
  using assms(2)
proof (induction ops arbitrary: a rule: rev_induct)
  case Nil
  then show ?case using assms(1) by simp
next
  case (snoc x ops)
  let ?t = "fold (access_step pe c) ops t0"
  from snoc.prems have "a \<in> set (t_requests (access_step pe c x ?t))" by simp
  from access_step_row [OF this] consider
      (old) "a \<in> set (t_requests ?t)"
    | (req) env cl why where "x = AReq env cl (Some (ar_ServerID a, why))" "ae_id env = ar_ID a"
        "ar_UserID a = Some (cl_UserID cl)" "ar_Status a = ''pending''"
    | (app) b env cl m where "b \<in> set (t_requests ?t)" "is_pending (ar_ID a) b" "ar_UserID b = ar_UserID a"
        "ar_ServerID b = ar_ServerID a" "x = AApprove env cl (ar_ID a) m" "ar_DecidedBy a = Some (cl_UserID cl)"
        "ar_ExpiresAt a = Some (ae_now env + grant_minutes m * Minute)"
    | (den) b where "b \<in> set (t_requests ?t)" "is_pending (ar_ID a) b" "ar_UserID b = ar_UserID a"
        "ar_ServerID b = ar_ServerID a" "ar_Status a = ''denied''"
    by blast
  then show ?case
  proof cases
    case old
    with snoc.IH show ?thesis by (blast intro: approved_in_snoc requested_in_snoc)
  next
    case req
    then show ?thesis by (auto simp: requested_in_def)
  next
    case app
    then have "requested_in ops b" using snoc.IH by blast
    then have "requested_in (ops @ [x]) a"
      using app by (auto simp: requested_in_def is_pending_def)
    moreover have "approved_in pe c t0 (ops @ [x]) a"
      unfolding approved_in_def using app by blast
    ultimately show ?thesis by blast
  next
    case den
    then have "requested_in ops b" using snoc.IH by blast
    with den show ?thesis by (auto simp: requested_in_def is_pending_def)
  qed
qed

text \<open>C10: No access without a decision: in every history of requests, approvals, denials,
  server creations and deletions that starts with no requests, an active grant of a
  user for a server goes back to a request that this user made for this server and
  to an approval of that very request while it was pending, and it is still within
  the minutes that approval granted (60 when none were given).\<close>

theorem grant_traces_to_approval:
  assumes "t_requests t0 = []"
    and "HasActiveGrant False now u s (fold (access_step pe c) ops t0) = (True, False)"
  shows "\<exists>pre env cl i m post b renv rcl why.
    ops = pre @ AApprove env cl i m # post \<and>
    b \<in> set (t_requests (fold (access_step pe c) pre t0)) \<and> is_pending i b \<and>
    ar_UserID b = Some u \<and> ar_ServerID b = s \<and>
    AReq renv rcl (Some (s, why)) \<in> set ops \<and> ae_id renv = i \<and> cl_UserID rcl = u \<and>
    now < ae_now env + grant_minutes m * Minute"
proof -
  obtain a where a: "a \<in> set (t_requests (fold (access_step pe c) ops t0))" "grants now u s a"
    using assms(2) by (auto simp: HasActiveGrant_def list_ex_iff)
  then have "requested_in ops a" "approved_in pe c t0 ops a"
    using access_history [OF assms(1) a(1)] by (auto simp: grants_def)
  with a(2) show ?thesis
    unfolding requested_in_def approved_in_def grants_def by fastforce
qed

definition sample_claims :: "string \<Rightarrow> string \<Rightarrow> claims" where
  "sample_claims u r = \<lparr>cl_UserID = u, cl_Username = u, cl_Role = r\<rparr>"

definition aenv :: "string \<Rightarrow> gotime \<Rightarrow> access_env" where
  "aenv i now = \<lparr>ae_id = i, ae_now = now, ae_fails = False\<rparr>"

definition sample_history :: "access_op list" where
  "sample_history =
     [ACreate (sample_senv ''h1'') (Some sample_req),
      AReq (aenv ''r1'' 10) (sample_claims ''bob'' RoleOperator) (Some (''h1'', ''deploy'')),
      AApprove (aenv [] 20) (sample_claims ''root'' RoleAdmin) ''r1'' 0]"

theorem grant_traces_to_approval_witness:
  "HasActiveGrant False 30 ''bob'' ''h1'' (fold (access_step (\<lambda>k. None) toy_aead) sample_history no_tables) = (True, False) \<and>
   (\<exists>pre env cl i m post. sample_history = pre @ AApprove env cl i m # post \<and> 30 < ae_now env + grant_minutes m * Minute)"
proof -
  have "HasActiveGrant False 30 ''bob'' ''h1'' (fold (access_step (\<lambda>k. None) toy_aead) sample_history no_tables) = (True, False)"
    by (simp add: sample_history_def HasActiveGrant_def ApproveAccess_def RequestAccess_def CreateServer_def
        no_tables_def sample_req_def sample_senv_def sample_claims_def aenv_def default_req_def Let_def
        validatePrivateKey_def update_requests_def is_pending_def grants_def grant_minutes_def)
  moreover from grant_traces_to_approval [OF _ this] have
    "\<exists>pre env cl i m post. sample_history = pre @ AApprove env cl i m # post \<and> 30 < ae_now env + grant_minutes m * Minute"
    by (simp add: no_tables_def) blast
  ultimately show ?thesis by blast
qed


text \<open>A decision is final: whatever happens later in any history, a request that has been
  denied or approved never changes again while its server exists, and approving or
  denying it a second time is refused.\<close>

theorem decisions_are_final:
  assumes "a \<in> set (t_requests t)" and "ar_Status a \<noteq> ''pending''" and "distinct (map ar_ID (t_requests t))"
    and "list_all (\<lambda>x. \<forall>fails. x \<noteq> ADelete fails (ar_ServerID a)) ops"
  shows "a \<in> set (t_requests (fold (access_step pe c) ops t)) \<and>
    (\<not> ae_fails env \<longrightarrow>
       ApproveAccess env cl (ar_ID a) m t = (Failed 404 ''request not pending'', t) \<and>
       DenyAccess env cl (ar_ID a) t = (Failed 404 ''request not pending'', t))"
proof
  have step: "a \<in> set (t_requests (access_step pe c x t))"
    if "a \<in> set (t_requests t)" "\<forall>fails. x \<noteq> ADelete fails (ar_ServerID a)" for x t
  proof (cases x)
    case (AReq env cl req)
    with that show ?thesis by (cases req) (auto simp: RequestAccess_def)
  next
    case (AApprove env cl i m)
    with that assms(2) show ?thesis
      by (auto simp: ApproveAccess_def update_requests_def Let_def is_pending_def image_iff intro!: bexI [of _ a])
  next
    case (ADeny env cl i)
    with that assms(2) show ?thesis
      by (auto simp: DenyAccess_def update_requests_def is_pending_def image_iff intro!: bexI [of _ a])
  next
    case (ACreate env req)
    with that show ?thesis by (auto simp: CreateServer_def Let_def split: option.splits)
  next
    case (ADelete fails i)
    with that show ?thesis by (auto simp: DeleteServer_def)
  qed
  show "a \<in> set (t_requests (fold (access_step pe c) ops t))"
    using assms(1,4)
  proof (induction ops arbitrary: t)
    case (Cons x ops)
    then show ?case using step [of t x] by simp
  qed simp
  have "\<not> list_ex (is_pending (ar_ID a)) (t_requests t)"
    using assms(1-3) by (auto simp: list_ex_iff is_pending_def distinct_map inj_on_def)
  then show "\<not> ae_fails env \<longrightarrow>
       ApproveAccess env cl (ar_ID a) m t = (Failed 404 ''request not pending'', t) \<and>
       DenyAccess env cl (ar_ID a) t = (Failed 404 ''request not pending'', t)"
    by (simp add: ApproveAccess_def DenyAccess_def writeErr_def Let_def)
qed

definition denied_row :: access_request where
  "denied_row = \<lparr>ar_ID = ''r1'', ar_UserID = Some ''bob'', ar_ServerID = ''h1'', ar_Reason = None,
     ar_Status = ''denied'', ar_RequestedAt = 0, ar_DecidedAt = Some 5, ar_DecidedBy = Some ''root'', ar_ExpiresAt = None\<rparr>"

theorem decisions_are_final_witness:
  "denied_row \<in> set (t_requests (fold (access_step (\<lambda>k. None) toy_aead)
     [AApprove (aenv [] 20) (sample_claims ''root'' RoleAdmin) ''r1'' 5] (no_tables\<lparr>t_requests := [denied_row]\<rparr>))) \<and>
   ApproveAccess (aenv [] 20) (sample_claims ''root'' RoleAdmin) ''r1'' 5 (no_tables\<lparr>t_requests := [denied_row]\<rparr>) =
     (Failed 404 ''request not pending'', no_tables\<lparr>t_requests := [denied_row]\<rparr>)"
  using decisions_are_final [of denied_row "no_tables\<lparr>t_requests := [denied_row]\<rparr>"
      "[AApprove (aenv [] 20) (sample_claims ''root'' RoleAdmin) ''r1'' 5]" "\<lambda>k. None" toy_aead
      "aenv [] 20" "sample_claims ''root'' RoleAdmin" 5]
  by (simp add: denied_row_def aenv_def)

section \<open>Referential integrity of the inventory\<close>

text \<open>
  Every operation on the inventory and the access requests, and the invariant they
  keep: rows are stored under their own id, ids and group names are unique, and
  memberships and requests refer to rows that exist.
\<close>

datatype inv_op =
    IAccess access_op
  | IUpdate server_env string "serverReq option"
  | IRotate string bool string
  | IGroup string gotime bool "(string \<times> string option) option"
  | IUpdateGroup "string rows" bool string "(string \<times> string option) option"
  | IDeleteGroup bool string
  | IAdd bool string "string option"
  | IRemove bool string string

fun inv_step :: "(string \<Rightarrow> string option) \<Rightarrow> aead \<Rightarrow> inv_op \<Rightarrow> tables \<Rightarrow> tables" where
  "inv_step pe c (IAccess x) t = access_step pe c x t"
| "inv_step pe c (IUpdate env i req) t = snd (UpdateServer pe c env i req t)"
| "inv_step pe c (IRotate rnd fails i) t = snd (RotateToken rnd fails i t)"
| "inv_step pe c (IGroup i now fails req) t = snd (CreateGroup i now fails req t)"
| "inv_step pe c (IUpdateGroup ms fails i req) t = snd (UpdateGroup ms fails i req t)"
| "inv_step pe c (IDeleteGroup fails i) t = snd (DeleteGroup fails i t)"
| "inv_step pe c (IAdd fails g req) t = snd (AddMember fails g req t)"
| "inv_step pe c (IRemove fails g s) t = snd (RemoveMember fails g s t)"

definition tables_inv :: "tables \<Rightarrow> bool" where
  "tables_inv t \<longleftrightarrow>
     (\<forall>i s. t_servers t i = Some s \<longrightarrow> sv_ID s = i) \<and>
     distinct (map gr_ID (t_groups t)) \<and> distinct (map gr_Name (t_groups t)) \<and>
     distinct (map ar_ID (t_requests t)) \<and>
     (\<forall>(g, s) \<in> t_members t. g \<in> gr_ID ` set (t_groups t) \<and> t_servers t s \<noteq> None) \<and>
     (\<forall>a \<in> set (t_requests t). t_servers t (ar_ServerID a) \<noteq> None)"

lemma find_group_None: "find_group i t = None \<longleftrightarrow> i \<notin> gr_ID ` set (t_groups t)"
  by (auto simp: find_group_def find_None_iff)

lemma tables_inv_update_requests:
  assumes "tables_inv t" "\<And>a. ar_ID (f a) = ar_ID a" "\<And>a. ar_ServerID (f a) = ar_ServerID a"
  shows "tables_inv (update_requests p f t)"
proof -
  have "\<forall>a \<in> set (t_requests (update_requests p f t)). t_servers t (ar_ServerID a) \<noteq> None"
    using assms by (auto simp: update_requests_def tables_inv_def)
  moreover have "map ar_ID (t_requests (update_requests p f t)) = map ar_ID (t_requests t)"
    using assms(2) by (simp add: update_requests_def)
  ultimately show ?thesis
    using assms(1) by (simp add: tables_inv_def) (simp add: update_requests_def)
qed

lemma tables_inv_server:
  assumes "tables_inv t" "sv_ID s = i"
  shows "tables_inv (t\<lparr>t_servers := (t_servers t)(i \<mapsto> s)\<rparr>)"
  using assms by (fastforce simp: tables_inv_def)

lemma tables_inv_access:
  assumes "tables_inv t"
  shows "tables_inv (access_step pe c x t)"
proof (cases x)
  case (AReq env cl req)
  with assms show ?thesis
    by (cases req) (simp add: RequestAccess_def, clarsimp simp: RequestAccess_def, auto simp: tables_inv_def)
next
  case (AApprove env cl i m)
  with assms show ?thesis
    by (auto simp: ApproveAccess_def Let_def intro!: tables_inv_update_requests)
next
  case (ADeny env cl i)
  with assms show ?thesis
    by (auto simp: DenyAccess_def intro!: tables_inv_update_requests)
next
  case (ACreate env req)
  have "sv_ID (server_row c env r) = se_id env" for r by (simp add: server_row_def)
  with ACreate assms show ?thesis
    by (auto simp: CreateServer_def Let_def intro!: tables_inv_server split: option.splits)
next
  case (ADelete fails i)
  with assms show ?thesis
    by (simp add: DeleteServer_def) (auto simp: tables_inv_def distinct_map intro: inj_on_subset)
qed

lemma distinct_rename:
  assumes "distinct (map gr_ID gs)" "distinct (map gr_Name gs)"
    and "\<forall>g \<in> set gs. gr_Name g = n \<longrightarrow> gr_ID g = i"
  shows "distinct (map (\<lambda>g. gr_Name (if gr_ID g = i then g\<lparr>gr_Name := n, gr_Description := d\<rparr> else g)) gs)"
  using assms
  by (auto simp: distinct_map inj_on_def)

lemma tables_inv_groups:
  assumes "tables_inv t" "map gr_ID gs = map gr_ID (t_groups t)" "distinct (map gr_Name gs)"
  shows "tables_inv (t\<lparr>t_groups := gs\<rparr>)"
proof -
  have "gr_ID ` set gs = gr_ID ` set (t_groups t)"
    using assms(2) by (metis list.set_map)
  with assms show ?thesis by (simp add: tables_inv_def)
qed

lemma tables_inv_UpdateGroup:
  assumes "tables_inv t"
  shows "tables_inv (snd (UpdateGroup ms fails i req t))"
proof (cases req)
  case None
  with assms show ?thesis by (simp add: UpdateGroup_def)
next
  case (Some nd)
  obtain n d where nd: "nd = (n, d)" by (cases nd)
  define f where "f = (\<lambda>g::group. if gr_ID g = i then g\<lparr>gr_Name := n, gr_Description := d\<rparr> else g)"
  consider "snd (UpdateGroup ms fails i req t) = t"
    | "\<not> group_name_taken n (Some i) t" "snd (UpdateGroup ms fails i req t) = t\<lparr>t_groups := map f (t_groups t)\<rparr>"
    by (cases "fails \<or> find_group i t = None \<or> group_name_taken n (Some i) t")
       (auto simp: UpdateGroup_def Some nd f_def)
  then show ?thesis
  proof cases
    case 2
    have "map gr_ID (map f (t_groups t)) = map gr_ID (t_groups t)"
      by (simp add: f_def)
    moreover have "distinct (map gr_Name (map f (t_groups t)))"
      using 2(1) assms distinct_rename [of "t_groups t" n i d]
      by (auto simp: tables_inv_def group_name_taken_def list_ex_iff o_def f_def)
    ultimately show ?thesis
      using tables_inv_groups [OF assms, of "map f (t_groups t)"] 2(2) by simp
  qed (simp add: assms)
qed

lemma tables_inv_step: "tables_inv t \<Longrightarrow> tables_inv (inv_step pe c x t)"
proof (cases x)
  case (IUpdate env i req)
  moreover assume "tables_inv t"
  ultimately show ?thesis
    by (simp add: UpdateServer_def Let_def split: option.split) (auto intro!: tables_inv_server simp: tables_inv_def)
next
  case (IRotate rnd fails i)
  moreover assume "tables_inv t"
  ultimately show ?thesis
    by (simp add: RotateToken_def Let_def split: option.split) (auto intro!: tables_inv_server simp: tables_inv_def)
next
  case (IGroup i now fails req)
  moreover assume "tables_inv t"
  ultimately show ?thesis
    by (simp add: CreateGroup_def find_group_None group_name_taken_def list_ex_iff split: option.split)
       (auto simp: tables_inv_def)
next
  case (IDeleteGroup fails i)
  moreover assume "tables_inv t"
  ultimately show ?thesis
    by (simp add: DeleteGroup_def) (auto simp: tables_inv_def distinct_map intro: inj_on_subset)
next
  case (IAdd fails g req)
  moreover assume "tables_inv t"
  ultimately show ?thesis
    by (simp add: AddMember_def find_group_None split: option.split) (auto simp: tables_inv_def)
next
  case (IRemove fails g s)
  moreover assume "tables_inv t"
  ultimately show ?thesis
    by (simp add: RemoveMember_def) (auto simp: tables_inv_def)
qed (simp_all add: tables_inv_access tables_inv_UpdateGroup)

interpretation inventory: invariant_ops "inv_step pe c" "\<lambda>x t. True" tables_inv
  by unfold_locales (rule tables_inv_step)

lemma run_ok_True: "run_ok (\<lambda>x t. True) f xs s"
  by (induction xs arbitrary: s) simp_all

text \<open>What the schema's constraints and cascades come to over any sequence of server, group, membership and
  access-request operations on an empty database: every membership names an existing group and server, every access request an
  existing server, and ids and group names are unique.\<close>

lemma inventory_consistent:
  "tables_inv (fold (inv_step pe c) ops no_tables)"
  by (rule inventory.inv_run) (simp_all add: run_ok_True tables_inv_def no_tables_def)

end
