(* ===== verification/Auth.thy ===== *)
theory Auth
  imports Access
begin

text \<open>
  Tokens and the authentication middleware (\<^verbatim>\<open>internal/auth/jwt.go\<close>,
  \<^verbatim>\<open>internal/auth/middleware.go\<close>).  The JWT library (\<^verbatim>\<open>github.com/golang-jwt/jwt/v5\<close>)
  is a parameter: signing, taking a token apart, checking its signature and its times; what it
  documents is \<open>jwt_ok\<close>.
\<close>

record payload =
  pl_claims :: claims
  pl_Subject :: string
  pl_IssuedAt :: "int option" \<comment> \<open>NumericDate: whole seconds\<close>
  pl_ExpiresAt :: "int option"
  pl_NotBefore :: "int option"

record jwt_lib =
  jl_sign :: "string \<Rightarrow> payload \<Rightarrow> string option" \<comment> \<open>HS256 with this secret\<close>
  jl_parse :: "string \<Rightarrow> (bool \<times> payload) option" \<comment> \<open>is the method an HMAC?\<close>
  jl_verify :: "string \<Rightarrow> string \<Rightarrow> bool" \<comment> \<open>secret, token\<close>
  jl_validate :: "gotime \<Rightarrow> payload \<Rightarrow> bool" \<comment> \<open>the validator's check of the times\<close>

text \<open>What the library documents of its validator: a time that is present is compared with the clock, one that is absent is
  not asked for.\<close>

definition jwt_times_ok :: "gotime \<Rightarrow> payload \<Rightarrow> bool" where
  "jwt_times_ok now p \<longleftrightarrow>
     (case pl_ExpiresAt p of None \<Rightarrow> True | Some e \<Rightarrow> now < e * Second)
     \<and> (case pl_NotBefore p of None \<Rightarrow> True | Some b \<Rightarrow> b * Second \<le> now)"

text \<open>A signed token comes apart into what was signed, names an HMAC method and verifies
  under the secret it was signed with, and the validator does as documented.\<close>

definition jwt_ok :: "jwt_lib \<Rightarrow> bool" where
  "jwt_ok L \<longleftrightarrow> (\<forall>k p t. jl_sign L k p = Some t \<longrightarrow> jl_parse L t = Some (True, p) \<and> jl_verify L k t)
     \<and> (\<forall>now p. jl_validate L now p = jwt_times_ok now p)"

definition tokenTTL :: duration where
  "tokenTTL = 12 * 60 * Minute"

definition Issue :: "jwt_lib \<Rightarrow> string \<Rightarrow> gotime \<Rightarrow> string \<Rightarrow> string \<Rightarrow> string \<Rightarrow> string option" where
  "Issue L secret now userID username role =
     jl_sign L secret
       \<lparr>pl_claims = \<lparr>cl_UserID = userID, cl_Username = username, cl_Role = role\<rparr>,
        pl_Subject = userID, pl_IssuedAt = Some (Unix now), pl_ExpiresAt = Some (Unix (now + tokenTTL)), pl_NotBefore = None\<rparr>"

text \<open>\<open>Parse\<close>: the key function refuses other methods, the library checks the signature
  and the times.\<close>

definition Parse :: "jwt_lib \<Rightarrow> string \<Rightarrow> gotime \<Rightarrow> string \<Rightarrow> claims option" where
  "Parse L secret now tok =
     (case jl_parse L tok of
        None \<Rightarrow> None
      | Some (hmac, p) \<Rightarrow>
          if \<not> hmac then None
          else if \<not> jl_verify L secret tok then None
          else if \<not> jl_validate L now p then None
          else Some (pl_claims p))"

record http_request =
  hr_method :: string
  hr_Authorization :: string
  hr_token :: string \<comment> \<open>the \<^verbatim>\<open>token\<close> query parameter\<close>

definition extractToken :: "http_request \<Rightarrow> string" where
  "extractToken r =
     (let h = hr_Authorization r
      in if HasPrefix h ''Bearer '' then TrimPrefix h ''Bearer '' else hr_token r)"

text \<open>\<open>Middleware\<close>: the refusal, or the claims the next handler finds in the context.\<close>

definition Middleware :: "jwt_lib \<Rightarrow> string \<Rightarrow> gotime \<Rightarrow> http_request \<Rightarrow> (nat \<times> string) + claims" where
  "Middleware L secret now r =
     (let tok = extractToken r
      in if tok = [] then Inl (StatusUnauthorized, ''missing authorization'')
         else case Parse L secret now tok of
           None \<Rightarrow> Inl (StatusUnauthorized, ''invalid token'')
         | Some c \<Rightarrow> Inr c)"

lemma MiddlewareD: "Middleware L secret now r = Inr c \<Longrightarrow> Parse L secret now (extractToken r) = Some c"
  by (auto simp: Middleware_def Let_def split: if_splits option.splits)

lemma Unix_bounds: "Unix t * Second \<le> t \<and> t < (Unix t + 1) * Second"
  unfolding Unix_def by presburger

text \<open>C20: A token carries exactly the user and role it was issued for and only for its twelve
  hours: presented in either place until a second before the twelve hours are over it
  yields those claims, from the twelfth hour on it is refused, and so is every token
  whose method is not an HMAC or whose signature does not verify.\<close>

theorem token_lifetime:
  assumes "jwt_ok L" and "Issue L secret now u n role = Some tok" and "tok \<noteq> []"
    and "r = \<lparr>hr_method = m, hr_Authorization = ''Bearer '' @ tok, hr_token = q\<rparr> \<or>
         r = \<lparr>hr_method = m, hr_Authorization = [], hr_token = tok\<rparr>"
  shows "(t \<le> now + tokenTTL - Second \<longrightarrow>
           Middleware L secret t r = Inr \<lparr>cl_UserID = u, cl_Username = n, cl_Role = role\<rparr>) \<and>
         (now + tokenTTL \<le> t \<longrightarrow> Middleware L secret t r = Inl (401, ''invalid token'')) \<and>
         (jl_parse L tok' = Some (False, p) \<or> \<not> jl_verify L secret tok' \<longrightarrow> Parse L secret t tok' = None)"
proof -
  have "extractToken r = tok"
    using assms(4) by (auto simp: extractToken_def TrimPrefix_def HasPrefix_def Let_def)
  moreover obtain pl where "jl_parse L tok = Some (True, pl)" "jl_verify L secret tok"
      "pl_claims pl = \<lparr>cl_UserID = u, cl_Username = n, cl_Role = role\<rparr>" "pl_ExpiresAt pl = Some (Unix (now + tokenTTL))" "pl_NotBefore pl = None"
    using assms(1,2) by (auto simp: jwt_ok_def Issue_def)
  moreover have "t < Unix (now + tokenTTL) * Second" if "t \<le> now + tokenTTL - Second"
    using Unix_bounds [of "now + tokenTTL"] that by (simp add: algebra_simps)
  moreover have "\<not> t < Unix (now + tokenTTL) * Second" if "now + tokenTTL \<le> t"
    using Unix_bounds [of "now + tokenTTL"] that by simp
  ultimately show ?thesis
    using assms(1,3) by (auto simp: Middleware_def Parse_def jwt_ok_def jwt_times_ok_def Let_def split: option.split)
qed

text \<open>A toy library for the witnesses: a token is its payload written out.\<close>

definition toy_payload :: "string \<Rightarrow> payload" where
  "toy_payload role = \<lparr>pl_claims = \<lparr>cl_UserID = ''u1'', cl_Username = ''bob'', cl_Role = role\<rparr>,
     pl_Subject = ''u1'', pl_IssuedAt = Some 0, pl_ExpiresAt = Some 43200, pl_NotBefore = None\<rparr>"

definition toy_jwt :: jwt_lib where
  "toy_jwt = \<lparr>jl_sign = (\<lambda>k p. if k = ''k'' \<and> p = toy_payload (cl_Role (pl_claims p)) then Some (''t.'' @ cl_Role (pl_claims p)) else None),
     jl_parse = (\<lambda>t. if HasPrefix t ''t.'' then Some (True, toy_payload (TrimPrefix t ''t.'')) else None),
     jl_verify = (\<lambda>k t. k = ''k''), jl_validate = jwt_times_ok\<rparr>"

lemma toy_jwt_ok: "jwt_ok toy_jwt"
proof -
  have "HasPrefix (CHR ''t'' # CHR ''.'' # r) ''t.''" "TrimPrefix (CHR ''t'' # CHR ''.'' # r) ''t.'' = r" for r
    by (simp_all add: HasPrefix_def TrimPrefix_def)
  then show ?thesis by (auto simp: jwt_ok_def toy_jwt_def split: if_splits)
qed

lemma toy_issue: "Issue toy_jwt ''k'' 0 ''u1'' ''bob'' role = Some (''t.'' @ role)"
  by (simp add: Issue_def toy_jwt_def toy_payload_def tokenTTL_def Unix_def)

theorem token_lifetime_witness:
  "Middleware toy_jwt ''k'' (60 * Minute) \<lparr>hr_method = ''GET'', hr_Authorization = [], hr_token = ''t.operator''\<rparr> =
     Inr \<lparr>cl_UserID = ''u1'', cl_Username = ''bob'', cl_Role = ''operator''\<rparr>"
  using token_lifetime [OF toy_jwt_ok toy_issue [of "''operator''"],
      of "\<lparr>hr_method = ''GET'', hr_Authorization = [], hr_token = ''t.operator''\<rparr>" "''GET''" "[]" "60 * Minute"]
  by (simp add: tokenTTL_def)

end
