(* ===== verification/Router.thy ===== *)
theory Router
  imports Auth
begin

text \<open>
  The routing tree and role checks of the gateway (\<^verbatim>\<open>internal/api/router.go\<close>).  Which
  route a request matches is decided by \<^verbatim>\<open>github.com/gorilla/mux\<close>, a parameter; what
  the code relies on is that the chosen route is one that was registered and that
  its method restriction holds.
\<close>

datatype handler =
    HLogin | HAuthMethods | HOIDCLogin | HOIDCCallback
  | HLogout | HMFASetup | HMFAEnable | HMFADisable | HDashboard
  | HListServers | HCreateServer | HGetServer | HUpdateServer | HDeleteServer | HRotateToken
  | HServerMetrics | HServerVulns | HSFTPList | HSFTPDownload | HSFTPUpload
  | HRequestAccess | HListAccessRequests | HApproveAccess | HDenyAccess
  | HListGroups | HCreateGroup | HUpdateGroup | HDeleteGroup | HAddMember | HRemoveMember
  | HListSessions | HGetSession | HGetSessionCast | HSessionCommands | HCommandSearch | HTerminateSession
  | HQueryAudit | HExportAudit | HVerifyAudit
  | HCreateBulk | HGetBulk | HStreamBulk | HListUsers | HCreateUser | HAccessReview | HSessionReportCSV
  | WsSSH | WsRDP | WsWatch | WsForward
  | AgentConnect | Healthz | CAPubKey | ServeInstall | ServeAgentBinary | SPA

text \<open>A route: its path template, its method (\<open>None\<close>: any), whether the JWT middleware of
  its subrouter runs, the roles its guard lists (\<open>None\<close>: no guard), and its handler.\<close>

record route =
  rt_path :: string
  rt_method :: "string option"
  rt_jwt :: bool
  rt_roles :: "string list option"
  rt_handler :: handler

definition public :: "string \<Rightarrow> string \<Rightarrow> handler \<Rightarrow> route" where
  "public m path h = \<lparr>rt_path = path, rt_method = Some m, rt_jwt = False, rt_roles = None, rt_handler = h\<rparr>"

definition sub :: "string \<Rightarrow> string list option \<Rightarrow> string \<Rightarrow> string \<Rightarrow> handler \<Rightarrow> route" where
  "sub base roles m path h =
     \<lparr>rt_path = base @ path, rt_method = Some m, rt_jwt = True, rt_roles = roles, rt_handler = h\<rparr>"

abbreviation (input) api where "api \<equiv> sub ''/api'' None"
abbreviation (input) rw where "rw \<equiv> sub ''/api'' (Some [RoleAdmin, RoleOperator])"
abbreviation (input) adminOnly where "adminOnly \<equiv> sub ''/api'' (Some [RoleAdmin])"
abbreviation (input) ws where "ws \<equiv> sub ''/ws''"

definition routes :: "route list" where
  "routes =
     [public ''POST'' ''/api/auth/login'' HLogin,
      public ''GET'' ''/api/auth/methods'' HAuthMethods,
      public ''GET'' ''/api/auth/oidc/login'' HOIDCLogin,
      public ''GET'' ''/api/auth/oidc/callback'' HOIDCCallback,
      api ''POST'' ''/auth/logout'' HLogout,
      api ''POST'' ''/auth/mfa/setup'' HMFASetup,
      api ''POST'' ''/auth/mfa/enable'' HMFAEnable,
      api ''POST'' ''/auth/mfa/disable'' HMFADisable,
      api ''GET'' ''/dashboard'' HDashboard,
      api ''GET'' ''/servers'' HListServers,
      rw ''POST'' ''/servers'' HCreateServer,
      api ''GET'' ''/servers/{id}'' HGetServer,
      rw ''PUT'' ''/servers/{id}'' HUpdateServer,
      rw ''DELETE'' ''/servers/{id}'' HDeleteServer,
      rw ''POST'' ''/servers/{id}/token'' HRotateToken,
      api ''GET'' ''/servers/{id}/metrics'' HServerMetrics,
      api ''GET'' ''/servers/{id}/vulns'' HServerVulns,
      rw ''GET'' ''/servers/{id}/sftp'' HSFTPList,
      rw ''GET'' ''/servers/{id}/sftp/download'' HSFTPDownload,
      rw ''POST'' ''/servers/{id}/sftp/upload'' HSFTPUpload,
      api ''POST'' ''/access/request'' HRequestAccess,
      api ''GET'' ''/access/requests'' HListAccessRequests,
      adminOnly ''POST'' ''/access/requests/{id}/approve'' HApproveAccess,
      adminOnly ''POST'' ''/access/requests/{id}/deny'' HDenyAccess,
      api ''GET'' ''/groups'' HListGroups,
      rw ''POST'' ''/groups'' HCreateGroup,
      rw ''PUT'' ''/groups/{id}'' HUpdateGroup,
      rw ''DELETE'' ''/groups/{id}'' HDeleteGroup,
      rw ''POST'' ''/groups/{id}/members'' HAddMember,
      rw ''DELETE'' ''/groups/{id}/members/{server_id}'' HRemoveMember,
      api ''GET'' ''/sessions'' HListSessions,
      api ''GET'' ''/sessions/{id}'' HGetSession,
      api ''GET'' ''/sessions/{id}/cast'' HGetSessionCast,
      api ''GET'' ''/sessions/{id}/commands'' HSessionCommands,
      api ''GET'' ''/commands/search'' HCommandSearch,
      adminOnly ''POST'' ''/sessions/{id}/terminate'' HTerminateSession,
      api ''GET'' ''/audit'' HQueryAudit,
      api ''GET'' ''/audit/export'' HExportAudit,
      api ''GET'' ''/audit/verify'' HVerifyAudit,
      rw ''POST'' ''/bulk'' HCreateBulk,
      api ''GET'' ''/bulk/{job_id}'' HGetBulk,
      api ''GET'' ''/bulk/{job_id}/stream'' HStreamBulk,
      adminOnly ''GET'' ''/users'' HListUsers,
      adminOnly ''POST'' ''/users'' HCreateUser,
      adminOnly ''GET'' ''/reports/access-review'' HAccessReview,
      adminOnly ''GET'' ''/reports/sessions.csv'' HSessionReportCSV,
      ws (Some [RoleAdmin, RoleOperator]) ''GET'' ''/ssh/{server_id}'' WsSSH,
      ws (Some [RoleAdmin, RoleOperator]) ''GET'' ''/rdp/{server_id}'' WsRDP,
      ws None ''GET'' ''/watch/{session_id}'' WsWatch,
      ws (Some [RoleAdmin, RoleOperator]) ''GET'' ''/forward/{server_id}'' WsForward,
      \<lparr>rt_path = ''/agent/connect'', rt_method = None, rt_jwt = False, rt_roles = None, rt_handler = AgentConnect\<rparr>,
      public ''GET'' ''/healthz'' Healthz,
      public ''GET'' ''/ca/pubkey'' CAPubKey,
      public ''GET'' ''/install.sh'' ServeInstall,
      public ''GET'' ''/downloads/agent/{os}/{arch}'' ServeAgentBinary,
      public ''GET'' ''/'' SPA]"

section \<open>Dispatch\<close>

fun roleAllowed :: "string \<Rightarrow> string list \<Rightarrow> bool" where
  "roleAllowed role [] = False"
| "roleAllowed role (a # as) = (if a = role then True else roleAllowed role as)"

lemma roleAllowed_iff [simp]: "roleAllowed role as \<longleftrightarrow> role \<in> set as"
  by (induction "as") auto

text \<open>\<open>guard\<close> and \<open>roleMW\<close>: the check both wrap around a handler.\<close>

definition guard :: "string list \<Rightarrow> claims option \<Rightarrow> bool" where
  "guard roles cl = (case cl of None \<Rightarrow> False | Some c \<Rightarrow> roleAllowed (cl_Role c) roles)"

datatype outcome = Answer nat | Run handler "claims option"

definition serve_route :: "jwt_lib \<Rightarrow> string \<Rightarrow> gotime \<Rightarrow> route \<Rightarrow> http_request \<Rightarrow> outcome" where
  "serve_route L secret now rt r =
     (let ctx = (if rt_jwt rt then map_sum fst Some (Middleware L secret now r) else Inr None)
      in case ctx of
           Inl code \<Rightarrow> Answer code
         | Inr cl \<Rightarrow>
             (case rt_roles rt of
                None \<Rightarrow> Run (rt_handler rt) cl
              | Some roles \<Rightarrow> if guard roles cl then Run (rt_handler rt) cl else Answer StatusForbidden))"

text \<open>\<open>sel\<close> is the route the router picks, if any; without one the answer is 404 (or 405).\<close>

definition Router :: "(http_request \<Rightarrow> route option) \<Rightarrow> jwt_lib \<Rightarrow> string \<Rightarrow> gotime \<Rightarrow> http_request \<Rightarrow> outcome" where
  "Router sel L secret now r =
     (case sel r of None \<Rightarrow> Answer StatusNotFound | Some rt \<Rightarrow> serve_route L secret now rt r)"

text \<open>The route the router picks was registered and admits the request's method.\<close>

definition mux_ok :: "(http_request \<Rightarrow> route option) \<Rightarrow> bool" where
  "mux_ok sel \<longleftrightarrow> (\<forall>r rt. sel r = Some rt \<longrightarrow> rt \<in> set routes \<and>
     (\<forall>m. rt_method rt = Some m \<longrightarrow> hr_method r = m))"

section \<open>Who reaches what\<close>

text \<open>Handlers that run before anyone has signed in.\<close>

definition open_handlers :: "handler set" where
  "open_handlers = {HLogin, HAuthMethods, HOIDCLogin, HOIDCCallback, AgentConnect, Healthz, CAPubKey, ServeInstall,
     ServeAgentBinary, SPA}"

text \<open>Handlers that change the inventory, users, sessions or hosts, or decide on access.\<close>

definition admin_handlers :: "handler set" where
  "admin_handlers = {HApproveAccess, HDenyAccess, HTerminateSession, HListUsers, HCreateUser, HAccessReview, HSessionReportCSV}"

definition operator_handlers :: "handler set" where
  "operator_handlers = {HCreateServer, HUpdateServer, HDeleteServer, HRotateToken, HSFTPList, HSFTPDownload, HSFTPUpload,
     HCreateGroup, HUpdateGroup, HDeleteGroup, HAddMember, HRemoveMember, HCreateBulk, WsSSH, WsRDP, WsForward}"

definition self_service :: "handler set" where
  "self_service = {HLogout, HMFASetup, HMFAEnable, HMFADisable, HRequestAccess}"

lemma routes_checked:
  "rt \<in> set routes \<Longrightarrow>
     (rt_jwt rt \<or> rt_handler rt \<in> open_handlers \<and> rt_roles rt = None) \<and>
     (rt_handler rt \<in> admin_handlers \<longrightarrow> rt_jwt rt \<and> rt_roles rt = Some [RoleAdmin]) \<and>
     (rt_handler rt \<in> operator_handlers \<longrightarrow> rt_jwt rt \<and> rt_roles rt = Some [RoleAdmin, RoleOperator]) \<and>
     (rt_jwt rt \<and> rt_roles rt = None \<longrightarrow> rt_handler rt \<in> self_service \<or> rt_method rt = Some ''GET'')"
proof -
  have "\<forall>rt \<in> set routes.
     (rt_jwt rt \<or> rt_handler rt \<in> open_handlers \<and> rt_roles rt = None) \<and>
     (rt_handler rt \<in> admin_handlers \<longrightarrow> rt_jwt rt \<and> rt_roles rt = Some [RoleAdmin]) \<and>
     (rt_handler rt \<in> operator_handlers \<longrightarrow> rt_jwt rt \<and> rt_roles rt = Some [RoleAdmin, RoleOperator]) \<and>
     (rt_jwt rt \<and> rt_roles rt = None \<longrightarrow> rt_handler rt \<in> self_service \<or> rt_method rt = Some ''GET'')"
    by (simp add: routes_def public_def sub_def open_handlers_def admin_handlers_def operator_handlers_def self_service_def)
  then show "rt \<in> set routes \<Longrightarrow> ?thesis" by blast
qed

lemma Router_Run:
  assumes "mux_ok sel" "Router sel L secret now r = Run h cl"
  shows "\<exists>rt \<in> set routes. rt_handler rt = h \<and>
    (if rt_jwt rt then \<exists>c. cl = Some c \<and> Parse L secret now (extractToken r) = Some c else cl = None) \<and>
    (case rt_roles rt of None \<Rightarrow> True | Some roles \<Rightarrow> guard roles cl) \<and>
    (\<forall>m. rt_method rt = Some m \<longrightarrow> hr_method r = m)"
proof -
  obtain rt where rt: "sel r = Some rt" "serve_route L secret now rt r = Run h cl"
    using assms(2) by (auto simp: Router_def split: option.splits)
  then have "rt \<in> set routes" "\<forall>m. rt_method rt = Some m \<longrightarrow> hr_method r = m"
    using assms(1) by (auto simp: mux_ok_def)
  moreover have "rt_handler rt = h \<and>
    (if rt_jwt rt then \<exists>c. cl = Some c \<and> Parse L secret now (extractToken r) = Some c else cl = None) \<and>
    (case rt_roles rt of None \<Rightarrow> True | Some roles \<Rightarrow> guard roles cl)"
    using rt(2)
    by (cases "Middleware L secret now r")
       (auto simp: serve_route_def Let_def dest!: MiddlewareD split: if_splits option.splits)
  ultimately show ?thesis by blast
qed

text \<open>C21: Nobody gets past the door without a token: whatever route the router picks, a handler
  other than the public ones runs only with the claims of a token that parses under
  the gateway's secret at that moment.\<close>

theorem no_handler_without_token:
  assumes "mux_ok sel" and "Router sel L secret now r = Run h cl" and "h \<notin> open_handlers"
  shows "\<exists>c. cl = Some c \<and> Parse L secret now (extractToken r) = Some c"
  using Router_Run [OF assms(1,2)] routes_checked assms(3) by (metis (full_types))

text \<open>C22: Roles are enforced: administrative handlers run for administrators only, handlers that
  change the inventory, run commands or open connections for administrators and
  operators only, and whatever an auditor (or a user with an unknown role) reaches is
  a read, a public endpoint or self-service.\<close>

theorem roles_enforced:
  assumes "mux_ok sel" and "Router sel L secret now r = Run h (Some c)"
  shows "(h \<in> admin_handlers \<longrightarrow> cl_Role c = RoleAdmin) \<and>
    (h \<in> operator_handlers \<longrightarrow> cl_Role c = RoleAdmin \<or> cl_Role c = RoleOperator) \<and>
    (cl_Role c \<noteq> RoleAdmin \<and> cl_Role c \<noteq> RoleOperator \<longrightarrow> h \<in> self_service \<or> hr_method r = ''GET'')"
proof -
  obtain rt where rt: "rt \<in> set routes" "rt_handler rt = h" "rt_jwt rt"
      "case rt_roles rt of None \<Rightarrow> True | Some roles \<Rightarrow> guard roles (Some c)"
      "\<forall>m. rt_method rt = Some m \<longrightarrow> hr_method r = m"
    using Router_Run [OF assms] by (auto split: if_splits)
  have "rt_roles rt = None \<or> rt_roles rt = Some [RoleAdmin] \<or> rt_roles rt = Some [RoleAdmin, RoleOperator]"
  proof -
    have "\<forall>rt \<in> set routes. rt_roles rt = None \<or> rt_roles rt = Some [RoleAdmin] \<or> rt_roles rt = Some [RoleAdmin, RoleOperator]"
      by (simp add: routes_def public_def sub_def)
    with rt(1) show ?thesis by blast
  qed
  with rt routes_checked [OF rt(1)] show ?thesis
    by (auto simp: guard_def)
qed

text \<open>A router that knows three routes, for the witnesses.\<close>

definition demo_sel :: "http_request \<Rightarrow> route option" where
  "demo_sel r =
     (if hr_method r = ''POST'' then Some (adminOnly ''POST'' ''/access/requests/{id}/approve'' HApproveAccess)
      else if hr_method r = ''GET'' then Some (ws (Some [RoleAdmin, RoleOperator]) ''GET'' ''/ssh/{server_id}'' WsSSH)
      else None)"

lemma demo_mux_ok: "mux_ok demo_sel"
  by (auto simp: mux_ok_def demo_sel_def routes_def sub_def split: if_splits)

definition demo_request :: "string \<Rightarrow> string \<Rightarrow> http_request" where
  "demo_request m role = \<lparr>hr_method = m, hr_Authorization = [], hr_token = ''t.'' @ role\<rparr>"

lemma demo_parse: "Parse toy_jwt ''k'' 0 (''t.'' @ role) = Some \<lparr>cl_UserID = ''u1'', cl_Username = ''bob'', cl_Role = role\<rparr>"
  by (simp add: Parse_def jwt_times_ok_def toy_jwt_def HasPrefix_def TrimPrefix_def toy_payload_def)

lemma demo_extract: "extractToken (demo_request m role) = ''t.'' @ role"
  by (simp add: extractToken_def demo_request_def HasPrefix_def)

theorem no_handler_without_token_witness:
  "Router demo_sel toy_jwt ''k'' 0 (demo_request ''GET'' ''operator'') =
     Run WsSSH (Some \<lparr>cl_UserID = ''u1'', cl_Username = ''bob'', cl_Role = ''operator''\<rparr>) \<and>
   (\<exists>c. Parse toy_jwt ''k'' 0 (extractToken (demo_request ''GET'' ''operator'')) = Some c)"
proof -
  have run: "Router demo_sel toy_jwt ''k'' 0 (demo_request ''GET'' ''operator'') =
     Run WsSSH (Some \<lparr>cl_UserID = ''u1'', cl_Username = ''bob'', cl_Role = ''operator''\<rparr>)"
    using demo_parse [of "''operator''"] demo_extract [of "''GET''" "''operator''"]
    by (simp add: Router_def demo_sel_def demo_request_def serve_route_def sub_def Middleware_def Let_def guard_def
        RoleOperator_def RoleAdmin_def)
  from no_handler_without_token [OF demo_mux_ok run] run show ?thesis by (auto simp: open_handlers_def)
qed

theorem roles_enforced_witness:
  "Router demo_sel toy_jwt ''k'' 0 (demo_request ''POST'' ''admin'') =
     Run HApproveAccess (Some \<lparr>cl_UserID = ''u1'', cl_Username = ''bob'', cl_Role = ''admin''\<rparr>) \<and> ''admin'' = RoleAdmin"
proof -
  have run: "Router demo_sel toy_jwt ''k'' 0 (demo_request ''POST'' ''admin'') =
     Run HApproveAccess (Some \<lparr>cl_UserID = ''u1'', cl_Username = ''bob'', cl_Role = ''admin''\<rparr>)"
    using demo_parse [of "''admin''"] demo_extract [of "''POST''" "''admin''"]
    by (simp add: Router_def demo_sel_def demo_request_def serve_route_def sub_def Middleware_def Let_def guard_def
        RoleAdmin_def)
  from roles_enforced [OF demo_mux_ok run] run show ?thesis by (simp add: admin_handlers_def)
qed

end
