(* ===== verification/GoStd.thy ===== *)
theory GoStd
  imports Prelude
begin

text \<open>
  Further parts of the Go standard library that the modelled code calls: the UTF-8
  coercion \<^verbatim>\<open>encoding/json\<close> applies to strings, and the lexical path
  operations of \<^verbatim>\<open>path\<close> and \<^verbatim>\<open>path/filepath\<close> (Unix).
\<close>

section \<open>UTF-8\<close>

definition in_range :: "nat \<Rightarrow> nat \<Rightarrow> char \<Rightarrow> bool" where
  "in_range lo hi c \<longleftrightarrow> lo \<le> of_char c \<and> of_char c \<le> hi"

abbreviation cont :: "char \<Rightarrow> bool" where
  "cont \<equiv> in_range 0x80 0xBF"

text \<open>The number of bytes of the valid rune a string starts with, 0 if there is none
  (\<^verbatim>\<open>utf8.DecodeRuneInString\<close> returns \<^verbatim>\<open>(RuneError, 1)\<close>).\<close>

definition rune_len :: "string \<Rightarrow> nat" where
  "rune_len s =
     (case s of
        [] \<Rightarrow> 0
      | a # s1 \<Rightarrow>
          if in_range 0 0x7F a then 1
          else if in_range 0xC2 0xDF a then
            (case s1 of b # _ \<Rightarrow> if cont b then 2 else 0 | _ \<Rightarrow> 0)
          else if in_range 0xE0 0xEF a then
            (case s1 of
               b # c # _ \<Rightarrow>
                 if cont c \<and> in_range (if a = CHR 0xE0 then 0xA0 else 0x80)
                                        (if a = CHR 0xED then 0x9F else 0xBF) b then 3 else 0
             | _ \<Rightarrow> 0)
          else if in_range 0xF0 0xF4 a then
            (case s1 of
               b # c # d # _ \<Rightarrow>
                 if cont c \<and> cont d \<and> in_range (if a = CHR 0xF0 then 0x90 else 0x80)
                                                  (if a = CHR 0xF4 then 0x8F else 0xBF) b then 4 else 0
             | _ \<Rightarrow> 0)
          else 0)"

lemma drop_shorter: "s \<noteq> [] \<Longrightarrow> 0 < n \<Longrightarrow> length (drop n s) < length s"
  by (cases s) auto

text \<open>
  What a string becomes when it goes through \<^verbatim>\<open>json.Marshal\<close> and back: every byte
  that does not belong to a valid rune is replaced by U+FFFD.
\<close>

function json_text :: "string \<Rightarrow> string" where
  "json_text s =
     (if s = [] then []
      else if rune_len s = 0 then [CHR 0xEF, CHR 0xBF, CHR 0xBD] @ json_text (tl s)
      else take (rune_len s) s @ json_text (drop (rune_len s) s))"
  by pat_completeness auto
termination
  by (relation "measure length") (simp_all add: drop_shorter [simplified])

declare json_text.simps [simp del]

function valid_utf8 :: "string \<Rightarrow> bool" where
  "valid_utf8 s =
     (if s = [] then True else if rune_len s = 0 then False else valid_utf8 (drop (rune_len s) s))"
  by pat_completeness auto
termination
  by (relation "measure length") (simp_all add: drop_shorter [simplified])

declare valid_utf8.simps [simp del]

lemma json_text_Nil [simp]: "json_text [] = []"
  by (simp add: json_text.simps)

lemma json_text_valid: "valid_utf8 s \<Longrightarrow> json_text s = s"
proof (induction s rule: valid_utf8.induct)
  case (1 s)
  then show ?case
    by (cases "s = []") (auto simp: json_text.simps [of s] valid_utf8.simps [of s])
qed

lemma rune_len_ascii: "in_range 0 0x7F c \<Longrightarrow> rune_len (c # s) = 1"
  by (simp add: rune_len_def)

lemma valid_utf8_ascii: "list_all (in_range 0 0x7F) s \<Longrightarrow> valid_utf8 s"
proof (induction s)
  case Nil
  show ?case by (subst valid_utf8.simps) simp
next
  case (Cons c s)
  then show ?case by (subst valid_utf8.simps) (simp add: rune_len_ascii)
qed

text \<open>A rune cut by a read boundary does not survive: the two halves are replaced.\<close>

lemma json_text_split_rune:
  "json_text [CHR 0xC3, CHR 0xA9] = [CHR 0xC3, CHR 0xA9]"
  "json_text [CHR 0xC3] @ json_text [CHR 0xA9] =
     [CHR 0xEF, CHR 0xBF, CHR 0xBD, CHR 0xEF, CHR 0xBF, CHR 0xBD]"
  by code_simp+

section \<open>Paths\<close>

text \<open>\<^verbatim>\<open>strings.Split\<close> on a single-byte separator.\<close>

fun split_on :: "char \<Rightarrow> string \<Rightarrow> string list" where
  "split_on sep [] = [[]]"
| "split_on sep (c # s) =
     (if c = sep then [] # split_on sep s
      else case split_on sep s of [] \<Rightarrow> [[c]] | w # ws \<Rightarrow> (c # w) # ws)"

fun join_with :: "string \<Rightarrow> string list \<Rightarrow> string" where
  "join_with sep [] = []"
| "join_with sep [w] = w"
| "join_with sep (w # ws) = w @ sep @ join_with sep ws"

text \<open>\<^verbatim>\<open>path.Clean\<close>: the elements kept so far are the stack, last element first.\<close>

fun clean_elem :: "bool \<Rightarrow> string list \<Rightarrow> string \<Rightarrow> string list" where
  "clean_elem rooted st e =
     (if e = [] \<or> e = ''.'' then st
      else if e = ''..'' then
        (case st of
           [] \<Rightarrow> if rooted then [] else [''..'']
         | t # st' \<Rightarrow> if t = ''..'' then ''..'' # st else st')
      else e # st)"

definition path_clean :: "string \<Rightarrow> string" where
  "path_clean p =
     (let rooted = HasPrefix p ''/'';
          st = foldl (clean_elem rooted) [] (split_on (CHR ''/'') p);
          r = join_with ''/'' (rev st)
      in if rooted then CHR ''/'' # r else if r = [] then ''.'' else r)"

text \<open>\<^verbatim>\<open>path.Join\<close> of two elements, and \<^verbatim>\<open>path.Base\<close>.\<close>

definition path_join :: "string \<Rightarrow> string \<Rightarrow> string" where
  "path_join a b =
     (let es = filter (\<lambda>e. e \<noteq> []) [a, b]
      in if es = [] then [] else path_clean (join_with ''/'' es))"

definition path_base :: "string \<Rightarrow> string" where
  "path_base p =
     (if p = [] then ''.''
      else let q = rev (dropWhile (\<lambda>c. c = CHR ''/'') (rev p))
           in if q = [] then ''/'' else last (split_on (CHR ''/'') q))"

lemma split_on_not_Nil [simp]: "split_on sep s \<noteq> []"
  by (cases s) (auto split: list.split)

lemma split_on_sep_free: "w \<in> set (split_on sep s) \<Longrightarrow> sep \<notin> set w"
proof (induction s arbitrary: w)
  case (Cons c s)
  then show ?case by (cases "split_on sep s") (auto split: if_splits)
qed simp

lemma split_on_free: "sep \<notin> set s \<Longrightarrow> split_on sep s = [s]"
  by (induction s) auto

lemma path_join_example: "path_join ''./recordings'' ''a.cast'' = ''recordings/a.cast''"
  by code_simp

section \<open>More of \<^verbatim>\<open>strings\<close> and \<^verbatim>\<open>strconv\<close>\<close>

text \<open>\<^verbatim>\<open>strings.Fields\<close>: the words between runs of white space.\<close>

fun span_word :: "string \<Rightarrow> string \<times> string" where
  "span_word [] = ([], [])"
| "span_word (c # s) =
     (if list_ex (HasPrefix (c # s)) utf8_spaces then ([], c # s)
      else case span_word s of (w, r) \<Rightarrow> (c # w, r))"

lemma span_word_append: "span_word s = (w, r) \<Longrightarrow> s = w @ r"
  by (induction s arbitrary: w r) (auto split: if_splits prod.splits)

lemma trim_left_stops: "trim_left utf8_spaces s = c # t \<Longrightarrow> \<not> list_ex (HasPrefix (c # t)) utf8_spaces"
  using trim_left_done [of _ utf8_spaces s] utf8_spaces_ends by (auto simp: list_ex_iff)

function Fields :: "string \<Rightarrow> string list" where
  "Fields s =
     (let t = trim_left utf8_spaces s
      in if t = [] then [] else case span_word t of (w, r) \<Rightarrow> w # Fields r)"
  by pat_completeness auto
termination
proof (relation "measure length")
  fix s t w r
  assume a: "t = trim_left utf8_spaces s" "t \<noteq> []" "(w, r) = span_word t"
  obtain c t' where t: "t = c # t'" using a(2) by (cases t) auto
  have "\<not> list_ex (HasPrefix (c # t')) utf8_spaces"
    using trim_left_stops [of s c t'] a(1) t by simp
  then have "fst (span_word (c # t')) \<noteq> []" by (simp split: prod.split)
  then have "w \<noteq> []" using a(3) t by (metis fst_conv)
  moreover have "t = w @ r" using span_word_append a(3) by metis
  moreover have "length t \<le> length s"
    using trim_left_suffix [of utf8_spaces s] a(1) by (simp add: suffix_length_le)
  ultimately show "(r, s) \<in> measure length" by (cases w) auto
qed simp

declare Fields.simps [simp del]

lemma Fields_step: "trim_left utf8_spaces s = t \<Longrightarrow> t \<noteq> [] \<Longrightarrow> span_word t = (w, r) \<Longrightarrow> Fields s = w # Fields r"
  by (subst Fields.simps) (simp add: Let_def)

lemma Fields_Nil: "trim_left utf8_spaces s = [] \<Longrightarrow> Fields s = []"
  by (subst Fields.simps) simp

text \<open>\<^verbatim>\<open>strings.ToLower\<close>, up to runes outside ASCII: the code only looks for ASCII words in the result, and the
  only other runes whose lower case is ASCII are U+0130 and U+212A.\<close>

definition lower_char :: "char \<Rightarrow> char" where
  "lower_char c = (if 65 \<le> (of_char c :: nat) \<and> (of_char c :: nat) \<le> 90 then char_of ((of_char c :: nat) + 32) else c)"

fun ToLower :: "string \<Rightarrow> string" where
  "ToLower [] = []"
| "ToLower (c # s) =
     (if HasPrefix (c # s) [CHR 0xE2, CHR 0x84, CHR 0xAA] then CHR ''k'' # ToLower (drop 2 s)
      else if HasPrefix (c # s) [CHR 0xC4, CHR 0xB0] then CHR ''i'' # ToLower (drop 1 s)
      else lower_char c # ToLower s)"

text \<open>\<^verbatim>\<open>strings.Index\<close>: \<open>None\<close> for -1.\<close>

fun Index :: "string \<Rightarrow> string \<Rightarrow> nat option" where
  "Index [] p = (if p = [] then Some 0 else None)"
| "Index (c # s) p = (if HasPrefix (c # s) p then Some 0 else map_option Suc (Index s p))"

text \<open>\<^verbatim>\<open>strings.SplitN(s, sep, 2)\<close> on a single-byte separator.\<close>

fun split2 :: "char \<Rightarrow> string \<Rightarrow> string list" where
  "split2 sep [] = [[]]"
| "split2 sep (c # s) =
     (if c = sep then [[], s]
      else case split2 sep s of w # ws \<Rightarrow> (c # w) # ws | [] \<Rightarrow> [])"

definition trim_char :: "char \<Rightarrow> string \<Rightarrow> string" where
  "trim_char c s = rev (dropWhile (\<lambda>d. d = c) (rev (dropWhile (\<lambda>d. d = c) s)))"

text \<open>\<^verbatim>\<open>strconv.ParseUint(s, 10, 64)\<close> and \<^verbatim>\<open>strconv.Atoi\<close>: the value the call returns, with whether
  it succeeded.  A syntax error returns 0, a value out of range the nearest bound.\<close>

definition is_digit :: "char \<Rightarrow> bool" where
  "is_digit c \<longleftrightarrow> 48 \<le> (of_char c :: nat) \<and> (of_char c :: nat) \<le> 57"

definition digits_value :: "string \<Rightarrow> nat" where
  "digits_value s = foldl (\<lambda>n c. n * 10 + (of_char c - 48)) 0 s"

definition ParseUint :: "string \<Rightarrow> nat \<times> bool" where
  "ParseUint s =
     (if s = [] \<or> \<not> list_all is_digit s then (0, False)
      else if digits_value s < 2 ^ 64 then (digits_value s, True) else (2 ^ 64 - 1, False))"

definition Atoi :: "string \<Rightarrow> int \<times> bool" where
  "Atoi s =
     (let neg = HasPrefix s ''-''; t = (if neg \<or> HasPrefix s ''+'' then drop 1 s else s); n = int (digits_value t)
      in if t = [] \<or> \<not> list_all is_digit t then (0, False)
         else if neg then (if n \<le> 2 ^ 63 then (- n, True) else (- (2 ^ 63), False))
         else (if n < 2 ^ 63 then (n, True) else (2 ^ 63 - 1, False)))"

lemma split2_length: "split2 sep s \<noteq> [] \<and> length (split2 sep s) \<le> 2"
  by (induction s) (auto split: list.split)

lemma Fields_examples:
  "Fields ''  ab  c '' = [''ab'', ''c'']" "Atoi ''-12'' = (-12, True)" "ParseUint ''x1'' = (0, False)"
  by code_simp+

end
