(* ===== verification/Url.thy ===== *)
theory Url
  imports Codec GoStd
begin

text \<open>
  Percent-encoding as \<^verbatim>\<open>net/url\<close> does it for path segments and query components, and its inverse, the decoding a
  reader of a URL performs.  Used for the enrolment URL of the second factor.
\<close>

section \<open>Escaping\<close>

datatype url_mode = PathSegment | QueryComponent

definition unreserved :: "char \<Rightarrow> bool" where
  "unreserved c \<longleftrightarrow>
     (let k = (of_char c :: nat)
      in 97 \<le> k \<and> k \<le> 122 \<or> 65 \<le> k \<and> k \<le> 90 \<or> 48 \<le> k \<and> k \<le> 57 \<or> c \<in> set ''-_.~'')"

definition shouldEscape :: "url_mode \<Rightarrow> char \<Rightarrow> bool" where
  "shouldEscape m c \<longleftrightarrow> \<not> unreserved c \<and> \<not> (m = PathSegment \<and> c \<in> set ''$&+:=@'')"

definition upperhex :: "nat \<Rightarrow> char" where
  "upperhex k = ''0123456789ABCDEF'' ! k"

definition escape_char :: "url_mode \<Rightarrow> char \<Rightarrow> string" where
  "escape_char m c =
     (if \<not> shouldEscape m c then [c]
      else if m = QueryComponent \<and> c = CHR '' '' then ''+''
      else [CHR ''%'', upperhex (of_char c div 16), upperhex (of_char c mod 16)])"

definition escape :: "url_mode \<Rightarrow> string \<Rightarrow> string" where
  "escape m s = concat (map (escape_char m) s)"

definition PathEscape :: "string \<Rightarrow> string" where
  "PathEscape s = escape PathSegment s"

definition QueryEscape :: "string \<Rightarrow> string" where
  "QueryEscape s = escape QueryComponent s"

text \<open>\<^verbatim>\<open>Values.Encode\<close> on one value per key: sorted by key.\<close>

definition Encode :: "(string \<times> string) list \<Rightarrow> string" where
  "Encode kvs = join_with ''&'' (map (\<lambda>(k, v). QueryEscape k @ ''='' @ QueryEscape v) kvs)"

section \<open>Decoding\<close>

definition unhex :: "char \<Rightarrow> nat option" where
  "unhex c =
     (let k = (of_char c :: nat)
      in if 48 \<le> k \<and> k \<le> 57 then Some (k - 48)
         else if 65 \<le> k \<and> k \<le> 70 then Some (k - 55)
         else if 97 \<le> k \<and> k \<le> 102 then Some (k - 87)
         else None)"

fun unescape :: "url_mode \<Rightarrow> string \<Rightarrow> string option" where
  "unescape m [] = Some []"
| "unescape m (c # s) =
     (if c = CHR ''%'' then
        (case s of
           a # b # t \<Rightarrow>
             (case (unhex a, unhex b, unescape m t) of
                (Some x, Some y, Some r) \<Rightarrow> Some (char_of (16 * x + y) # r)
              | _ \<Rightarrow> None)
         | _ \<Rightarrow> None)
      else map_option ((#) (if m = QueryComponent \<and> c = CHR ''+'' then CHR '' '' else c)) (unescape m s))"

definition ParseQuery :: "string \<Rightarrow> (string option \<times> string option) list" where
  "ParseQuery q =
     map (\<lambda>kv. case split2 (CHR ''='') kv of
                 k # v # _ \<Rightarrow> (unescape QueryComponent k, unescape QueryComponent v)
               | k # [] \<Rightarrow> (unescape QueryComponent k, Some [])
               | [] \<Rightarrow> (Some [], Some []))
       (split_on (CHR ''&'') q)"

section \<open>Decoding undoes escaping\<close>

lemma unhex_upperhex: "k < 16 \<Longrightarrow> unhex (upperhex k) = Some k"
proof -
  have "\<forall>k \<in> set [0..<16]. unhex (upperhex k) = Some k" by code_simp
  then show "k < 16 \<Longrightarrow> unhex (upperhex k) = Some k" by simp
qed

lemma not_escaped: "\<not> shouldEscape m c \<Longrightarrow> c \<noteq> CHR ''%'' \<and> (m = QueryComponent \<longrightarrow> c \<noteq> CHR ''+'')"
  by (auto simp: shouldEscape_def unreserved_def Let_def)

lemma unescape_escape_char: "unescape m (escape_char m c @ s) = map_option ((#) c) (unescape m s)"
proof -
  have b: "(of_char c :: nat) div 16 < 16" "(of_char c :: nat) mod 16 < 16" using of_char_bound [of c] by linarith+
  note hex = unhex_upperhex [OF b(1)] unhex_upperhex [OF b(2)]
  have "char_of (16 * (of_char c div 16) + of_char c mod 16 :: nat) = c"
    using mult_div_mod_eq [of 16 "of_char c :: nat"] by (simp only: char_of_char)
  then show ?thesis
    using not_escaped [of m c]
    by (cases "shouldEscape m c"; cases "m = QueryComponent \<and> c = CHR '' ''")
       (auto simp add: escape_char_def hex split: option.split)
qed

lemma unescape_escape [simp]: "unescape m (escape m s) = Some s"
proof (induction s)
  case (Cons c s)
  then show ?case using unescape_escape_char [of m c "escape m s"] by (simp add: escape_def)
qed (simp add: escape_def)

interpretation url: codec "\<lambda>s. True" "escape m" "unescape m" for m
  by unfold_locales simp

text \<open>An escaped component holds none of the characters that structure a query.\<close>

lemma upperhex_unreserved: "k < 16 \<Longrightarrow> unreserved (upperhex k)"
proof -
  have "\<forall>k \<in> set [0..<16]. unreserved (upperhex k)" by code_simp
  then show "k < 16 \<Longrightarrow> unreserved (upperhex k)" by simp
qed

lemma escape_chars:
  assumes "d \<in> set (escape m s)"
  shows "unreserved d \<or> d = CHR ''%'' \<or> d = CHR ''+'' \<or> m = PathSegment \<and> d \<in> set ''$&+:=@''"
proof -
  obtain c where c: "d \<in> set (escape_char m c)" using assms by (auto simp: escape_def)
  have b: "(of_char c :: nat) div 16 < 16" "(of_char c :: nat) mod 16 < 16" using of_char_bound [of c] by linarith+
  show ?thesis
    using c upperhex_unreserved [OF b(1)] upperhex_unreserved [OF b(2)]
    by (auto simp: escape_char_def shouldEscape_def split: if_splits)
qed

lemma escape_separators [simp]:
  "CHR ''?'' \<notin> set (escape m s)" "CHR ''&'' \<notin> set (escape QueryComponent s)" "CHR ''='' \<notin> set (escape QueryComponent s)"
  using escape_chars [of "CHR ''?''" m s] escape_chars [of "CHR ''&''" QueryComponent s] escape_chars [of "CHR ''=''" QueryComponent s]
  by (auto simp: unreserved_def Let_def)

lemma split2_sep: "sep \<notin> set s \<Longrightarrow> split2 sep (s @ sep # t) = [s, t]"
  by (induction s) auto

lemma split_on_join:
  "ws \<noteq> [] \<Longrightarrow> (\<And>w. w \<in> set ws \<Longrightarrow> sep \<notin> set w) \<Longrightarrow> split_on sep (join_with [sep] ws) = ws"
proof (induction ws rule: induct_list012)
  case (3 w v ws)
  have step: "split_on sep (w @ sep # t) = w # split_on sep t" if "sep \<notin> set w" for w t
    using that by (induction w) auto
  show ?case using 3 step [of w] by simp
qed (simp_all add: split_on_free)

lemma ParseQuery_Encode: "kvs \<noteq> [] \<Longrightarrow> ParseQuery (Encode kvs) = map (\<lambda>(k, v). (Some k, Some v)) kvs"
proof -
  assume "kvs \<noteq> []"
  have "split_on (CHR ''&'') (Encode kvs) = map (\<lambda>(k, v). QueryEscape k @ ''='' @ QueryEscape v) kvs"
    unfolding Encode_def by (rule split_on_join) (use \<open>kvs \<noteq> []\<close> in \<open>auto simp: QueryEscape_def\<close>)
  then show ?thesis by (auto simp: ParseQuery_def QueryEscape_def split2_sep)
qed

end
