(* ===== verification/Totp.thy ===== *)
theory Totp
  imports Url
begin

text \<open>
  Time-based one-time passwords (\<^verbatim>\<open>internal/auth/totp.go\<close>).  HMAC-SHA1 is the
  parameter \<open>hmac\<close> (key, message), of which the code relies on the 20-byte result;
  the random bytes of a new secret are an argument.
\<close>

unbundle bit_operations_syntax

definition totpDigits :: nat where "totpDigits = 6"
definition totpStep :: nat where "totpStep = 30"

definition hmac_ok :: "(string \<Rightarrow> string \<Rightarrow> string) \<Rightarrow> bool" where
  "hmac_ok hmac \<longleftrightarrow> (\<forall>k m. length (hmac k m) = 20)"

text \<open>\<^verbatim>\<open>strings.TrimRight(s, "=")\<close>\<close>

definition TrimRightEq :: "string \<Rightarrow> string" where
  "TrimRightEq s = rev (dropWhile (\<lambda>c. c = CHR ''='') (rev s))"

definition GenerateTOTPSecret :: "string option \<Rightarrow> string option" where
  "GenerateTOTPSecret rnd = map_option (\<lambda>buf. TrimRightEq (b32_EncodeToString buf)) rnd"

text \<open>\<^verbatim>\<open>strings.ToUpper\<close> on the ASCII strings a secret consists of.\<close>

definition ToUpper :: "string \<Rightarrow> string" where
  "ToUpper s = map (\<lambda>c. if 97 \<le> (of_char c :: nat) \<and> (of_char c :: nat) \<le> 122
                        then char_of ((of_char c :: nat) - 32) else c) s"

definition padBase32 :: "string \<Rightarrow> string" where
  "padBase32 s0 =
     (let s = ToUpper (TrimSpace s0); m = length s mod 8
      in if m \<noteq> 0 then s @ replicate (8 - m) (CHR ''='') else s)"

text \<open>The 64-bit counter, its eight big-endian bytes, and the truncation to 31 bits.\<close>

definition totp_counter :: "gotime \<Rightarrow> 64 word" where
  "totp_counter t = word_of_int (Unix t) div of_nat totpStep"

definition PutUint64 :: "64 word \<Rightarrow> string" where
  "PutUint64 c = chars (to_digits 256 8 (unat c))"

definition byte_at :: "string \<Rightarrow> nat \<Rightarrow> 8 word" where
  "byte_at s i = of_nat (of_char (s ! i))"

definition truncate_sum :: "string \<Rightarrow> 32 word" where
  "truncate_sum mac =
     (let offset = unat (byte_at mac (length mac - 1) AND 0x0f)
      in push_bit 24 (ucast (byte_at mac offset AND 0x7f)) OR
         push_bit 16 (ucast (byte_at mac (offset + 1))) OR
         push_bit 8 (ucast (byte_at mac (offset + 2))) OR
         ucast (byte_at mac (offset + 3)))"

text \<open>\<^verbatim>\<open>%06d\<close>\<close>

definition six_digits :: "nat \<Rightarrow> string" where
  "six_digits n = (let s = nat_to_string n in replicate (6 - length s) (CHR ''0'') @ s)"

definition TOTPCode :: "(string \<Rightarrow> string \<Rightarrow> string) \<Rightarrow> string \<Rightarrow> gotime \<Rightarrow> string option" where
  "TOTPCode hmac secret t =
     (case b32_DecodeString (padBase32 secret) of
        None \<Rightarrow> None
      | Some key \<Rightarrow> Some (six_digits (unat (truncate_sum (hmac key (PutUint64 (totp_counter t))) mod 1000000))))"

definition ValidateTOTP :: "(string \<Rightarrow> string \<Rightarrow> string) \<Rightarrow> gotime \<Rightarrow> string \<Rightarrow> string \<Rightarrow> bool" where
  "ValidateTOTP hmac now secret code0 =
     (let code = TrimSpace code0
      in if length code \<noteq> totpDigits then False
         else list_ex (\<lambda>skew. TOTPCode hmac secret (now + skew) = Some code)
                [0, - int totpStep * Second, int totpStep * Second])"

text \<open>\<open>OTPAuthURL\<close>: \<^verbatim>\<open>Encode\<close> sorts the keys.\<close>

definition OTPAuthURL :: "string \<Rightarrow> string \<Rightarrow> string \<Rightarrow> string" where
  "OTPAuthURL issuer account secret =
     ''otpauth://totp/'' @ PathEscape (issuer @ '':'' @ account) @ ''?'' @
     Encode [(''algorithm'', ''SHA1''), (''digits'', nat_to_string totpDigits), (''issuer'', issuer),
             (''period'', nat_to_string totpStep), (''secret'', secret)]"

section \<open>Decimal digits\<close>

lemma nat_to_string_digits: "n < 10 ^ Suc k \<Longrightarrow> 0 < length (nat_to_string n) \<and> length (nat_to_string n) \<le> Suc k \<and>
    (\<forall>c \<in> set (nat_to_string n). c \<in> set ''0123456789'')"
proof (induction k arbitrary: n)
  case 0
  have "digit n \<in> set ''0123456789''" if "n < 10" for n
  proof -
    have "\<forall>n \<in> set [0..<10]. digit n \<in> set ''0123456789''" by code_simp
    with that show ?thesis by auto
  qed
  with 0 show ?case by (subst (1 2 3) nat_to_string.simps) simp
next
  case (Suc k)
  have d: "digit n \<in> set ''0123456789''" if "n < 10" for n
  proof -
    have "\<forall>n \<in> set [0..<10]. digit n \<in> set ''0123456789''" by code_simp
    with that show ?thesis by auto
  qed
  show ?case
  proof (cases "n < 10")
    case True
    with d show ?thesis by (subst (1 2 3) nat_to_string.simps) simp
  next
    case False
    have "n div 10 < 10 ^ Suc k" using Suc.prems by (simp add: less_mult_imp_div_less)
    from Suc.IH [OF this] False d [of "n mod 10"] show ?thesis
      by (subst (1 2 3) nat_to_string.simps) auto
  qed
qed

lemma six_digits_format:
  assumes "n < 1000000"
  shows "length (six_digits n) = 6" "set (six_digits n) \<subseteq> set ''0123456789''"
proof -
  have l: "length (nat_to_string n) \<le> 6" "\<forall>c \<in> set (nat_to_string n). c \<in> set ''0123456789''"
    using nat_to_string_digits [of n 5] assms by simp_all
  then show "length (six_digits n) = 6" by (simp add: six_digits_def Let_def)
  have "CHR ''0'' \<in> set ''0123456789''" by simp
  then show "set (six_digits n) \<subseteq> set ''0123456789''"
    using l(2) unfolding six_digits_def Let_def set_append
    by (metis Un_least in_set_replicate subsetI)
qed

lemma TrimSpace_digits: "set s \<subseteq> set ''0123456789'' \<Longrightarrow> TrimSpace s = s"
proof -
  assume s: "set s \<subseteq> set ''0123456789''"
  have "printable c" if "c \<in> set ''0123456789''" for c
    using that by (auto simp: printable_def)
  with s have "printable c" if "c \<in> set s" for c using that by blast
  then show ?thesis by (intro TrimSpace_fix) auto
qed


section \<open>The truncation is the one of RFC 4226\<close>

text \<open>The reference: four bytes at the offset, read as a big-endian number, without the sign bit.\<close>

definition rfc4226_dt :: "string \<Rightarrow> nat" where
  "rfc4226_dt mac =
     (let offset = of_char (last mac) mod 16
      in from_digits 256 (ords (take 4 (drop offset mac))) mod 2 ^ 31)"

lemma unat_byte_at [simp]: "unat (byte_at s i) = of_char (s ! i)"
  by (simp add: byte_at_def unat_of_nat)

lemma low_bits: "unat (b AND 0x7f) = unat (b :: 8 word) mod 128" "unat (b AND 0x0f) = unat (b :: 8 word) mod 16"
proof -
  have m: "(0x7f :: 8 word) = mask 7" "(0x0f :: 8 word) = mask 4" by (simp_all add: mask_eq_exp_minus_1)
  show "unat (b AND 0x7f) = unat b mod 128" "unat (b AND 0x0f) = unat b mod 16"
    unfolding m take_bit_eq_mask [symmetric] unsigned_take_bit_eq by (simp_all add: take_bit_eq_mod)
qed

lemma or_bytes:
  fixes x b c d :: "8 word"
  shows "push_bit 24 (ucast x :: 32 word) OR push_bit 16 (ucast b) OR push_bit 8 (ucast c) OR ucast d =
    push_bit 24 (ucast x) + push_bit 16 (ucast b) + push_bit 8 (ucast c) + ucast d"
proof -
  have 1: "push_bit 8 (ucast c :: 32 word) OR ucast d = push_bit 8 (ucast c) + ucast d"
    by (rule disjunctive_add [symmetric]) (auto simp: bit_simps dest: bit_imp_le_length)
  have 2: "push_bit 16 (ucast b :: 32 word) OR (push_bit 8 (ucast c) OR ucast d) =
      push_bit 16 (ucast b) + (push_bit 8 (ucast c) OR ucast d)"
    by (rule disjunctive_add [symmetric]) (auto simp: bit_simps dest: bit_imp_le_length)
  have 3: "push_bit 24 (ucast x :: 32 word) OR (push_bit 16 (ucast b) OR (push_bit 8 (ucast c) OR ucast d)) =
      push_bit 24 (ucast x) + (push_bit 16 (ucast b) OR (push_bit 8 (ucast c) OR ucast d))"
    by (rule disjunctive_add [symmetric]) (auto simp: bit_simps dest: bit_imp_le_length)
  show ?thesis using 1 2 3 by (simp add: or.assoc add.assoc)
qed

lemma unat_bytes:
  fixes x b c d :: "8 word"
  shows "unat (push_bit 24 (ucast x :: 32 word) + push_bit 16 (ucast b) + push_bit 8 (ucast c) + ucast d) =
    unat x * 2 ^ 24 + unat b * 2 ^ 16 + unat c * 2 ^ 8 + unat d"
proof -
  let ?n = "unat x * 2 ^ 24 + unat b * 2 ^ 16 + unat c * 2 ^ 8 + unat d"
  have u: "ucast y = (of_nat (unat y) :: 32 word)" for y :: "8 word" by simp
  have "push_bit 24 (ucast x :: 32 word) + push_bit 16 (ucast b) + push_bit 8 (ucast c) + ucast d = of_nat ?n"
    unfolding u by (simp add: push_bit_eq_mult)
  moreover have "unat x < 256" "unat b < 256" "unat c < 256" "unat d < 256"
    using unsigned_less [of x] unsigned_less [of b] unsigned_less [of c] unsigned_less [of d] by simp_all
  then have "?n < 2 ^ 32" by simp
  ultimately show ?thesis by (simp only: unat_of_nat) simp
qed

lemma take4: "i + 3 < length xs \<Longrightarrow> take 4 (drop i xs) = [xs ! i, xs ! (i + 1), xs ! (i + 2), xs ! (i + 3)]"
  by (rule nth_equalityI) (auto simp: less_Suc_eq numeral_eq_Suc)

lemma big_endian4:
  fixes a b c d :: nat
  assumes "b < 256" "c < 256" "d < 256"
  shows "(((a * 256 + b) * 256 + c) * 256 + d) mod 2 ^ 31 = a mod 128 * 2 ^ 24 + b * 2 ^ 16 + c * 2 ^ 8 + d"
proof -
  let ?m = "b * 65536 + c * 256 + d"
  have "?m < 16777216" using assms by simp
  then have "(a * 16777216 + ?m) mod 2147483648 = a mod 128 * 16777216 + ?m"
    using mod_mult2_eq [of "a * 16777216 + ?m" 16777216 128] by simp
  then show ?thesis by (simp add: algebra_simps)
qed

lemma truncate_sum_rfc:
  assumes "length mac = 20"
  shows "unat (truncate_sum mac) = rfc4226_dt mac"
proof -
  define i where "i = (of_char (last mac) :: nat) mod 16"
  have o: "unat (byte_at mac (length mac - 1) AND 0x0f) = i"
    using assms last_conv_nth [of mac] by (cases "mac = []") (simp_all add: low_bits i_def)
  have "i + 3 < length mac" using assms by (simp add: i_def)
  from take4 [OF this] have "rfc4226_dt mac =
      (((of_char (mac ! i) * 256 + of_char (mac ! (i + 1))) * 256 + of_char (mac ! (i + 2))) * 256 + of_char (mac ! (i + 3))) mod 2 ^ 31"
    by (simp add: rfc4226_dt_def Let_def i_def [symmetric] from_digits_def ords_def)
  also have "\<dots> = of_char (mac ! i) mod 128 * 2 ^ 24 + of_char (mac ! (i + 1)) * 2 ^ 16 +
      of_char (mac ! (i + 2)) * 2 ^ 8 + of_char (mac ! (i + 3))"
    by (rule big_endian4 [OF of_char_bound of_char_bound of_char_bound])
  also have "\<dots> = unat (truncate_sum mac)"
    unfolding truncate_sum_def Let_def o
    unfolding or_bytes unat_bytes low_bits unat_byte_at by simp
  finally show ?thesis by simp
qed

section \<open>Codes and the acceptance window\<close>

text \<open>RFC 6238: the code of a key at a number of 30-second steps.\<close>

definition rfc6238 :: "(string \<Rightarrow> string \<Rightarrow> string) \<Rightarrow> string \<Rightarrow> nat \<Rightarrow> string" where
  "rfc6238 hmac key steps = six_digits (rfc4226_dt (hmac key (chars (to_digits 256 8 steps))) mod 10 ^ 6)"

text \<open>Times after 1970 whose seconds fit the counter; the word does not wrap there.\<close>

definition unix_time :: "gotime \<Rightarrow> bool" where
  "unix_time t \<longleftrightarrow> 0 \<le> t \<and> Unix t < 2 ^ 63"

lemma Unix_add: "Unix (t + k * Second) = Unix t + k"
  by (simp add: Unix_def)

lemma Unix_mono: "s \<le> t \<Longrightarrow> Unix s \<le> Unix t"
  by (simp add: Unix_def zdiv_mono1)

lemma unix_timeI: "0 \<le> s \<Longrightarrow> s \<le> t \<Longrightarrow> unix_time t \<Longrightarrow> unix_time s"
  using Unix_mono [of s t] by (simp add: unix_time_def)

lemma steps_adjacent:
  fixes x y :: nat
  assumes "x \<le> y + 30" "y \<le> x + 30"
  shows "x div 30 \<in> {y div 30 - 1, y div 30, y div 30 + 1}"
proof -
  have "(z + 30) div 30 = z div 30 + 1" for z :: nat by simp
  then have "x div 30 \<le> y div 30 + 1" "y div 30 \<le> x div 30 + 1"
    using div_le_mono [OF assms(1), of 30] div_le_mono [OF assms(2), of 30] by metis+
  then have "x div 30 = y div 30 - 1 \<or> x div 30 = y div 30 \<or> x div 30 = y div 30 + 1" by linarith
  then show ?thesis by blast
qed

lemma unat_totp_counter:
  assumes "unix_time t"
  shows "unat (totp_counter t) = nat (Unix t) div 30"
proof -
  have "0 \<le> Unix t" "Unix t < 2 ^ 64"
    using assms by (auto simp: unix_time_def Unix_def)
  then have "unat (word_of_int (Unix t) :: 64 word) = nat (Unix t)"
    by (simp add: unsigned_of_int take_bit_int_eq_self)
  then show ?thesis
    by (simp add: totp_counter_def totpStep_def unat_div)
qed

lemma TOTPCode_rfc:
  assumes "hmac_ok hmac" "unix_time t" "b32_DecodeString (padBase32 secret) = Some key"
  shows "TOTPCode hmac secret t = Some (rfc6238 hmac key (nat (Unix t) div 30))"
proof -
  have "unat (truncate_sum (hmac key m) mod 1000000) = rfc4226_dt (hmac key m) mod 10 ^ 6" for m
    using assms(1) truncate_sum_rfc [of "hmac key m"] by (simp add: hmac_ok_def unat_mod)
  then show ?thesis
    using assms unat_totp_counter [OF assms(2)] by (simp add: TOTPCode_def rfc6238_def PutUint64_def)
qed

lemma rfc6238_format: "length (rfc6238 hmac key n) = 6" "TrimSpace (rfc6238 hmac key n) = rfc6238 hmac key n"
proof -
  have "rfc4226_dt (hmac key (chars (to_digits 256 8 n))) mod 10 ^ 6 < 1000000" by simp
  note f = six_digits_format [OF this]
  show "length (rfc6238 hmac key n) = 6" "TrimSpace (rfc6238 hmac key n) = rfc6238 hmac key n"
    unfolding rfc6238_def by (rule f(1), rule TrimSpace_digits [OF f(2)])
qed

lemma ValidateTOTP_steps:
  assumes "hmac_ok hmac" "0 \<le> now - 30 * Second" "unix_time (now + 30 * Second)"
    and "b32_DecodeString (padBase32 secret) = Some key"
  shows "ValidateTOTP hmac now secret code \<longleftrightarrow>
    (\<exists>k \<in> {nat (Unix now) div 30 - 1, nat (Unix now) div 30, nat (Unix now) div 30 + 1}.
       TrimSpace code = rfc6238 hmac key k)"
proof -
  let ?k = "nat (Unix now) div 30"
  have u: "unix_time now" "unix_time (now - 30 * Second)" "unix_time (now + 30 * Second)"
    using assms(2,3) unix_timeI [of now "now + 30 * Second"] unix_timeI [of "now - 30 * Second" "now + 30 * Second"]
    by simp_all
  have U: "Unix (now + 30 * Second) = Unix now + 30" "Unix (now - 30 * Second) = Unix now - 30"
    using Unix_add [of now 30] Unix_add [of now "-30"] by simp_all
  have "0 \<le> Unix (now - 30 * Second)"
    using assms(2) by (simp add: Unix_def)
  with U have "nat (Unix (now + 30 * Second)) = nat (Unix now) + 30" "nat (Unix (now - 30 * Second)) = nat (Unix now) - 30"
      "30 \<le> nat (Unix now)"
    by linarith+
  then have "nat (Unix (now + 30 * Second)) div 30 = ?k + 1" "nat (Unix (now - 30 * Second)) div 30 = ?k - 1"
    by (simp_all add: le_div_geq)
  with TOTPCode_rfc [OF assms(1) u(1) assms(4)] TOTPCode_rfc [OF assms(1) u(2) assms(4)] TOTPCode_rfc [OF assms(1) u(3) assms(4)]
  show ?thesis
    using rfc6238_format(1) [of hmac key]
    by (auto simp: ValidateTOTP_def Let_def totpDigits_def totpStep_def)
qed


text \<open>C23: One-time passwords are those of RFC 6238 and are accepted with one step of clock skew:
  a code shown at any moment within 30 seconds of the check passes, whatever white
  space was typed around it, and what passes is the six-digit code of the current, the
  previous or the next 30-second step, computed as the standard's truncation says.\<close>

theorem totp_window:
  assumes "hmac_ok hmac" and "b32_DecodeString (padBase32 secret) = Some key"
    and "30 * Second \<le> now" and "unix_time (now + 30 * Second)"
  shows "(ValidateTOTP hmac now secret code \<longleftrightarrow>
       (\<exists>k \<in> {nat (Unix now) div 30 - 1, nat (Unix now) div 30, nat (Unix now) div 30 + 1}.
          TrimSpace code = rfc6238 hmac key k)) \<and>
    (\<bar>t - now\<bar> \<le> 30 * Second \<longrightarrow> TOTPCode hmac secret t = Some c \<longrightarrow> TrimSpace code = c \<longrightarrow>
       ValidateTOTP hmac now secret code)"
proof -
  note v = ValidateTOTP_steps [OF assms(1) _ assms(4,2), of code]
  have "ValidateTOTP hmac now secret code"
    if t: "\<bar>t - now\<bar> \<le> 30 * Second" "TOTPCode hmac secret t = Some c" "TrimSpace code = c"
  proof -
    have b: "now - 30 * Second \<le> t" "t \<le> now + 30 * Second" using t(1) by linarith+
    have ut: "unix_time t"
      using b assms(3,4) by (intro unix_timeI [of t "now + 30 * Second"]) auto
    have "Unix now - 30 \<le> Unix t" "Unix t \<le> Unix now + 30"
      using Unix_mono [OF b(1)] Unix_mono [OF b(2)] Unix_add [of now 30] Unix_add [of now "-30"] by simp_all
    then have "nat (Unix t) div 30 \<in> {nat (Unix now) div 30 - 1, nat (Unix now) div 30, nat (Unix now) div 30 + 1}"
      by (intro steps_adjacent) linarith+
    moreover have "c = rfc6238 hmac key (nat (Unix t) div 30)"
      using t(2) TOTPCode_rfc [OF assms(1) ut assms(2)] by simp
    ultimately show ?thesis using v assms(3) t(3) by auto
  qed
  with v assms(3) show ?thesis by auto
qed

lemma b32_Encode_chars:
  "length s mod 5 = 0 \<Longrightarrow> length (b32_EncodeToString s) = 8 * (length s div 5) \<and>
     (\<forall>c \<in> set (b32_EncodeToString s). c \<in> set alphabet32)"
proof (induction s rule: b32_EncodeToString.induct)
  case (1 a b c d e r)
  have "\<forall>n \<in> set (b32_group (ords [a, b, c, d, e])). b32_char n \<in> set alphabet32"
  proof
    fix n assume "n \<in> set (b32_group (ords [a, b, c, d, e]))"
    then have "n < 32" by (rule b32_group_bound)
    moreover have "length alphabet32 = 32" by code_simp
    ultimately have "n < length alphabet32" by simp
    then show "b32_char n \<in> set alphabet32" unfolding b32_char_def by (rule nth_mem)
  qed
  moreover have "length (b32_group (ords [a, b, c, d, e])) = 8" by (simp add: b32_group_def)
  ultimately show ?case using 1 by auto
qed auto

lemma alphabet32_chars:
  "\<forall>c \<in> set alphabet32. printable c \<and> c \<noteq> CHR ''='' \<and> c \<noteq> CHR 10 \<and> c \<noteq> CHR 13 \<and> ToUpper [c] = [c]"
  by (simp add: alphabet32_def printable_def ToUpper_def)

lemma generated_key:
  assumes "length buf = 20"
  shows "\<exists>secret. GenerateTOTPSecret (Some buf) = Some secret \<and> b32_DecodeString (padBase32 secret) = Some buf"
proof -
  let ?s = "b32_EncodeToString buf"
  have l: "length ?s = 32" and c: "\<forall>c \<in> set ?s. c \<in> set alphabet32"
    using b32_Encode_chars [of buf] assms by simp_all
  then have ch: "\<forall>c \<in> set ?s. printable c \<and> c \<noteq> CHR ''='' \<and> c \<noteq> CHR 10 \<and> c \<noteq> CHR 13 \<and> ToUpper [c] = [c]"
    using alphabet32_chars by blast
  have "?s \<noteq> []" using l by auto
  then have 1: "TrimRightEq ?s = ?s"
    using ch by (cases ?s rule: rev_cases) (auto simp: TrimRightEq_def)
  have 2: "TrimSpace ?s = ?s"
    using ch by (intro TrimSpace_fix) auto
  have 3: "ToUpper ?s = ?s"
    using ch by (auto simp: ToUpper_def intro!: map_idI)
  have 4: "strip_newlines ?s = ?s"
    using ch by (auto simp: strip_newlines_def filter_id_conv)
  have 5: "b32_decode (length ?s) ?s = Some buf"
    using b32_decode_encode [of buf "length ?s"] assms l by simp
  have "padBase32 ?s = ?s" using 2 3 l by (simp add: padBase32_def)
  with 1 4 5 show ?thesis by (simp add: GenerateTOTPSecret_def b32_DecodeString_def)
qed

text \<open>Every generated secret can be used: the base-32 text stored for 20 random bytes decodes,
  when a code is computed from it, to exactly those bytes.\<close>

theorem generated_secret_decodes:
  assumes "length buf = 20"
  shows "\<exists>secret. GenerateTOTPSecret (Some buf) = Some secret \<and> b32_DecodeString (padBase32 secret) = Some buf"
  using assms by (rule generated_key)

text \<open>A keyed function with 20-byte results for the witnesses.\<close>

definition toy_hmac :: "string \<Rightarrow> string \<Rightarrow> string" where
  "toy_hmac k m = replicate 19 (hd (k @ m @ [CHR 7])) @ [CHR 7]"

lemma toy_hmac_ok: "hmac_ok toy_hmac"
  by (simp add: hmac_ok_def toy_hmac_def)

definition toy_seed :: string where
  "toy_seed = replicate 20 (CHR ''x'')"

theorem generated_secret_decodes_witness:
  "\<exists>secret. GenerateTOTPSecret (Some toy_seed) = Some secret \<and> b32_DecodeString (padBase32 secret) = Some toy_seed"
  using generated_secret_decodes [of toy_seed] by (simp add: toy_seed_def)

theorem totp_window_witness:
  "\<exists>secret code. TOTPCode toy_hmac secret (60 * Second) = Some code \<and> ValidateTOTP toy_hmac (75 * Second) secret code"
proof -
  have "length toy_seed = 20" by (simp add: toy_seed_def)
  then obtain secret where key: "b32_DecodeString (padBase32 secret) = Some toy_seed"
    using generated_key by blast
  have u: "unix_time (75 * Second + 30 * Second)" "unix_time (60 * Second)" by (simp_all add: unix_time_def Unix_def)
  obtain code where c: "TOTPCode toy_hmac secret (60 * Second) = Some code" and "TrimSpace code = code"
    using TOTPCode_rfc [OF toy_hmac_ok u(2) key] rfc6238_format(2) by auto
  with totp_window [OF toy_hmac_ok key _ u(1), of code "60 * Second" code] show ?thesis by auto
qed

section \<open>The enrolment URL\<close>

text \<open>How an authenticator reads the URL: the label and the parameters.\<close>

definition read_otpauth :: "string \<Rightarrow> (string option \<times> (string option \<times> string option) list) option" where
  "read_otpauth url =
     (if HasPrefix url ''otpauth://totp/''
      then (case split2 (CHR ''?'') (drop (length ''otpauth://totp/'') url) of
              label # q # _ \<Rightarrow> Some (unescape PathSegment label, ParseQuery q)
            | _ \<Rightarrow> None)
      else None)"

text \<open>Whatever the name of the account holds, an authenticator that scans the code reads the issuer and account, the
  secret as it was stored, and the parameters the gateway checks codes with.\<close>

theorem otpauth_roundtrip:
  "read_otpauth (OTPAuthURL issuer account secret) =
     Some (Some (issuer @ '':'' @ account),
       [(Some ''algorithm'', Some ''SHA1''), (Some ''digits'', Some ''6''), (Some ''issuer'', Some issuer),
        (Some ''period'', Some ''30''), (Some ''secret'', Some secret)])"
proof -
  have d: "nat_to_string totpDigits = ''6''" "nat_to_string totpStep = ''30''" by code_simp+
  have "split2 (CHR ''?'') (PathEscape l @ CHR ''?'' # q) = [PathEscape l, q]" for l q
    by (rule split2_sep) (simp add: PathEscape_def)
  then show ?thesis
    by (simp add: read_otpauth_def OTPAuthURL_def d HasPrefix_def ParseQuery_Encode PathEscape_def)
qed

end
