(* ===== verification/Users.thy ===== *)
theory Users
  imports Auth Totp
begin

text \<open>
  Accounts (\<^verbatim>\<open>internal/api/users.go\<close>), brute-force detection (\<^verbatim>\<open>internal/api/alerts.go\<close>) and
  single sign-on provisioning (\<^verbatim>\<open>internal/api/oidc.go\<close>).  Password hashing
  (\<^verbatim>\<open>golang.org/x/crypto/bcrypt\<close>), the identity provider and the JWT library are
  parameters.
\<close>

record user =
  us_ID :: string
  us_Username :: string
  us_PasswordHash :: string
  us_Role :: string
  us_MFAEnabled :: bool
  us_TOTPSecret :: "string option"
  us_CreatedAt :: gotime

record accounts =
  ac_users :: "user list"
  ac_fails :: "string \<Rightarrow> int list" \<comment> \<open>the map of \<^verbatim>\<open>bruteForce\<close>; absent is empty\<close>
  ac_audit :: audit_table
  ac_sink :: "sink_event list"
  ac_notifier :: "notifier option"

datatype json_user = JUser (ju_id: string) (ju_username: string) (ju_role: string) (ju_mfa: bool) (ju_created: gotime)

definition marshal_user :: "user \<Rightarrow> json_user" where
  "marshal_user u = JUser (us_ID u) (us_Username u) (us_Role u) (us_MFAEnabled u) (us_CreatedAt u)"

definition find_user :: "string \<Rightarrow> accounts \<Rightarrow> user option" where
  "find_user n s = find (\<lambda>u. us_Username u = n) (ac_users s)"

definition user_by_id :: "string \<Rightarrow> accounts \<Rightarrow> user option" where
  "user_by_id i s = find (\<lambda>u. us_ID u = i) (ac_users s)"

definition update_user :: "string \<Rightarrow> (user \<Rightarrow> user) \<Rightarrow> accounts \<Rightarrow> accounts" where
  "update_user i f s = s\<lparr>ac_users := map (\<lambda>u. if us_ID u = i then f u else u) (ac_users s)\<rparr>"

section \<open>Brute-force detection\<close>

definition bf_window :: duration where "bf_window = 5 * Minute"
definition bf_threshold :: nat where "bf_threshold = 5"

text \<open>\<open>record\<close>: the failures kept for the user, and whether the alert fires.\<close>

definition bf_record :: "string \<Rightarrow> gotime \<Rightarrow> (string \<Rightarrow> int list) \<Rightarrow> bool \<times> (string \<Rightarrow> int list)" where
  "bf_record username now fails =
     (let cutoff = Unix (now - bf_window);
          kept = filter (\<lambda>ts. ts \<ge> cutoff) (fails username) @ [Unix now]
      in (length kept = bf_threshold, fails(username := kept)))"

record login_env =
  le_now :: gotime
  le_query_fails :: bool
  le_append :: append_env
  le_append2 :: append_env

definition audit_event ::
  "(string \<Rightarrow> string) \<Rightarrow> append_env \<Rightarrow> string \<Rightarrow> string \<Rightarrow> accounts \<Rightarrow> accounts" where
  "audit_event sha env et d s =
     (case Append sha env [] [] [] et d (ac_audit s) of
        (_, t, evs) \<Rightarrow> s\<lparr>ac_audit := t, ac_sink := ac_sink s @ evs\<rparr>)"

definition emit_event :: "string \<Rightarrow> string \<Rightarrow> string \<Rightarrow> string \<Rightarrow> accounts \<Rightarrow> accounts" where
  "emit_event ty sev user msg s =
     s\<lparr>ac_notifier := emit \<lparr>ev_Type = ty, ev_Severity = sev, ev_Timestamp = [], ev_User = user, ev_Server = [],
        ev_Session = [], ev_Message = msg, ev_Data = []\<rparr> (ac_notifier s)\<rparr>"

definition em_dash_utf8 :: string where
  "em_dash_utf8 = [CHR 0xE2, CHR 0x80, CHR 0x94]"

definition onLoginFailure :: "(string \<Rightarrow> string) \<Rightarrow> login_env \<Rightarrow> string \<Rightarrow> accounts \<Rightarrow> accounts" where
  "onLoginFailure sha env username s =
     (let s1 = audit_event sha (le_append env) ''login_failed'' username s;
          s2 = emit_event ''auth.login_failed'' ''warning'' username ''bad credentials'' s1;
          (fire, fails) = bf_record username (le_now env) (ac_fails s2);
          s3 = s2\<lparr>ac_fails := fails\<rparr>
      in if fire
         then emit_event ''auth.bruteforce'' ''critical'' username
                (''5+ failed logins within 5 minutes '' @ em_dash_utf8 @ '' possible credential stuffing'')
                (audit_event sha (le_append2 env) ''bruteforce'' username s3)
         else s3)"

section \<open>Signing in\<close>

record crypto =
  cr_compare :: "string \<Rightarrow> string \<Rightarrow> bool" \<comment> \<open>\<^verbatim>\<open>bcrypt.CompareHashAndPassword\<close> accepts (hash, password)\<close>
  cr_hash :: "string \<Rightarrow> string option" \<comment> \<open>\<^verbatim>\<open>bcrypt.GenerateFromPassword\<close>\<close>
  cr_hmac :: "string \<Rightarrow> string \<Rightarrow> string"
  cr_jwt :: jwt_lib
  cr_secret :: string \<comment> \<open>the JWT secret\<close>
  cr_sha :: "string \<Rightarrow> string"

record loginReq =
  lr_Username :: string
  lr_Password :: string
  lr_Code :: string

definition Login ::
  "crypto \<Rightarrow> login_env \<Rightarrow> loginReq option \<Rightarrow> accounts \<Rightarrow> (string \<times> json_user) response \<times> accounts" where
  "Login cr env req s =
     (case req of
        None \<Rightarrow> (writeErr StatusBadRequest ''invalid body'', s)
      | Some r \<Rightarrow>
          if le_query_fails env then (writeErr StatusInternalServerError ''db error'', s)
          else case find_user (lr_Username r) s of
            None \<Rightarrow> (writeErr StatusUnauthorized ''invalid credentials'', s)
          | Some u \<Rightarrow>
              if \<not> cr_compare cr (us_PasswordHash u) (lr_Password r)
              then (writeErr StatusUnauthorized ''invalid credentials'', onLoginFailure (cr_sha cr) env (lr_Username r) s)
              else if us_MFAEnabled u \<and> lr_Code r = []
              then (writeErr StatusUnauthorized ''mfa_required'', s)
              else if us_MFAEnabled u \<and>
                \<not> ValidateTOTP (cr_hmac cr) (le_now env) (case us_TOTPSecret u of None \<Rightarrow> [] | Some k \<Rightarrow> k) (lr_Code r)
              then (writeErr StatusUnauthorized ''invalid mfa code'', s)
              else case Issue (cr_jwt cr) (cr_secret cr) (le_now env) (us_ID u) (us_Username u) (us_Role u) of
                None \<Rightarrow> (writeErr StatusInternalServerError ''token error'', s)
              | Some tok \<Rightarrow> (writeJSON StatusOK (tok, marshal_user u), s))"

section \<open>Second factor enrolment\<close>

text \<open>\<open>MFASetup\<close> stores a fresh secret for the caller; \<open>rnd\<close> is the random source.  The answer holds the secret and
  the URL for an authenticator.\<close>

definition MFASetup :: "string option \<Rightarrow> bool \<Rightarrow> claims \<Rightarrow> accounts \<Rightarrow> (string \<times> string) response \<times> accounts" where
  "MFASetup rnd fails cl s =
     (case GenerateTOTPSecret rnd of
        None \<Rightarrow> (writeErr StatusInternalServerError ''secret error'', s)
      | Some secret \<Rightarrow>
          if fails then (writeErr StatusInternalServerError ''db error'', s)
          else (writeJSON StatusOK (secret, OTPAuthURL ''ShellWarden'' (cl_Username cl) secret),
                update_user (cl_UserID cl) (\<lambda>u. u\<lparr>us_TOTPSecret := Some secret\<rparr>) s))"

text \<open>\<open>MFAEnable\<close> and \<open>MFADisable\<close> are a \<^verbatim>\<open>SELECT\<close> with the check of the code and, without a transaction, an \<^verbatim>\<open>UPDATE\<close>.  The check
  is shared: the answer when it refuses.  What other requests do to the accounts between the two statements is
  the argument \<open>others\<close>.\<close>

definition mfa_check :: "crypto \<Rightarrow> gotime \<Rightarrow> bool \<Rightarrow> claims \<Rightarrow> string \<Rightarrow> accounts \<Rightarrow> 'a response option" where
  "mfa_check cr now fails cl code s =
     (if fails then Some (writeErr StatusInternalServerError ''db error'')
      else case user_by_id (cl_UserID cl) s of
        None \<Rightarrow> Some (writeErr StatusInternalServerError ''db error'')
      | Some u \<Rightarrow>
          (case us_TOTPSecret u of
             None \<Rightarrow> Some (writeErr StatusBadRequest ''invalid code'')
           | Some secret \<Rightarrow>
               if \<not> ValidateTOTP (cr_hmac cr) now secret code
               then Some (writeErr StatusBadRequest ''invalid code'') else None))"

definition mfa_enable_update :: "bool \<Rightarrow> claims \<Rightarrow> accounts \<Rightarrow> unit response \<times> accounts" where
  "mfa_enable_update exec_fails cl s =
     (if exec_fails then (writeErr StatusInternalServerError ''db error'', s)
      else (writeJSON StatusOK (), update_user (cl_UserID cl) (\<lambda>u. u\<lparr>us_MFAEnabled := True\<rparr>) s))"

definition mfa_disable_update :: "bool \<Rightarrow> claims \<Rightarrow> accounts \<Rightarrow> unit response \<times> accounts" where
  "mfa_disable_update exec_fails cl s =
     (if exec_fails then (writeErr StatusInternalServerError ''db error'', s)
      else (writeJSON StatusOK (),
            update_user (cl_UserID cl) (\<lambda>u. u\<lparr>us_MFAEnabled := False, us_TOTPSecret := None\<rparr>) s))"

definition MFAEnable ::
  "crypto \<Rightarrow> gotime \<Rightarrow> bool \<Rightarrow> bool \<Rightarrow> (accounts \<Rightarrow> accounts) \<Rightarrow> claims \<Rightarrow> string \<Rightarrow> accounts \<Rightarrow> unit response \<times> accounts" where
  "MFAEnable cr now fails exec_fails others cl code s =
     (case mfa_check cr now fails cl code s of
        Some e \<Rightarrow> (e, s)
      | None \<Rightarrow> mfa_enable_update exec_fails cl (others s))"

definition MFADisable ::
  "crypto \<Rightarrow> gotime \<Rightarrow> bool \<Rightarrow> bool \<Rightarrow> (accounts \<Rightarrow> accounts) \<Rightarrow> claims \<Rightarrow> string \<Rightarrow> accounts \<Rightarrow> unit response \<times> accounts" where
  "MFADisable cr now fails exec_fails others cl code s =
     (case mfa_check cr now fails cl code s of
        Some e \<Rightarrow> (e, s)
      | None \<Rightarrow> mfa_disable_update exec_fails cl (others s))"

section \<open>Users\<close>

definition ListUsers :: "user rows \<Rightarrow> json_user list response" where
  "ListUsers q =
     (case q of
        QueryErr \<Rightarrow> writeErr StatusInternalServerError ''db error''
      | Rows rs _ \<Rightarrow>
          (case collect (\<lambda>u. JUser (us_ID u) (us_Username u) (us_Role u) False (us_CreatedAt u)) rs of
             None \<Rightarrow> writeErr StatusInternalServerError ''scan error''
           | Some xs \<Rightarrow> writeJSON StatusOK xs))"

text \<open>The constraints the schema puts on the table: the primary key and the unique name.\<close>

definition users_constraints :: "user \<Rightarrow> accounts \<Rightarrow> bool" where
  "users_constraints u s \<longleftrightarrow> us_ID u \<notin> us_ID ` set (ac_users s) \<and> us_Username u \<notin> us_Username ` set (ac_users s)"

text \<open>The \<^verbatim>\<open>INSERT\<close>: it fails when the database does or when the row violates a constraint.\<close>

definition insert_user :: "string \<Rightarrow> gotime \<Rightarrow> bool \<Rightarrow> string \<Rightarrow> string \<Rightarrow> string \<Rightarrow> accounts \<Rightarrow> accounts option" where
  "insert_user i now fails n h role s =
     (let u = \<lparr>us_ID = i, us_Username = n, us_PasswordHash = h, us_Role = role, us_MFAEnabled = False,
               us_TOTPSecret = None, us_CreatedAt = now\<rparr>
      in if fails \<or> \<not> users_constraints u s then None else Some (s\<lparr>ac_users := ac_users s @ [u]\<rparr>))"

definition CreateUser ::
  "crypto \<Rightarrow> string \<Rightarrow> gotime \<Rightarrow> bool \<Rightarrow> (string \<times> string \<times> string) option \<Rightarrow> accounts \<Rightarrow> json_user response \<times> accounts" where
  "CreateUser cr i now fails req s =
     (case req of
        None \<Rightarrow> (writeErr StatusBadRequest ''username and password required'', s)
      | Some (n, pw, role0) \<Rightarrow>
          if n = [] \<or> pw = [] then (writeErr StatusBadRequest ''username and password required'', s)
          else (let role = (if role0 = [] then ''operator'' else role0)
                in case cr_hash cr pw of
                     None \<Rightarrow> (writeErr StatusInternalServerError ''hash error'', s)
                   | Some h \<Rightarrow>
                       (case insert_user i now fails n h role s of
                          None \<Rightarrow> (writeErr StatusBadRequest ''could not create user (duplicate?)'', s)
                        | Some s' \<Rightarrow> (writeJSON StatusCreated (JUser i n role False now), s'))))"

text \<open>\<open>upsertSSOUser\<close>: when the lookup fails for whatever reason the insert is tried.\<close>

definition upsertSSOUser ::
  "bool \<Rightarrow> string \<Rightarrow> gotime \<Rightarrow> bool \<Rightarrow> string \<Rightarrow> string \<Rightarrow> accounts \<Rightarrow> (string \<times> string \<times> string) option \<times> accounts" where
  "upsertSSOUser query_fails i now fails rnd username s =
     (case (if query_fails then None else find_user username s) of
        Some u \<Rightarrow> (Some (us_ID u, us_Username u, us_Role u), s)
      | None \<Rightarrow>
          (case insert_user i now fails username (''!sso-'' @ rnd) ''operator'' s of
             None \<Rightarrow> (None, s)
           | Some s' \<Rightarrow> (Some (i, username, ''operator''), s')))"


text \<open>
  \<open>OIDCCallback\<close>.  The environment holds what the identity provider answers: the
  exchange of the code for an id token (\<open>None\<close>: failed; \<open>Some None\<close>: no id token in
  the answer) and its verified claims (email, preferred user name, subject).
\<close>

record oidc_env =
  oe_enabled :: bool
  oe_cookie :: "string option"
  oe_state :: string
  oe_exchange :: "string option option"
  oe_verify :: "string \<Rightarrow> (string \<times> string \<times> string) option"
  oe_now :: gotime
  oe_query_fails :: bool
  oe_insert_fails :: bool
  oe_id :: string
  oe_rnd :: string

definition sso_username :: "string \<times> string \<times> string \<Rightarrow> string" where
  "sso_username c = (case c of (email, uname, subj) \<Rightarrow> if email \<noteq> [] then email else if uname \<noteq> [] then uname else subj)"

text \<open>The answer is the token and role of the redirect.\<close>

definition OIDCCallback :: "crypto \<Rightarrow> oidc_env \<Rightarrow> accounts \<Rightarrow> (string \<times> string) response \<times> accounts" where
  "OIDCCallback cr env s =
     (if \<not> oe_enabled env then (writeErr StatusNotFound ''oidc not configured'', s)
      else if oe_cookie env \<noteq> Some (oe_state env) then (writeErr StatusBadRequest ''invalid state'', s)
      else case oe_exchange env of
        None \<Rightarrow> (writeErr StatusUnauthorized ''code exchange failed'', s)
      | Some None \<Rightarrow> (writeErr StatusUnauthorized ''no id_token'', s)
      | Some (Some raw) \<Rightarrow>
          (case oe_verify env raw of
             None \<Rightarrow> (writeErr StatusUnauthorized ''id_token verification failed'', s)
           | Some c \<Rightarrow>
               (case upsertSSOUser (oe_query_fails env) (oe_id env) (oe_now env) (oe_insert_fails env) (oe_rnd env)
                       (sso_username c) s of
                  (None, s1) \<Rightarrow> (writeErr StatusInternalServerError ''user provisioning failed'', s1)
                | (Some (i, n, role), s1) \<Rightarrow>
                    (case Issue (cr_jwt cr) (cr_secret cr) (oe_now env) i n role of
                       None \<Rightarrow> (writeErr StatusInternalServerError ''token error'', s1)
                     | Some tok \<Rightarrow> (JSON 302 (tok, role), emit_event ''auth.sso_login'' ''info'' n [] s1)))))"

text \<open>Whether single sign-on is on (\<open>initOIDC\<close>: configured, and the provider answered), what the login page offers, and the
  redirect that starts it: the state is random and goes into a cookie and into the URL.\<close>

definition initOIDC :: "string \<Rightarrow> string \<Rightarrow> bool \<Rightarrow> bool" where
  "initOIDC issuer clientID discovery_ok \<longleftrightarrow> \<not> (issuer = [] \<or> clientID = []) \<and> discovery_ok"

definition AuthMethods :: "bool \<Rightarrow> (string \<times> bool) list response" where
  "AuthMethods enabled = writeJSON StatusOK [(''password'', True), (''oidc'', enabled)]"

definition url_char :: "char \<Rightarrow> char" where
  "url_char c = (if c = CHR ''+'' then CHR ''-'' else if c = CHR ''/'' then CHR ''_'' else c)"

definition randToken :: "string \<Rightarrow> string" where
  "randToken rnd = map url_char (filter (\<lambda>c. c \<noteq> CHR ''='') (b64_EncodeToString rnd))"

text \<open>The answer is the value of the cookie and the state in the redirect.\<close>

definition OIDCLogin :: "bool \<Rightarrow> string \<Rightarrow> (string \<times> string) response" where
  "OIDCLogin enabled rnd =
     (if \<not> enabled then writeErr StatusNotFound ''oidc not configured''
      else let state = randToken rnd in JSON 302 (state, state))"

definition Logout :: "accounts \<Rightarrow> string response \<times> accounts" where
  "Logout s = (writeJSON StatusOK ''ok'', s)"

section \<open>Who gets a token\<close>

lemma Login_token:
  assumes "Login cr env (Some r) s = (JSON 200 j, s')"
  shows "\<exists>u tok. \<not> le_query_fails env \<and> find_user (lr_Username r) s = Some u \<and>
    cr_compare cr (us_PasswordHash u) (lr_Password r) \<and>
    (us_MFAEnabled u \<longrightarrow> lr_Code r \<noteq> [] \<and>
       ValidateTOTP (cr_hmac cr) (le_now env) (case us_TOTPSecret u of None \<Rightarrow> [] | Some k \<Rightarrow> k) (lr_Code r)) \<and>
    Issue (cr_jwt cr) (cr_secret cr) (le_now env) (us_ID u) (us_Username u) (us_Role u) = Some tok \<and>
    j = (tok, marshal_user u) \<and> s' = s"
proof -
  obtain u where u: "\<not> le_query_fails env" "find_user (lr_Username r) s = Some u"
    using assms by (auto simp: Login_def writeErr_def split: if_splits option.splits)
  have c: "cr_compare cr (us_PasswordHash u) (lr_Password r)"
    using assms u by (cases "cr_compare cr (us_PasswordHash u) (lr_Password r)") (simp_all add: Login_def writeErr_def)
  show ?thesis
    using assms u c by (auto simp: Login_def writeErr_def writeJSON_def split: if_splits option.splits)
qed

lemma find_user_name: "find_user n s = Some u \<Longrightarrow> us_Username u = n \<and> u \<in> set (ac_users s)"
  by (auto simp: find_user_def find_Some_iff)

text \<open>C24: A password login succeeds exactly for the right factors: the answer is a token exactly
  when the user exists, the password matches the stored hash, and, where the second
  factor is on, the code is a current one; the token is then issued for that user's id
  and stored role, and nothing is written.\<close>

theorem login_iff_factors:
  "Login cr env (Some r) s = (JSON 200 (tok, j), s') \<longleftrightarrow>
     \<not> le_query_fails env \<and> s' = s \<and>
     (\<exists>u. find_user (lr_Username r) s = Some u \<and> us_Username u = lr_Username r \<and>
        cr_compare cr (us_PasswordHash u) (lr_Password r) \<and>
        (us_MFAEnabled u \<longrightarrow> lr_Code r \<noteq> [] \<and>
           ValidateTOTP (cr_hmac cr) (le_now env) (case us_TOTPSecret u of None \<Rightarrow> [] | Some k \<Rightarrow> k) (lr_Code r)) \<and>
        Issue (cr_jwt cr) (cr_secret cr) (le_now env) (us_ID u) (us_Username u) (us_Role u) = Some tok \<and>
        j = marshal_user u)"
proof
  assume "Login cr env (Some r) s = (JSON 200 (tok, j), s')"
  from Login_token [OF this] show "\<not> le_query_fails env \<and> s' = s \<and>
     (\<exists>u. find_user (lr_Username r) s = Some u \<and> us_Username u = lr_Username r \<and>
        cr_compare cr (us_PasswordHash u) (lr_Password r) \<and>
        (us_MFAEnabled u \<longrightarrow> lr_Code r \<noteq> [] \<and>
           ValidateTOTP (cr_hmac cr) (le_now env) (case us_TOTPSecret u of None \<Rightarrow> [] | Some k \<Rightarrow> k) (lr_Code r)) \<and>
        Issue (cr_jwt cr) (cr_secret cr) (le_now env) (us_ID u) (us_Username u) (us_Role u) = Some tok \<and>
        j = marshal_user u)"
    using find_user_name by auto
qed (auto simp: Login_def writeJSON_def)

text \<open>One user, with the second factor off, and a toy password hash.\<close>

definition toy_crypto :: crypto where
  "toy_crypto = \<lparr>cr_compare = (\<lambda>h p. h = rev p), cr_hash = (\<lambda>p. Some (rev p)), cr_hmac = toy_hmac,
     cr_jwt = toy_jwt, cr_secret = ''k'', cr_sha = id\<rparr>"

definition toy_user :: user where
  "toy_user = \<lparr>us_ID = ''u1'', us_Username = ''bob'', us_PasswordHash = ''wp'', us_Role = ''operator'',
     us_MFAEnabled = False, us_TOTPSecret = None, us_CreatedAt = 0\<rparr>"

definition toy_accounts :: accounts where
  "toy_accounts = \<lparr>ac_users = [toy_user], ac_fails = (\<lambda>_. []), ac_audit = [], ac_sink = [], ac_notifier = None\<rparr>"

definition toy_login_env :: login_env where
  "toy_login_env = \<lparr>le_now = 0, le_query_fails = False, le_append = sample_env 1, le_append2 = sample_env 2\<rparr>"

theorem login_iff_factors_witness:
  "Login toy_crypto toy_login_env (Some \<lparr>lr_Username = ''bob'', lr_Password = ''pw'', lr_Code = []\<rparr>) toy_accounts =
     (JSON 200 (''t.operator'', marshal_user toy_user), toy_accounts)"
  using login_iff_factors [of toy_crypto toy_login_env "\<lparr>lr_Username = ''bob'', lr_Password = ''pw'', lr_Code = []\<rparr>"
      toy_accounts "''t.operator''" "marshal_user toy_user" toy_accounts] toy_issue [of "''operator''"]
  by (simp add: toy_login_env_def toy_accounts_def toy_user_def toy_crypto_def find_user_def)

section \<open>Brute-force alerts\<close>

definition bf_run :: "(string \<times> gotime) list \<Rightarrow> (string \<Rightarrow> int list) \<Rightarrow> (string \<Rightarrow> int list)" where
  "bf_run es fails = fold (\<lambda>(u, t) f. snd (bf_record u t f)) es fails"

text \<open>The failures of a user that lie within the window before a moment.\<close>

definition recent :: "string \<Rightarrow> gotime \<Rightarrow> (string \<times> gotime) list \<Rightarrow> int list" where
  "recent u now es = filter (\<lambda>x. x \<ge> Unix (now - bf_window)) (map (\<lambda>e. Unix (snd e)) (filter (\<lambda>e. fst e = u) es))"

lemma bf_run_recent:
  assumes "sorted_wrt (\<le>) (map snd es)" "\<forall>e \<in> set es. snd e \<le> now"
  shows "filter (\<lambda>x. x \<ge> Unix (now - bf_window)) (bf_run es (\<lambda>_. []) u) = recent u now es"
  using assms
proof (induction es arbitrary: now rule: rev_induct)
  case Nil
  then show ?case by (simp add: bf_run_def recent_def)
next
  case (snoc e es)
  obtain v t where e: "e = (v, t)" by (cases e)
  have sorted: "sorted_wrt (\<le>) (map snd es)" and le: "\<forall>x \<in> set es. snd x \<le> t" "t \<le> now"
    using snoc.prems e by (auto simp: sorted_wrt_append)
  have IH: "filter (\<lambda>x. x \<ge> Unix (now' - bf_window)) (bf_run es (\<lambda>_. []) u) = recent u now' es"
    if "\<forall>x \<in> set es. snd x \<le> now'" for now'
    using snoc.IH [OF sorted that] .
  show ?case
  proof (cases "v = u")
    case False
    then have "bf_run (es @ [e]) (\<lambda>_. []) u = bf_run es (\<lambda>_. []) u"
      by (simp add: bf_run_def e bf_record_def Let_def)
    with IH [of now] le False show ?thesis by (force simp: recent_def e)
  next
    case True
    have "bf_run (es @ [e]) (\<lambda>_. []) u = recent u t es @ [Unix t]"
      using IH [OF le(1)] True by (simp add: bf_run_def e bf_record_def Let_def)
    moreover have "Unix (t - bf_window) \<le> Unix (now - bf_window)"
      using le(2) by (intro Unix_mono) simp
    then have "filter (\<lambda>x. x \<ge> Unix (now - bf_window)) (recent u t es) = recent u now es"
      unfolding recent_def filter_filter by (intro filter_cong) auto
    ultimately show ?thesis using True by (simp add: recent_def e)
  qed
qed

lemma bf_record_fires:
  assumes "sorted_wrt (\<le>) (map snd es)" and "\<forall>e \<in> set es. snd e \<le> now"
  shows "fst (bf_record u now (bf_run es (\<lambda>_. []))) \<longleftrightarrow> length (recent u now es) = 4"
  using bf_run_recent [OF assms, of u] by (simp add: bf_record_def bf_threshold_def Let_def)

text \<open>Which of a sequence of failures raise the alert.\<close>

fun bf_fires :: "(string \<times> gotime) list \<Rightarrow> (string \<Rightarrow> int list) \<Rightarrow> bool list" where
  "bf_fires [] fails = []"
| "bf_fires ((u, t) # es) fails = (case bf_record u t fails of (fire, fails') \<Rightarrow> fire # bf_fires es fails')"

definition alerts :: "string \<Rightarrow> (string \<times> gotime) list \<Rightarrow> (string \<Rightarrow> int list) \<Rightarrow> (string \<times> gotime) list" where
  "alerts u es fails = map fst (filter (\<lambda>(e, fire). fst e = u \<and> fire) (zip es (bf_fires es fails)))"

lemma bf_fires_length [simp]: "length (bf_fires es fails) = length es"
  by (induction es fails rule: bf_fires.induct) (simp_all split: prod.split)

lemma bf_fires_snoc:
  "bf_fires (es @ [(v, t)]) fails = bf_fires es fails @ [fst (bf_record v t (bf_run es fails))]"
  by (induction es fails rule: bf_fires.induct) (auto simp: bf_run_def split: prod.splits)

lemma alerts_snoc:
  "alerts u (es @ [(v, t)]) fails =
     alerts u es fails @ (if v = u \<and> fst (bf_record v t (bf_run es fails)) then [(v, t)] else [])"
  by (simp add: alerts_def bf_fires_snoc)

lemma bf_run_append: "bf_run ys (bf_run xs fails) = bf_run (xs @ ys) fails"
  by (simp add: bf_run_def)

text \<open>Inside a burst all of its failures, and no earlier one, are recent.\<close>

lemma recent_burst:
  assumes "\<forall>e \<in> set es. fst e = u \<longrightarrow> Unix (snd e) < Unix (t0 - bf_window)"
    and "\<forall>e \<in> set burst. fst e = u \<longrightarrow> t0 \<le> snd e" and "t0 \<le> now" "now \<le> t0 + bf_window"
  shows "length (recent u now (es @ burst)) = length (filter (\<lambda>e. fst e = u) burst)"
proof -
  have "Unix (t0 - bf_window) \<le> Unix (now - bf_window)" "Unix (now - bf_window) \<le> Unix t0"
    using assms(3,4) by (auto intro: Unix_mono)
  moreover have "Unix t0 \<le> Unix (snd e)" if "e \<in> set burst" "fst e = u" for e
    using that assms(2) by (intro Unix_mono) simp
  ultimately have "\<forall>e \<in> set es. fst e = u \<longrightarrow> \<not> Unix (now - bf_window) \<le> Unix (snd e)"
    "\<forall>e \<in> set burst. fst e = u \<longrightarrow> Unix (now - bf_window) \<le> Unix (snd e)"
    using assms(1) by (meson leD order_trans order_less_le_trans)+
  then have "filter (\<lambda>e. fst e = u \<and> Unix (now - bf_window) \<le> Unix (snd e)) es = []"
    "filter (\<lambda>e. fst e = u \<and> Unix (now - bf_window) \<le> Unix (snd e)) burst = filter (\<lambda>e. fst e = u) burst"
    by (auto simp: filter_empty_conv intro: filter_cong)
  then show ?thesis by (simp add: recent_def filter_map comp_def conj_commute)
qed

text \<open>C25: One alert per burst.  When a user's failed logins come in a burst, all within one window of five minutes and
  with none in the five minutes before it, and whatever failures of other users lie between them, the burst raises exactly
  one alert for that user, at its fifth failure, and none when it has fewer than five.  Attacks longer than the window are not bursts:
  they fire again (see \<open>brute_force_refires\<close>).\<close>

theorem brute_force_once:
  assumes "sorted_wrt (\<le>) (map snd (es @ burst))"
    and "\<forall>e \<in> set es. fst e = u \<longrightarrow> Unix (snd e) < Unix (t0 - bf_window)"
    and "\<forall>e \<in> set burst. fst e = u \<longrightarrow> t0 \<le> snd e \<and> snd e \<le> t0 + bf_window"
  shows "alerts u burst (bf_run es (\<lambda>_. [])) =
    (let own = filter (\<lambda>e. fst e = u) burst in if 5 \<le> length own then [own ! 4] else [])"
  using assms
proof (induction burst rule: rev_induct)
  case Nil
  then show ?case by (simp add: alerts_def)
next
  case (snoc e burst)
  obtain v t where e: "e = (v, t)" by (cases e)
  have sorted: "sorted_wrt (\<le>) (map snd (es @ burst))" "\<forall>x \<in> set (es @ burst). snd x \<le> t"
    using snoc.prems(1) by (auto simp: e sorted_wrt_append)
  have IH: "alerts u burst (bf_run es (\<lambda>_. [])) =
      (let own = filter (\<lambda>e. fst e = u) burst in if 5 \<le> length own then [own ! 4] else [])"
    using snoc sorted(1) by simp
  have fires: "fst (bf_record v t (bf_run burst (bf_run es (\<lambda>_. [])))) \<longleftrightarrow> length (filter (\<lambda>e. fst e = u) burst) = 4" if "v = u"
    using bf_record_fires [OF sorted] recent_burst [of es u t0 burst t] snoc.prems that
    by (simp add: bf_run_append e)
  show ?case
    unfolding e alerts_snoc IH using fires by (auto simp: Let_def nth_append)
qed

definition guesses :: "duration \<Rightarrow> nat \<Rightarrow> (string \<times> gotime) list" where
  "guesses gap n = map (\<lambda>k. (''bob'', int k * gap)) [0..<n]"

theorem brute_force_once_witness: "alerts ''bob'' (guesses Second 7) (bf_run [] (\<lambda>_. [])) = [(''bob'', 4 * Second)]"
proof -
  have g: "guesses Second 7 = [(''bob'', 0), (''bob'', Second), (''bob'', 2 * Second), (''bob'', 3 * Second),
      (''bob'', 4 * Second), (''bob'', 5 * Second), (''bob'', 6 * Second)]"
    by (simp add: guesses_def upt_rec)
  show ?thesis
    using brute_force_once [of "[]" "guesses Second 7" "''bob''" 0] by (simp add: g bf_window_def)
qed

text \<open>The alert is not deduplicated: an attacker who guesses every 70 seconds triggers it anew
  with the fifth, the sixth and the seventh failure.\<close>

theorem brute_force_refires:
  "fst (bf_record ''bob'' (280 * Second) (bf_run (guesses (70 * Second) 4) (\<lambda>_. []))) \<and>
   fst (bf_record ''bob'' (350 * Second) (bf_run (guesses (70 * Second) 5) (\<lambda>_. []))) \<and>
   fst (bf_record ''bob'' (420 * Second) (bf_run (guesses (70 * Second) 6) (\<lambda>_. [])))"
  by (simp add: guesses_def upt_rec bf_run_def bf_record_def bf_window_def bf_threshold_def Unix_def Let_def)

section \<open>The second factor\<close>

lemma user_by_id_update:
  "user_by_id i (update_user i f s) = map_option f (user_by_id i s)" if "\<And>u. us_ID (f u) = us_ID u"
proof -
  have "find (\<lambda>u. us_ID u = i) (map (\<lambda>u. if us_ID u = i then f u else u) us) =
      map_option f (find (\<lambda>u. us_ID u = i) us)" for us
    using that by (induction us) auto
  then show ?thesis by (simp add: user_by_id_def update_user_def)
qed

text \<open>The second factor can be turned off without it: whoever holds a token of a user asks for a
  new secret, which replaces the active one at once, and then passes the check of
  \<open>MFADisable\<close> with a code of the secret just received.\<close>

theorem mfa_disable_without_factor:
  assumes "user_by_id (cl_UserID cl) s = Some u" and "us_MFAEnabled u"
    and "length rnd = 20" and "hmac_ok (cr_hmac cr)" and "30 * Second \<le> now" and "unix_time (now + 30 * Second)"
  shows "\<exists>secret s1 code s2 u2.
    MFASetup (Some rnd) False cl s = (JSON 200 (secret, OTPAuthURL ''ShellWarden'' (cl_Username cl) secret), s1) \<and>
    TOTPCode (cr_hmac cr) secret now = Some code \<and>
    MFADisable cr now False False id cl code s1 = (JSON 200 (), s2) \<and>
    user_by_id (cl_UserID cl) s2 = Some u2 \<and> \<not> us_MFAEnabled u2"
proof -
  obtain secret where sec: "GenerateTOTPSecret (Some rnd) = Some secret" "b32_DecodeString (padBase32 secret) = Some rnd"
    using generated_key [OF assms(3)] by blast
  let ?s1 = "update_user (cl_UserID cl) (\<lambda>u. u\<lparr>us_TOTPSecret := Some secret\<rparr>) s"
  have u: "unix_time now" using assms(5,6) unix_timeI [of now "now + 30 * Second"] by simp
  define code where "code = rfc6238 (cr_hmac cr) rnd (nat (Unix now) div 30)"
  have c: "TOTPCode (cr_hmac cr) secret now = Some code"
    unfolding code_def by (rule TOTPCode_rfc [OF assms(4) u sec(2)])
  have v: "ValidateTOTP (cr_hmac cr) now secret code"
    using ValidateTOTP_steps [OF assms(4) _ assms(6) sec(2), of code] assms(5) rfc6238_format(2)
    by (simp add: code_def)
  have u1: "user_by_id (cl_UserID cl) ?s1 = Some (u\<lparr>us_TOTPSecret := Some secret\<rparr>)"
    using assms(1) by (simp add: user_by_id_update)
  let ?s2 = "update_user (cl_UserID cl) (\<lambda>u. u\<lparr>us_MFAEnabled := False, us_TOTPSecret := None\<rparr>) ?s1"
  have "MFASetup (Some rnd) False cl s = (JSON 200 (secret, OTPAuthURL ''ShellWarden'' (cl_Username cl) secret), ?s1)"
    by (simp add: MFASetup_def sec writeJSON_def)
  moreover have "MFADisable cr now False False id cl code ?s1 = (JSON 200 (), ?s2)"
    using u1 v by (simp add: MFADisable_def mfa_disable_update_def mfa_check_def writeJSON_def)
  moreover have "user_by_id (cl_UserID cl) ?s2 = Some (u\<lparr>us_TOTPSecret := None, us_MFAEnabled := False\<rparr>)"
    using user_by_id_update [of "\<lambda>u. u\<lparr>us_MFAEnabled := False, us_TOTPSecret := None\<rparr>" "cl_UserID cl" ?s1] u1 by simp
  ultimately show ?thesis using c by fastforce
qed

theorem mfa_disable_without_factor_witness:
  "\<exists>s1 code s2. MFADisable toy_crypto (60 * Second) False False id (sample_claims ''u1'' ''operator'') code s1 = (JSON 200 (), s2)"
proof -
  let ?s = "toy_accounts\<lparr>ac_users := [toy_user\<lparr>us_MFAEnabled := True, us_TOTPSecret := Some ''GEZDGNBV''\<rparr>]\<rparr>"
  have "user_by_id (cl_UserID (sample_claims ''u1'' ''operator'')) ?s = Some (toy_user\<lparr>us_MFAEnabled := True, us_TOTPSecret := Some ''GEZDGNBV''\<rparr>)"
    by (simp add: user_by_id_def sample_claims_def toy_user_def)
  from mfa_disable_without_factor [OF this, of toy_seed toy_crypto "60 * Second"] show ?thesis
    using toy_hmac_ok by (auto simp: toy_seed_def toy_crypto_def unix_time_def Unix_def)
qed

text \<open>The second factor can end up on without a secret: when a \<open>MFADisable\<close> of the same user runs between the two statements of
  \<open>MFAEnable\<close>, both answer 200 and the account has the second factor on and no secret.  \<open>Login\<close> then checks the code against the
  empty key, whose codes anybody can compute.\<close>

lemma enable_races_disable:
  assumes "user_by_id (cl_UserID cl) s = Some u" "us_TOTPSecret u = Some k" "ValidateTOTP (cr_hmac cr) now k code"
  shows "\<exists>s2 u2. MFAEnable cr now False False (\<lambda>s. snd (MFADisable cr now False False id cl code s)) cl code s = (JSON 200 (), s2)
    \<and> fst (MFADisable cr now False False id cl code s) = JSON 200 ()
    \<and> user_by_id (cl_UserID cl) s2 = Some u2 \<and> us_MFAEnabled u2 \<and> us_TOTPSecret u2 = None"
proof -
  have "(mfa_check cr now False cl code s :: unit response option) = None" using assms by (simp add: mfa_check_def)
  then show ?thesis
    using assms(1)
    by (simp add: MFAEnable_def MFADisable_def mfa_enable_update_def mfa_disable_update_def writeJSON_def user_by_id_update)
qed

lemma empty_key_is_public:
  assumes "hmac_ok hmac" "30 * Second \<le> now" "unix_time (now + 30 * Second)"
  shows "\<exists>code. TOTPCode hmac [] now = Some code \<and> code \<noteq> [] \<and> ValidateTOTP hmac now [] code"
proof -
  define code where "code = rfc6238 hmac [] (nat (Unix now) div 30)"
  have u: "unix_time now" using assms(2,3) unix_timeI [of now "now + 30 * Second"] by simp
  have d: "b32_DecodeString (padBase32 []) = Some []" by code_simp
  have "TOTPCode hmac [] now = Some code" unfolding code_def by (rule TOTPCode_rfc [OF assms(1) u d])
  moreover have "ValidateTOTP hmac now [] code"
    using ValidateTOTP_steps [OF assms(1) _ assms(3) d, of code] assms(2) rfc6238_format(2) by (simp add: code_def)
  moreover have "length code = 6" by (simp add: code_def rfc6238_format(1))
  ultimately show ?thesis by force
qed

text \<open>A wrong code after the right password leaves no trace: no audit row, no event and no
  brute-force count, so the codes can be guessed unobserved; neither does a login
  for a user name that does not exist.\<close>

lemma failed_second_factor_unrecorded:
  assumes "find_user (lr_Username r) s = Some u" "cr_compare cr (us_PasswordHash u) (lr_Password r)" "us_MFAEnabled u"
    "lr_Code r \<noteq> []" "\<not> le_query_fails env"
    "\<not> ValidateTOTP (cr_hmac cr) (le_now env) (case us_TOTPSecret u of None \<Rightarrow> [] | Some k \<Rightarrow> k) (lr_Code r)"
  shows "Login cr env (Some r) s = (Failed 401 ''invalid mfa code'', s)"
  using assms by (simp add: Login_def writeErr_def)

lemma unknown_user_unrecorded:
  "find_user (lr_Username r) s = None \<Longrightarrow> \<not> le_query_fails env \<Longrightarrow>
   Login cr env (Some r) s = (Failed 401 ''invalid credentials'', s)"
  by (simp add: Login_def writeErr_def)

text \<open>The user list does not select the second-factor flag, so it is reported off for everyone.\<close>

lemma listed_mfa_is_false:
  "ListUsers (Rows rs e) = JSON 200 js \<Longrightarrow> j \<in> set js \<Longrightarrow> \<not> ju_mfa j"
proof -
  let ?f = "\<lambda>u :: user. JUser (us_ID u) (us_Username u) (us_Role u) False (us_CreatedAt u)"
  have "collect ?f rs = Some js \<Longrightarrow> \<forall>j \<in> set js. \<not> ju_mfa j" for js
  proof (induction rs arbitrary: js)
    case (Cons r rs)
    then show ?case by (cases r) auto
  qed simp
  then show "ListUsers (Rows rs e) = JSON 200 js \<Longrightarrow> j \<in> set js \<Longrightarrow> \<not> ju_mfa j"
    by (auto simp: ListUsers_def writeErr_def writeJSON_def split: option.splits)
qed

section \<open>Histories of account operations\<close>

text \<open>The operations that write, one database statement each; the updates of \<open>MFAEnable\<close> and \<open>MFADisable\<close> may come at any moment after their
  checks, so they are steps of their own.\<close>

datatype account_op =
    ULogin login_env "loginReq option"
  | USetup "string option" bool claims
  | UEnable bool claims
  | UDisable bool claims
  | UCreate string gotime bool "(string \<times> string \<times> string) option"
  | USSO oidc_env

fun account_step :: "crypto \<Rightarrow> account_op \<Rightarrow> accounts \<Rightarrow> accounts" where
  "account_step cr (ULogin env req) s = snd (Login cr env req s)"
| "account_step cr (USetup rnd fails cl) s = snd (MFASetup rnd fails cl s)"
| "account_step cr (UEnable fails cl) s = snd (mfa_enable_update fails cl s)"
| "account_step cr (UDisable fails cl) s = snd (mfa_disable_update fails cl s)"
| "account_step cr (UCreate i now fails req) s = snd (CreateUser cr i now fails req s)"
| "account_step cr (USSO env) s = snd (OIDCCallback cr env s)"

text \<open>What the constraints of the schema come to: ids and names are unique.\<close>

definition accounts_inv :: "accounts \<Rightarrow> bool" where
  "accounts_inv s \<longleftrightarrow> distinct (map us_ID (ac_users s)) \<and> distinct (map us_Username (ac_users s))"

lemma accounts_inv_cong: "ac_users s' = ac_users s \<Longrightarrow> accounts_inv s' = accounts_inv s"
  by (simp add: accounts_inv_def)

lemma users_frame [simp]:
  "ac_users (audit_event sha env et d s) = ac_users s" "ac_users (emit_event a b c d s) = ac_users s"
  "ac_users (onLoginFailure sha lenv u s) = ac_users s"
  by (auto simp: audit_event_def emit_event_def onLoginFailure_def Let_def split: prod.splits)

lemma Login_users [simp]: "ac_users (snd (Login cr env req s)) = ac_users s"
  by (auto simp: Login_def split: option.splits)

lemma accounts_inv_update:
  assumes "accounts_inv s" "\<And>u. us_ID (f u) = us_ID u" "\<And>u. us_Username (f u) = us_Username u"
  shows "accounts_inv (update_user i f s)"
proof -
  have "map us_ID (ac_users (update_user i f s)) = map us_ID (ac_users s)"
       "map us_Username (ac_users (update_user i f s)) = map us_Username (ac_users s)"
    using assms(2,3) by (simp_all add: update_user_def)
  then show ?thesis using assms(1) by (simp add: accounts_inv_def)
qed

lemma accounts_inv_insert: "accounts_inv s \<Longrightarrow> insert_user i now fails n h role s = Some s' \<Longrightarrow> accounts_inv s'"
  by (auto simp: insert_user_def users_constraints_def accounts_inv_def Let_def split: if_splits)

lemma user_by_id_in: "user_by_id i s = Some u \<Longrightarrow> u \<in> set (ac_users s) \<and> us_ID u = i"
  by (auto simp: user_by_id_def find_Some_iff)

lemma accounts_inv_step:
  assumes "accounts_inv s"
  shows "accounts_inv (account_step cr x s)"
proof (cases x)
  case (ULogin env req)
  then show ?thesis using assms accounts_inv_cong [OF Login_users [of cr env req s]] by simp
next
  case (USetup rnd fails cl)
  with assms show ?thesis
    by (auto simp: MFASetup_def intro!: accounts_inv_update split: option.split)
next
  case (UEnable fails cl)
  with assms show ?thesis by (auto simp: mfa_enable_update_def intro!: accounts_inv_update)
next
  case (UDisable fails cl)
  with assms show ?thesis by (auto simp: mfa_disable_update_def intro!: accounts_inv_update)
next
  case (UCreate i now fails req)
  with assms show ?thesis
    by (auto simp: CreateUser_def Let_def dest: accounts_inv_insert split: option.split)
next
  case (USSO env)
  have up: "accounts_inv s1" if "upsertSSOUser q i now f rnd n s = (r, s1)" for q i now f rnd n r s1
    using assms that by (auto simp: upsertSSOUser_def dest: accounts_inv_insert split: option.splits)
  have "account_step cr x s = snd (OIDCCallback cr env s)" using USSO by simp
  moreover have "ac_users (snd (OIDCCallback cr env s)) = ac_users s \<or>
      (\<exists>n r s1. upsertSSOUser (oe_query_fails env) (oe_id env) (oe_now env) (oe_insert_fails env) (oe_rnd env) n s = (r, s1) \<and>
        ac_users (snd (OIDCCallback cr env s)) = ac_users s1)"
    by (auto simp: OIDCCallback_def split: option.split prod.split)
  then have "accounts_inv (snd (OIDCCallback cr env s))"
  proof (elim disjE exE conjE)
    assume "ac_users (snd (OIDCCallback cr env s)) = ac_users s"
    from accounts_inv_cong [OF this] assms show ?thesis by blast
  next
    fix n r s1
    assume "upsertSSOUser (oe_query_fails env) (oe_id env) (oe_now env) (oe_insert_fails env) (oe_rnd env) n s = (r, s1)"
      and "ac_users (snd (OIDCCallback cr env s)) = ac_users s1"
    from accounts_inv_cong [OF this(2)] up [OF this(1)] show ?thesis by blast
  qed
  ultimately show ?thesis by (simp only:)
qed

interpretation users: invariant_ops "account_step cr" "\<lambda>x s. True" accounts_inv
  by unfold_locales (rule accounts_inv_step)

lemma accounts_unique: "accounts_inv (fold (account_step cr) ops (toy_accounts\<lparr>ac_users := []\<rparr>))"
  by (rule users.inv_run) (simp_all add: run_ok_True accounts_inv_def)

text \<open>Single sign-on never raises a role: it hands out a token for the account that has the
  name the identity provider vouched for, with the role stored there, or for a new
  account with the role operator; and only when the state of the request matches the
  cookie.\<close>

theorem sso_token_role:
  assumes "OIDCCallback cr env s = (JSON 302 (tok, role), s')"
  shows "oe_cookie env = Some (oe_state env) \<and>
    (\<exists>raw c i. oe_exchange env = Some (Some raw) \<and> oe_verify env raw = Some c \<and>
       Issue (cr_jwt cr) (cr_secret cr) (oe_now env) i (sso_username c) role = Some tok \<and>
       ((\<exists>u \<in> set (ac_users s). us_Username u = sso_username c \<and> us_ID u = i \<and> us_Role u = role \<and>
            ac_users s' = ac_users s) \<or>
        role = ''operator'' \<and> i \<notin> us_ID ` set (ac_users s) \<and>
        (\<exists>u. ac_users s' = ac_users s @ [u] \<and> us_Username u = sso_username c \<and> us_Role u = ''operator'')))"
proof -
  obtain raw c where rc: "oe_cookie env = Some (oe_state env)" "oe_exchange env = Some (Some raw)" "oe_verify env raw = Some c"
    using assms by (auto simp: OIDCCallback_def writeErr_def split: if_splits option.splits)
  obtain i n s1 where up: "upsertSSOUser (oe_query_fails env) (oe_id env) (oe_now env) (oe_insert_fails env) (oe_rnd env)
      (sso_username c) s = (Some (i, n, role), s1)"
    and tok: "Issue (cr_jwt cr) (cr_secret cr) (oe_now env) i n role = Some tok" and s': "ac_users s' = ac_users s1"
    using assms rc by (auto simp: OIDCCallback_def writeErr_def split: if_splits option.splits prod.splits)
  from up have "n = sso_username c \<and>
      ((\<exists>u \<in> set (ac_users s). us_Username u = sso_username c \<and> us_ID u = i \<and> us_Role u = role \<and> ac_users s1 = ac_users s) \<or>
       role = ''operator'' \<and> i \<notin> us_ID ` set (ac_users s) \<and>
       (\<exists>u. ac_users s1 = ac_users s @ [u] \<and> us_Username u = sso_username c \<and> us_Role u = ''operator''))"
    using find_user_name [of "sso_username c" s]
    by (auto simp: upsertSSOUser_def insert_user_def users_constraints_def Let_def split: option.splits if_splits)
  with rc tok s' show ?thesis by metis
qed

definition toy_oidc :: oidc_env where
  "toy_oidc = \<lparr>oe_enabled = True, oe_cookie = Some ''st'', oe_state = ''st'', oe_exchange = Some (Some ''raw''),
     oe_verify = (\<lambda>r. Some (''bob'', [], [])), oe_now = 0, oe_query_fails = False, oe_insert_fails = False,
     oe_id = ''u9'', oe_rnd = ''zz''\<rparr>"

theorem sso_token_role_witness:
  "OIDCCallback toy_crypto toy_oidc toy_accounts = (JSON 302 (''t.operator'', ''operator''), toy_accounts) \<and>
   oe_cookie toy_oidc = Some (oe_state toy_oidc)"
proof -
  have o: "OIDCCallback toy_crypto toy_oidc toy_accounts = (JSON 302 (''t.operator'', ''operator''), toy_accounts)"
    using toy_issue [of "''operator''"]
    by (simp add: OIDCCallback_def toy_oidc_def upsertSSOUser_def toy_accounts_def toy_user_def find_user_def
        sso_username_def toy_crypto_def emit_event_def emit_def)
  from sso_token_role [OF o] o show ?thesis by blast
qed

text \<open>The browser that was sent to the provider comes back with a state its cookie matches; without the switch both
  ends answer 404.\<close>

lemma sso_state_matches:
  assumes "OIDCLogin True rnd = JSON 302 (cookie, state)"
  shows "fst (OIDCCallback cr (env\<lparr>oe_enabled := True, oe_cookie := Some cookie, oe_state := state\<rparr>) s) \<noteq> Failed 400 ''invalid state''"
  using assms by (auto simp: OIDCLogin_def OIDCCallback_def writeErr_def Let_def split: option.split prod.split)

lemma sso_disabled:
  "OIDCLogin False rnd = Failed 404 ''oidc not configured''" "\<not> oe_enabled env \<Longrightarrow> OIDCCallback cr env s = (Failed 404 ''oidc not configured'', s)"
  by (simp_all add: OIDCLogin_def OIDCCallback_def writeErr_def)

end
