(* ===== verification/Hub.thy ===== *)
theory Hub
  imports Chan
begin

text \<open>
  The hub of live sessions (\<^verbatim>\<open>internal/proxy/hub.go\<close>): registration, fan-out of
  output to watchers, subscription and termination.  A \<^verbatim>\<open>*LiveSession\<close> is shared
  between the hub's map and the unsubscribe closures, so live sessions are objects
  in a heap.  Every mutex-protected section is one definition; the exported method
  is their composition, and the step relation at the end interleaves the sections
  of concurrent calls freely.
\<close>

record live_session =
  ls_ID :: string
  ls_UserID :: string
  ls_ServerID :: string
  ls_Started :: gotime
  ls_kill :: "nat option" \<comment> \<open>the managed session the closure ends; \<open>None\<close> is nil\<close>
  ls_subs :: "nat list" \<comment> \<open>the channels of the watchers\<close>

record hub =
  sessions :: "string \<rightharpoonup> nat"
  objs :: "nat \<rightharpoonup> live_session"
  chans :: "string chans"
  next_addr :: nat

definition NewHub :: hub where
  "NewHub = \<lparr>sessions = Map.empty, objs = Map.empty, chans = Map.empty, next_addr = 0\<rparr>"

definition Register :: "string \<Rightarrow> string \<Rightarrow> string \<Rightarrow> gotime \<Rightarrow> nat option \<Rightarrow> hub \<Rightarrow> hub" where
  "Register i userID serverID now k h =
     h\<lparr>objs := (objs h)(next_addr h \<mapsto>
          \<lparr>ls_ID = i, ls_UserID = userID, ls_ServerID = serverID, ls_Started = now,
           ls_kill = k, ls_subs = []\<rparr>),
       sessions := (sessions h)(i \<mapsto> next_addr h),
       next_addr := Suc (next_addr h)\<rparr>"

definition unregister_delete :: "string \<Rightarrow> hub \<Rightarrow> hub" where
  "unregister_delete i h = h\<lparr>sessions := (sessions h)(i := None)\<rparr>"

definition close_subs :: "nat \<Rightarrow> hub \<Rightarrow> hub option" where
  "close_subs a h =
     (case objs h a of None \<Rightarrow> None
      | Some ls \<Rightarrow>
          (case close_all (ls_subs ls) (chans h) of None \<Rightarrow> None
           | Some H \<Rightarrow> Some (h\<lparr>chans := H, objs := (objs h)(a \<mapsto> ls\<lparr>ls_subs := []\<rparr>)\<rparr>)))"

definition Unregister :: "string \<Rightarrow> hub \<Rightarrow> hub option" where
  "Unregister i h =
     (let ls = sessions h i; h1 = unregister_delete i h
      in case ls of None \<Rightarrow> Some h1 | Some a \<Rightarrow> close_subs a h1)"

definition publish_to :: "nat \<Rightarrow> string \<Rightarrow> hub \<Rightarrow> hub option" where
  "publish_to a d h =
     (case objs h a of None \<Rightarrow> None
      | Some ls \<Rightarrow>
          (case send_all d (ls_subs ls) (chans h) of None \<Rightarrow> None
           | Some H \<Rightarrow> Some (h\<lparr>chans := H\<rparr>)))"

definition Publish :: "string \<Rightarrow> string \<Rightarrow> hub \<Rightarrow> hub option" where
  "Publish i d h = (case sessions h i of None \<Rightarrow> Some h | Some a \<Rightarrow> publish_to a d h)"

text \<open>\<open>Subscribe\<close> makes a channel of capacity 256 and adds it to the session it
  looked up before; the closure it returns is identified by the session object
  and the channel.\<close>

definition subscribe_at :: "nat \<Rightarrow> hub \<Rightarrow> (nat \<times> hub) option" where
  "subscribe_at a h =
     (case objs h a of None \<Rightarrow> None
      | Some ls \<Rightarrow>
          (let c = next_addr h
           in Some (c, h\<lparr>chans := (chans h)(c \<mapsto> make_chan 256),
                         objs := (objs h)(a \<mapsto> ls\<lparr>ls_subs := ls_subs ls @ [c]\<rparr>),
                         next_addr := Suc c\<rparr>)))"

definition Subscribe :: "string \<Rightarrow> hub \<Rightarrow> ((nat \<times> nat) option \<times> hub) option" where
  "Subscribe i h =
     (case sessions h i of
        None \<Rightarrow> Some (None, h)
      | Some a \<Rightarrow> (case subscribe_at a h of None \<Rightarrow> None | Some (c, h') \<Rightarrow> Some (Some (a, c), h')))"

definition unsubscribe :: "nat \<Rightarrow> nat \<Rightarrow> hub \<Rightarrow> hub option" where
  "unsubscribe a c h =
     (case objs h a of None \<Rightarrow> None
      | Some ls \<Rightarrow>
          if c \<in> set (ls_subs ls)
          then (case close_at c (chans h) of None \<Rightarrow> None
                | Some H \<Rightarrow> Some (h\<lparr>chans := H,
                      objs := (objs h)(a \<mapsto> ls\<lparr>ls_subs := remove1 c (ls_subs ls)\<rparr>)\<rparr>))
          else Some h)"

text \<open>\<open>Kill\<close>: \<open>None\<close> is \<^verbatim>\<open>false\<close>; \<open>Some k\<close> is \<^verbatim>\<open>true\<close> after calling the closure \<open>k\<close>.\<close>

definition Kill :: "string \<Rightarrow> hub \<Rightarrow> nat option option" where
  "Kill i h =
     (case sessions h i of None \<Rightarrow> None
      | Some a \<Rightarrow> Some (case objs h a of None \<Rightarrow> None | Some ls \<Rightarrow> ls_kill ls))"

definition Active :: "hub \<Rightarrow> string set" where
  "Active h = dom (sessions h)"

section \<open>Well-formed hubs\<close>

text \<open>
  The invariant: addresses in use are below the allocator, the map points at
  existing objects and no two ids share one, and every watcher channel is open and
  belongs to one session only, once.
\<close>

definition hub_inv :: "hub \<Rightarrow> bool" where
  "hub_inv h \<longleftrightarrow>
     (\<forall>i a. sessions h i = Some a \<longrightarrow> objs h a \<noteq> None) \<and>
     (\<forall>i j a. sessions h i = Some a \<longrightarrow> sessions h j = Some a \<longrightarrow> i = j) \<and>
     (\<forall>a ls. objs h a = Some ls \<longrightarrow>
        a < next_addr h \<and> distinct (ls_subs ls) \<and> (\<forall>c \<in> set (ls_subs ls). chan_open (chans h) c)) \<and>
     (\<forall>a b ls ls'. objs h a = Some ls \<longrightarrow> objs h b = Some ls' \<longrightarrow> a \<noteq> b \<longrightarrow>
        set (ls_subs ls) \<inter> set (ls_subs ls') = {}) \<and>
     (\<forall>c. chans h c \<noteq> None \<longrightarrow> c < next_addr h)"

lemma hub_invD:
  assumes "hub_inv h"
  shows "\<And>i a. sessions h i = Some a \<Longrightarrow> \<exists>ls. objs h a = Some ls"
    and "\<And>i j a. sessions h i = Some a \<Longrightarrow> sessions h j = Some a \<Longrightarrow> i = j"
    and "\<And>a ls. objs h a = Some ls \<Longrightarrow> a < next_addr h"
    and "\<And>a ls. objs h a = Some ls \<Longrightarrow> distinct (ls_subs ls)"
    and "\<And>a ls c. objs h a = Some ls \<Longrightarrow> c \<in> set (ls_subs ls) \<Longrightarrow> chan_open (chans h) c"
    and "\<And>a b ls ls' c. objs h a = Some ls \<Longrightarrow> objs h b = Some ls' \<Longrightarrow> a \<noteq> b \<Longrightarrow>
           c \<in> set (ls_subs ls) \<Longrightarrow> c \<notin> set (ls_subs ls')"
    and "\<And>c ch. chans h c = Some ch \<Longrightarrow> c < next_addr h"
  using assms unfolding hub_inv_def by blast+

lemma hub_inv_sub_bound: "hub_inv h \<Longrightarrow> objs h a = Some ls \<Longrightarrow> c \<in> set (ls_subs ls) \<Longrightarrow> c < next_addr h"
  using hub_invD(5,7) by (metis chan_openE)

lemma hub_inv_NewHub: "hub_inv NewHub"
  by (simp add: hub_inv_def NewHub_def)

lemma hub_inv_Register: "hub_inv h \<Longrightarrow> hub_inv (Register i u s t k h)"
  unfolding hub_inv_def Register_def
  by (auto split: if_splits) (fastforce simp: less_Suc_eq)+

lemma hub_inv_delete: "hub_inv h \<Longrightarrow> hub_inv (unregister_delete i h)"
  by (auto simp: hub_inv_def unregister_delete_def split: if_splits)

lemma close_subs_Some:
  assumes "hub_inv h" "objs h a = Some ls"
  shows "close_subs a h =
    Some (h\<lparr>chans := \<lambda>c. if c \<in> set (ls_subs ls) then map_option (cclosed_update (\<lambda>_. True)) (chans h c)
                           else chans h c,
            objs := (objs h)(a \<mapsto> ls\<lparr>ls_subs := []\<rparr>)\<rparr>)"
  using assms hub_invD(4,5) [OF assms(1)] by (simp add: close_subs_def close_all_open)

lemma hub_inv_close_subs:
  assumes "hub_inv h" "objs h a = Some ls"
  shows "\<exists>h'. close_subs a h = Some h' \<and> hub_inv h'"
  using assms unfolding close_subs_Some [OF assms]
  by (auto simp: hub_inv_def split: if_splits) fastforce+

lemma publish_to_Some:
  assumes "hub_inv h" "objs h a = Some ls"
  shows "publish_to a d h =
    Some (h\<lparr>chans := \<lambda>c. if c \<in> set (ls_subs ls) then map_option (offer d) (chans h c) else chans h c\<rparr>)"
  using assms hub_invD(4,5) [OF assms(1)] by (simp add: publish_to_def send_all_open)

lemma hub_inv_publish_to:
  assumes "hub_inv h" "objs h a = Some ls"
  shows "\<exists>h'. publish_to a d h = Some h' \<and> hub_inv h'"
  using assms unfolding publish_to_Some [OF assms]
  by (auto simp: hub_inv_def split: if_splits)

lemma hub_inv_subscribe_at:
  assumes inv: "hub_inv h" and a: "objs h a = Some ls"
  shows "\<exists>h'. subscribe_at a h = Some (next_addr h, h') \<and> hub_inv h'"
proof -
  have fresh: "next_addr h \<notin> set (ls_subs ls')" if "objs h b = Some ls'" for b ls'
    using hub_inv_sub_bound [OF inv that] by blast
  have bound: "a < next_addr h" using hub_invD(3) [OF inv a] .
  show ?thesis
    using inv a fresh bound unfolding hub_inv_def
    by (auto simp: subscribe_at_def Let_def chan_open_def make_chan_def split: if_splits)
       (fastforce simp: less_Suc_eq)+
qed

lemma hub_inv_unsubscribe:
  assumes inv: "hub_inv h" and a: "objs h a = Some ls"
  shows "\<exists>h'. unsubscribe a c h = Some h' \<and> hub_inv h'"
proof (cases "c \<in> set (ls_subs ls)")
  case True
  then obtain ch where ch: "chans h c = Some ch" "\<not> cclosed ch"
    using hub_invD(5) [OF inv a] by (auto elim: chan_openE)
  have other: "c \<notin> set (ls_subs ls')" if "objs h b = Some ls'" "b \<noteq> a" for b ls'
    using hub_invD(6) [OF inv a that(1)] that(2) True by blast
  have rm: "distinct (remove1 c (ls_subs ls))" "set (remove1 c (ls_subs ls)) = set (ls_subs ls) - {c}"
    using hub_invD(4) [OF inv a] by (simp_all add: set_remove1_eq)
  show ?thesis
    using inv a True ch other rm unfolding hub_inv_def
    by (auto simp: unsubscribe_def close_at_open chan_open_def split: if_splits) fastforce+
qed (use assms in \<open>simp add: unsubscribe_def\<close>)


section \<open>Concurrent callers\<close>

text \<open>
  Callers between two critical sections: an \<open>Unregister\<close> that has deleted the map
  entry but not yet closed the watchers, a \<open>Publish\<close> or \<open>Subscribe\<close> that has looked
  the session up but not yet locked it.  \<open>handed\<close> are the unsubscribe closures
  given out; each may be called any number of times (\<^verbatim>\<open>ServeWatch\<close> calls its own
  from a goroutine and again when it returns).
\<close>

datatype pending = PClose nat | PSend nat string | PAttach nat

fun target :: "pending \<Rightarrow> nat" where
  "target (PClose a) = a"
| "target (PSend a d) = a"
| "target (PAttach a) = a"

record hub_sys =
  hsys :: hub
  pend :: "pending list"
  handed :: "(nat \<times> nat) list"
  panicked :: bool

definition init_sys :: hub_sys where
  "init_sys = \<lparr>hsys = NewHub, pend = [], handed = [], panicked = False\<rparr>"

text \<open>The state after a section ran: its result, or a panic.\<close>

definition after :: "hub option \<Rightarrow> hub_sys \<Rightarrow> hub_sys" where
  "after r s = (case r of None \<Rightarrow> s\<lparr>panicked := True\<rparr> | Some h \<Rightarrow> s\<lparr>hsys := h\<rparr>)"

inductive hub_step :: "hub_sys \<Rightarrow> hub_sys \<Rightarrow> bool" where
  register: "hub_step s (s\<lparr>hsys := Register i u sv t k (hsys s)\<rparr>)"
| unreg_delete: "sessions (hsys s) i = Some a \<Longrightarrow>
    hub_step s (s\<lparr>hsys := unregister_delete i (hsys s), pend := PClose a # pend s\<rparr>)"
| unreg_close: "PClose a \<in> set (pend s) \<Longrightarrow>
    hub_step s ((after (close_subs a (hsys s)) s)\<lparr>pend := remove1 (PClose a) (pend s)\<rparr>)"
| pub_lookup: "sessions (hsys s) i = Some a \<Longrightarrow> hub_step s (s\<lparr>pend := PSend a d # pend s\<rparr>)"
| pub_send: "PSend a d \<in> set (pend s) \<Longrightarrow>
    hub_step s ((after (publish_to a d (hsys s)) s)\<lparr>pend := remove1 (PSend a d) (pend s)\<rparr>)"
| sub_lookup: "sessions (hsys s) i = Some a \<Longrightarrow> hub_step s (s\<lparr>pend := PAttach a # pend s\<rparr>)"
| sub_attach: "PAttach a \<in> set (pend s) \<Longrightarrow>
    hub_step s ((after (map_option snd (subscribe_at a (hsys s))) s)
      \<lparr>pend := remove1 (PAttach a) (pend s), handed := (a, next_addr (hsys s)) # handed s\<rparr>)"
| unsub: "(a, c) \<in> set (handed s) \<Longrightarrow> hub_step s (after (unsubscribe a c (hsys s)) s)"
| receive: "chans (hsys s) c = Some ch \<Longrightarrow>
    hub_step s (s\<lparr>hsys := (hsys s)\<lparr>chans := (chans (hsys s))(c \<mapsto> snd (recv_chan ch))\<rparr>\<rparr>)"

inductive hub_reach :: "hub_sys \<Rightarrow> bool" where
  start: "hub_reach init_sys"
| step: "hub_reach s \<Longrightarrow> hub_step s t \<Longrightarrow> hub_reach t"

inductive_cases hub_stepE: "hub_step s t"

definition live_addr :: "hub \<Rightarrow> nat \<Rightarrow> bool" where
  "live_addr h a \<longleftrightarrow> objs h a \<noteq> None"

definition sys_inv :: "hub_sys \<Rightarrow> bool" where
  "sys_inv s \<longleftrightarrow> hub_inv (hsys s) \<and> \<not> panicked s \<and>
     (\<forall>p \<in> set (pend s). live_addr (hsys s) (target p)) \<and>
     (\<forall>(a, c) \<in> set (handed s). live_addr (hsys s) a)"

text \<open>No section removes an object.\<close>

lemma live_addr_mono:
  "live_addr h a \<Longrightarrow> live_addr (Register i u sv t k h) a"
  "live_addr h a \<Longrightarrow> live_addr (unregister_delete i h) a"
  "live_addr h a \<Longrightarrow> close_subs b h = Some h' \<Longrightarrow> live_addr h' a"
  "live_addr h a \<Longrightarrow> publish_to b d h = Some h' \<Longrightarrow> live_addr h' a"
  "live_addr h a \<Longrightarrow> subscribe_at b h = Some (c, h') \<Longrightarrow> live_addr h' a"
  "live_addr h a \<Longrightarrow> unsubscribe b c' h = Some h' \<Longrightarrow> live_addr h' a"
  by (auto simp: live_addr_def Register_def unregister_delete_def close_subs_def publish_to_def
      subscribe_at_def unsubscribe_def Let_def split: option.splits if_splits)

text \<open>Each section run on an existing object succeeds and keeps the invariant.\<close>

definition sections :: "nat \<Rightarrow> string \<Rightarrow> nat \<Rightarrow> hub \<Rightarrow> hub option set" where
  "sections a d c h =
     {close_subs a h, publish_to a d h, map_option snd (subscribe_at a h), unsubscribe a c h}"

lemma section_ok:
  assumes "hub_inv h" "objs h a = Some ls" "r \<in> sections a d c h"
  shows "\<exists>h'. r = Some h' \<and> hub_inv h' \<and> (\<forall>b. live_addr h b \<longrightarrow> live_addr h' b)"
  using assms(3) hub_inv_close_subs [OF assms(1,2)] hub_inv_publish_to [OF assms(1,2), of d]
    hub_inv_subscribe_at [OF assms(1,2)] hub_inv_unsubscribe [OF assms(1,2), of c]
  by (auto simp: sections_def intro: live_addr_mono)

lemma sys_inv_section:
  assumes "sys_inv s" "objs (hsys s) a = Some ls" "r \<in> sections a d c (hsys s)"
    and "set ps \<subseteq> set (pend s)" "set hs \<subseteq> insert (a, n) (set (handed s))"
  shows "sys_inv ((after r s)\<lparr>pend := ps, handed := hs\<rparr>)"
proof -
  obtain h' where "r = Some h'" "hub_inv h'" "\<And>b. live_addr (hsys s) b \<Longrightarrow> live_addr h' b"
    using section_ok [OF _ assms(2,3)] assms(1) by (auto simp: sys_inv_def)
  moreover have "live_addr (hsys s) a" using assms(2) by (simp add: live_addr_def)
  ultimately show ?thesis
    using assms(1,4,5) by (fastforce simp: sys_inv_def after_def)
qed

lemma after_pend [simp]: "pend (after r s) = pend s" "handed (after r s) = handed s"
  by (simp_all add: after_def split: option.split)

lemma after_frame [simp]:
  "(after r s)\<lparr>pend := ps, handed := handed s\<rparr> = (after r s)\<lparr>pend := ps\<rparr>"
  "(after r s)\<lparr>pend := pend s\<rparr> = after r s" "(after r s)\<lparr>handed := handed s\<rparr> = after r s"
  by (simp_all add: after_def split: option.split)

lemma sys_inv_objD:
  "sys_inv s \<Longrightarrow> p \<in> set (pend s) \<Longrightarrow> \<exists>ls. objs (hsys s) (target p) = Some ls"
  "sys_inv s \<Longrightarrow> (a, c) \<in> set (handed s) \<Longrightarrow> \<exists>ls. objs (hsys s) a = Some ls"
  by (auto simp: sys_inv_def live_addr_def)

lemma hub_inv_receive:
  "hub_inv h \<Longrightarrow> chans h c = Some ch \<Longrightarrow> hub_inv (h\<lparr>chans := (chans h)(c \<mapsto> snd (recv_chan ch))\<rparr>)"
  unfolding hub_inv_def
  by (auto simp: chan_open_def recv_chan_def split: list.splits if_splits option.splits)

lemma hub_step_inv: "hub_step s t \<Longrightarrow> sys_inv s \<Longrightarrow> sys_inv t"
proof (induction rule: hub_step.induct)
  case (register s i u sv t k)
  then show ?case
    by (auto simp: sys_inv_def hub_inv_Register intro: live_addr_mono)
next
  case (unreg_delete s i a)
  then have "live_addr (hsys s) a"
    using hub_invD(1) by (auto simp: sys_inv_def live_addr_def)
  with unreg_delete show ?case
    by (auto simp: sys_inv_def hub_inv_delete intro: live_addr_mono)
next
  case (unreg_close a s)
  then obtain ls where "objs (hsys s) a = Some ls" using sys_inv_objD(1) by fastforce
  from sys_inv_section [OF unreg_close.prems this, of "close_subs a (hsys s)" "[]" 0
      "remove1 (PClose a) (pend s)" "handed s" 0]
  show ?case by (auto simp: sections_def set_remove1_subset)
next
  case (pub_send a d s)
  then obtain ls where "objs (hsys s) a = Some ls" using sys_inv_objD(1) by fastforce
  from sys_inv_section [OF pub_send.prems this, of "publish_to a d (hsys s)" d 0
      "remove1 (PSend a d) (pend s)" "handed s" 0]
  show ?case by (auto simp: sections_def set_remove1_subset)
next
  case (sub_attach a s)
  then obtain ls where "objs (hsys s) a = Some ls" using sys_inv_objD(1) by fastforce
  from sys_inv_section [OF sub_attach.prems this, of "map_option snd (subscribe_at a (hsys s))" "[]" 0
      "remove1 (PAttach a) (pend s)" "(a, next_addr (hsys s)) # handed s" "next_addr (hsys s)"]
  show ?case by (auto simp: sections_def set_remove1_subset)
next
  case (unsub a c s)
  then obtain ls where "objs (hsys s) a = Some ls" using sys_inv_objD(2) by blast
  from sys_inv_section [OF unsub.prems this, of "unsubscribe a c (hsys s)" "[]" c "pend s" "handed s" 0]
  show ?case by (auto simp: sections_def)
next
  case (receive s c ch)
  then show ?case by (auto simp: sys_inv_def hub_inv_receive live_addr_def)
qed (use hub_invD(1) in \<open>auto simp: sys_inv_def live_addr_def\<close>)

lemma hub_reach_inv: "hub_reach s \<Longrightarrow> sys_inv s"
proof (induction rule: hub_reach.induct)
  case start
  show ?case by (simp add: sys_inv_def init_sys_def hub_inv_NewHub)
qed (blast intro: hub_step_inv)


section \<open>Properties\<close>

text \<open>C8: The hub never panics.  Whatever the interleaving of concurrent \<open>Register\<close>,
  \<open>Unregister\<close>, \<open>Publish\<close>, \<open>Subscribe\<close>, repeated unsubscribes and receives, no
  watcher channel is closed twice and nothing is sent on a closed channel.\<close>

theorem hub_never_panics:
  assumes "hub_reach s"
  shows "\<not> panicked s"
  using hub_reach_inv [OF assms] by (simp add: sys_inv_def)

text \<open>The state after one session was registered and a watcher attached.\<close>

definition watched :: hub_sys where
  "watched =
     \<lparr>hsys = snd (the (subscribe_at 0 (Register ''s'' ''u'' ''v'' 0 None NewHub))),
      pend = [], handed = [(0, 1)], panicked = False\<rparr>"

lemma hub_reach_registered:
  "hub_reach (init_sys\<lparr>hsys := Register ''s'' ''u'' ''v'' 0 None NewHub\<rparr>)"
  using hub_reach.step [OF hub_reach.start hub_step.register, of "''s''" "''u''" "''v''" 0 None]
  by (simp add: init_sys_def)

lemma hub_reach_looked_up:
  "hub_reach (init_sys\<lparr>hsys := Register ''s'' ''u'' ''v'' 0 None NewHub, pend := [PAttach 0]\<rparr>)"
  using hub_reach.step [OF hub_reach_registered hub_step.sub_lookup, of "''s''" 0]
  by (simp add: init_sys_def Register_def NewHub_def)

lemma hub_reach_watched: "hub_reach watched"
  using hub_reach.step [OF hub_reach_looked_up hub_step.sub_attach, of 0]
  by (simp add: init_sys_def Register_def NewHub_def watched_def subscribe_at_def after_def)

theorem hub_never_panics_witness: "hub_reach watched \<and> \<not> panicked watched"
  using hub_reach_watched hub_never_panics [OF hub_reach_watched] by blast

text \<open>Ending a session closes every watcher: in a well-formed hub \<open>Unregister\<close> succeeds,
  removes the session and no other, closes all channels subscribed to it and
  leaves every other channel as it was.\<close>

theorem unregister_closes_watchers:
  assumes "hub_inv h" and "sessions h i = Some a" and "objs h a = Some ls"
  shows "\<exists>h'. Unregister i h = Some h' \<and> hub_inv h' \<and> sessions h' = (sessions h)(i := None) \<and>
    (\<forall>c. if c \<in> set (ls_subs ls) then chan_shut (chans h') c else chans h' c = chans h c)"
proof -
  have inv: "hub_inv (unregister_delete i h)"
    by (rule hub_inv_delete [OF assms(1)])
  have obj: "objs (unregister_delete i h) a = Some ls"
    using assms(3) by (simp add: unregister_delete_def)
  note inv = inv obj
  obtain h' where h': "close_subs a (unregister_delete i h) = Some h'" "hub_inv h'"
    using hub_inv_close_subs [OF inv] by blast
  have "chan_shut (chans h') c" if "c \<in> set (ls_subs ls)" for c
    using hub_invD(5) [OF assms(1,3) that] close_subs_Some [OF inv] h' that
    by (auto simp: chan_shut_def unregister_delete_def elim: chan_openE)
  then show ?thesis
    using h' assms(2) close_subs_Some [OF inv]
    by (intro exI [of _ h']) (auto simp: Unregister_def unregister_delete_def)
qed

theorem unregister_closes_watchers_witness:
  "\<exists>h'. Unregister ''s'' (hsys watched) = Some h' \<and> sessions h' ''s'' = None \<and> chan_shut (chans h') 1"
proof -
  have "hub_inv (hsys watched)"
    using hub_reach_inv [OF hub_reach_watched] by (simp add: sys_inv_def)
  moreover have "sessions (hsys watched) ''s'' = Some 0"
    and "objs (hsys watched) 0 = Some \<lparr>ls_ID = ''s'', ls_UserID = ''u'', ls_ServerID = ''v'',
            ls_Started = 0, ls_kill = None, ls_subs = [1]\<rparr>"
    by (simp_all add: watched_def subscribe_at_def Register_def NewHub_def)
  ultimately obtain h' where "Unregister ''s'' (hsys watched) = Some h'" "sessions h' ''s'' = None"
      "\<forall>c. if c \<in> {1} then chan_shut (chans h') c else chans h' c = chans (hsys watched) c"
    using unregister_closes_watchers [of "hsys watched" "''s''" 0] by fastforce
  then show ?thesis by auto
qed

text \<open>A run of publishes to any sessions.\<close>

fun publishes :: "(string \<times> string) list \<Rightarrow> hub \<Rightarrow> hub option" where
  "publishes [] h = Some h"
| "publishes ((i, d) # ps) h = Option.bind (Publish i d h) (publishes ps)"

definition chunks_for :: "string \<Rightarrow> (string \<times> string) list \<Rightarrow> string list" where
  "chunks_for i ps = map snd (filter (\<lambda>p. fst p = i) ps)"

lemma Publish_chan:
  assumes inv: "hub_inv h" and a: "sessions h i = Some a" "objs h a = Some ls" "c \<in> set (ls_subs ls)"
    and c: "chans h c = Some ch"
  shows "\<exists>h'. Publish j d h = Some h' \<and> hub_inv h' \<and> sessions h' = sessions h \<and> objs h' = objs h \<and>
    chans h' c = Some (if j = i then offer d ch else ch)"
proof (cases "sessions h j")
  case (Some b)
  then obtain ls' where b: "objs h b = Some ls'" using hub_invD(1) [OF inv] by blast
  obtain h' where h': "publish_to b d h = Some h'" "hub_inv h'"
    using hub_inv_publish_to [OF inv b] by blast
  have "c \<in> set (ls_subs ls') \<longleftrightarrow> j = i"
  proof (cases "b = a")
    case True
    with a b Some hub_invD(2) [OF inv a(1)] show ?thesis by auto
  next
    case False
    with hub_invD(6) [OF inv a(2) b] a Some show ?thesis by auto
  qed
  with h' Some c publish_to_Some [OF inv b, of d] show ?thesis by (auto simp: Publish_def)
qed (use assms in \<open>auto simp: Publish_def\<close>)

lemma publishes_chan:
  assumes "hub_inv h" "sessions h i = Some a" "objs h a = Some ls" "c \<in> set (ls_subs ls)" "chans h c = Some ch"
  shows "\<exists>h'. publishes ps h = Some h' \<and> chans h' c = Some (fold offer (chunks_for i ps) ch)"
  using assms
proof (induction ps arbitrary: h ch)
  case (Cons p ps)
  obtain j d where p: "p = (j, d)" by fastforce
  obtain h1 where h1: "Publish j d h = Some h1" "hub_inv h1" "sessions h1 = sessions h" "objs h1 = objs h"
      "chans h1 c = Some (if j = i then offer d ch else ch)"
    using Publish_chan [OF Cons.prems, of j d] by blast
  have "\<exists>h'. publishes ps h1 = Some h' \<and>
      chans h' c = Some (fold offer (chunks_for i ps) (if j = i then offer d ch else ch))"
    using h1 Cons.prems by (intro Cons.IH) auto
  with h1 show ?case by (auto simp: p chunks_for_def)
qed (simp add: chunks_for_def)

text \<open>C9: Live shadowing shows a watcher its own session and nothing else, in order: after
  subscribing to session \<open>i\<close>, any run of publishes to any sessions succeeds and
  the watcher's channel holds exactly the chunks of \<open>i\<close>, up to the first 256 that
  it has not read; later ones are dropped, never reordered or mixed.\<close>

theorem watcher_sees_session:
  assumes "hub_inv h" and "sessions h i = Some a" and "Subscribe i h = Some (Some (a, c), h1)"
  shows "\<exists>h' ch. publishes ps h1 = Some h' \<and> chans h' c = Some ch \<and> cbuf ch = take 256 (chunks_for i ps)"
proof -
  obtain ls where a: "objs h a = Some ls" using hub_invD(1) [OF assms(1,2)] by blast
  have h1: "subscribe_at a h = Some (c, h1)"
    using assms(2,3) by (auto simp: Subscribe_def split: option.splits)
  obtain h2 where "subscribe_at a h = Some (next_addr h, h2)" "hub_inv h2"
    using hub_inv_subscribe_at [OF assms(1) a] by blast
  with h1 have "hub_inv h1" by simp
  moreover have "sessions h1 i = Some a" "objs h1 a = Some (ls\<lparr>ls_subs := ls_subs ls @ [c]\<rparr>)"
      "chans h1 c = Some (make_chan 256)"
    using h1 a assms(2) by (auto simp: subscribe_at_def Let_def)
  ultimately obtain h' where "publishes ps h1 = Some h'"
      "chans h' c = Some (fold offer (chunks_for i ps) (make_chan 256))"
    using publishes_chan [of h1 i a "ls\<lparr>ls_subs := ls_subs ls @ [c]\<rparr>" c "make_chan 256" ps] by auto
  then show ?thesis by (auto simp: chan.held_puts make_chan_def)
qed

theorem watcher_sees_session_witness:
  "\<exists>h1 h' ch. Subscribe ''s'' (Register ''s'' ''u'' ''v'' 0 None NewHub) = Some (Some (0, 1), h1) \<and>
     publishes [(''s'', ''a''), (''t'', ''x''), (''s'', ''b'')] h1 = Some h' \<and>
     chans h' 1 = Some ch \<and> cbuf ch = [''a'', ''b'']"
proof -
  let ?h = "Register ''s'' ''u'' ''v'' 0 None NewHub"
  have "sessions ?h ''s'' = Some 0"
    by (simp add: Register_def NewHub_def)
  moreover obtain h1 where "Subscribe ''s'' ?h = Some (Some (0, 1), h1)"
    by (auto simp: Subscribe_def subscribe_at_def Register_def NewHub_def)
  ultimately show ?thesis
    using watcher_sees_session [OF hub_inv_Register [OF hub_inv_NewHub], of "''s''" "''u''" "''v''" 0 None
        "''s''" 0 1 h1 "[(''s'', ''a''), (''t'', ''x''), (''s'', ''b'')]"]
    by (auto simp: chunks_for_def)
qed

text \<open>A watcher can be lost.  A \<open>Subscribe\<close> that looked the session up just before
  \<open>Unregister\<close> ran adds its channel to the dead session afterwards: the run is
  over (nothing pending), the watcher holds an open channel, and the session it
  belongs to is no longer in the hub, so no \<open>Unregister\<close> will ever close it.\<close>

theorem watcher_can_be_lost:
  "\<exists>s a c. hub_reach s \<and> pend s = [] \<and> (a, c) \<in> set (handed s) \<and>
     chan_open (chans (hsys s)) c \<and> (\<forall>i. sessions (hsys s) i \<noteq> Some a)"
proof -
  let ?h = "Register ''s'' ''u'' ''v'' 0 None NewHub"
  define s1 where "s1 = init_sys\<lparr>hsys := unregister_delete ''s'' ?h, pend := [PClose 0, PAttach 0]\<rparr>"
  have "hub_reach s1"
    using hub_reach.step [OF hub_reach_looked_up hub_step.unreg_delete, of "''s''" 0]
    by (simp add: s1_def init_sys_def Register_def NewHub_def)
  define s2 where "s2 = (after (close_subs 0 (hsys s1)) s1)\<lparr>pend := [PAttach 0]\<rparr>"
  have "hub_reach s2"
    using hub_reach.step [OF \<open>hub_reach s1\<close> hub_step.unreg_close, of 0] by (simp add: s1_def s2_def)
  define s3 where "s3 = (after (map_option snd (subscribe_at 0 (hsys s2))) s2)
      \<lparr>pend := [], handed := [(0, next_addr (hsys s2))]\<rparr>"
  have "hub_reach s3"
    using hub_reach.step [OF \<open>hub_reach s2\<close> hub_step.sub_attach, of 0]
    by (simp add: s1_def s2_def s3_def init_sys_def)
  moreover have "pend s3 = []" "(0, 1) \<in> set (handed s3)" "chan_open (chans (hsys s3)) 1"
      "\<forall>i. sessions (hsys s3) i \<noteq> Some 0"
    by (simp_all add: s3_def s2_def s1_def init_sys_def Register_def NewHub_def unregister_delete_def
        close_subs_def subscribe_at_def after_def chan_open_def make_chan_def)
  ultimately show ?thesis by blast
qed

end
