(* ===== verification/Recorder.thy ===== *)
theory Recorder
  imports GoStd Hub Access
begin

text \<open>
  Session recording (\<^verbatim>\<open>internal/proxy/recorder.go\<close>) and the state of the gateway
  it writes to: the inventory tables, the audit table, the hub, the notifier, the
  \<^verbatim>\<open>sessions\<close> table and the recording files.  A recorded cast line is kept as the value that is
  marshalled; its text has been through \<^verbatim>\<open>encoding/json\<close> (\<open>json_text\<close>).
\<close>

datatype cast_line =
    CastHeader (cl_width: int) (cl_height: int) (cl_timestamp: int) (cl_title: string)
  | CastEvent (cl_elapsed: duration) (cl_code: string) (cl_data: string)

record recorder =
  rec_db :: bool \<comment> \<open>\<^verbatim>\<open>db != nil\<close>\<close>
  rec_sessionID :: string
  rec_serverID :: string
  rec_userID :: string
  rec_width :: int
  rec_height :: int
  rec_start :: gotime
  rec_lines :: "cast_line list"
  BytesRead :: int
  BytesWritten :: int
  rec_Publish :: bool \<comment> \<open>\<^verbatim>\<open>Publish\<close> is set (to the hub, for this session)\<close>

record session_row =
  sr_server_id :: "string option"
  sr_user_id :: "string option"
  sr_protocol :: string
  sr_reason :: "string option"
  sr_started_at :: gotime
  sr_ended_at :: "gotime option"
  sr_recording_path :: "string option"
  sr_bytes_read :: int
  sr_bytes_written :: int

text \<open>The state the proxy works on, without its sessions.\<close>

record gateway = tables +
  g_audit :: audit_table
  g_sink :: "sink_event list" \<comment> \<open>events handed to the audit sink, in order\<close>
  g_hub :: hub
  g_notifier :: "notifier option"
  g_rows :: "string \<rightharpoonup> session_row"
  g_files :: "string \<rightharpoonup> cast_line list"
  g_panic :: bool

definition audit_append ::
  "(string \<Rightarrow> string) \<Rightarrow> append_env \<Rightarrow> string \<Rightarrow> string \<Rightarrow> string \<Rightarrow> string \<Rightarrow> string \<Rightarrow>
   ('a gateway_scheme) \<Rightarrow> 'a gateway_scheme" where
  "audit_append sha env sess serv usr et d g =
     (case Append sha env sess serv usr et d (g_audit g) of
        (_, t, evs) \<Rightarrow> g\<lparr>g_audit := t, g_sink := g_sink g @ evs\<rparr>)"

definition hub_do :: "hub option \<Rightarrow> ('a gateway_scheme) \<Rightarrow> 'a gateway_scheme" where
  "hub_do r g = (case r of None \<Rightarrow> g\<lparr>g_panic := True\<rparr> | Some h \<Rightarrow> g\<lparr>g_hub := h\<rparr>)"

section \<open>The recorder\<close>

definition NewRecorder :: "bool \<Rightarrow> string \<Rightarrow> string \<Rightarrow> string \<Rightarrow> int \<Rightarrow> int \<Rightarrow> gotime \<Rightarrow> recorder" where
  "NewRecorder db sessionID serverID userID width height now =
     (let w = (if width \<le> 0 then 220 else width); h = (if height \<le> 0 then 50 else height)
      in \<lparr>rec_db = db, rec_sessionID = sessionID, rec_serverID = serverID, rec_userID = userID,
          rec_width = w, rec_height = h, rec_start = now,
          rec_lines = [CastHeader w h (Unix now) (json_text sessionID)],
          BytesRead = 0, BytesWritten = 0, rec_Publish = False\<rparr>)"

definition elapsed :: "gotime \<Rightarrow> recorder \<Rightarrow> duration" where
  "elapsed now r = now - rec_start r"

definition Bytes :: "recorder \<Rightarrow> int" where
  "Bytes r = BytesRead r + BytesWritten r"

definition appendEvent :: "gotime \<Rightarrow> string \<Rightarrow> string \<Rightarrow> recorder \<Rightarrow> recorder" where
  "appendEvent now code p r =
     r\<lparr>rec_lines := rec_lines r @ [CastEvent (elapsed now r) code (json_text p)]\<rparr>"

definition rec_audit ::
  "(string \<Rightarrow> string) \<Rightarrow> append_env \<Rightarrow> recorder \<Rightarrow> string \<Rightarrow> string \<Rightarrow> ('a gateway_scheme) \<Rightarrow> 'a gateway_scheme" where
  "rec_audit sha env r eventType d g =
     (if \<not> rec_db r then g
      else audit_append sha env (rec_sessionID r) (rec_serverID r) (rec_userID r) eventType d g)"

definition RecordOutput ::
  "(string \<Rightarrow> string) \<Rightarrow> append_env \<Rightarrow> gotime \<Rightarrow> string \<Rightarrow> recorder \<Rightarrow> ('a gateway_scheme) \<Rightarrow>
   recorder \<times> 'a gateway_scheme" where
  "RecordOutput sha env now p r g =
     (let r1 = appendEvent now ''o'' p (r\<lparr>BytesRead := BytesRead r + int (length p)\<rparr>);
          g1 = (if rec_Publish r then hub_do (Publish (rec_sessionID r) p (g_hub g)) g else g)
      in (r1, rec_audit sha env r1 EventOutput p g1))"

definition RecordInput ::
  "(string \<Rightarrow> string) \<Rightarrow> append_env \<Rightarrow> string \<Rightarrow> recorder \<Rightarrow> ('a gateway_scheme) \<Rightarrow>
   recorder \<times> 'a gateway_scheme" where
  "RecordInput sha env p r g =
     (let r1 = r\<lparr>BytesWritten := BytesWritten r + int (length p)\<rparr>
      in (r1, rec_audit sha env r1 EventInput p g))"

text \<open>
  \<open>recordingWriter.Write\<close>: the wrapped writer accepts \<open>n\<close> bytes, perhaps with an
  error; what it accepted is recorded.
\<close>

definition TeeInput_Write ::
  "(string \<Rightarrow> string) \<Rightarrow> append_env \<Rightarrow> nat \<Rightarrow> string \<Rightarrow> recorder \<Rightarrow> ('a gateway_scheme) \<Rightarrow>
   recorder \<times> 'a gateway_scheme" where
  "TeeInput_Write sha env n p r g = (if n > 0 then RecordInput sha env (take n p) r g else (r, g))"

text \<open>
  \<open>Flush\<close>: creating the directory or the file may fail, and so may writing line
  \<open>k\<close>, in which case the file is left with the lines before it.
\<close>

record flush_env =
  mkdir_fails :: bool
  create_fails :: bool
  write_fails_at :: "nat option"

definition nullable :: "string \<Rightarrow> string option" where
  "nullable s = (if s = [] then None else Some s)"

definition Flush :: "flush_env \<Rightarrow> string \<Rightarrow> recorder \<Rightarrow> ('a gateway_scheme) \<Rightarrow> string option \<times> 'a gateway_scheme" where
  "Flush env dir r g =
     (let path = path_join dir (rec_sessionID r @ ''.cast'')
      in if mkdir_fails env then (None, g)
         else if create_fails env then (None, g)
         else case write_fails_at env of
           Some k \<Rightarrow> if k < length (rec_lines r)
                     then (None, g\<lparr>g_files := (g_files g)(path \<mapsto> take k (rec_lines r))\<rparr>)
                     else (Some path, g\<lparr>g_files := (g_files g)(path \<mapsto> rec_lines r)\<rparr>)
         | None \<Rightarrow> (Some path, g\<lparr>g_files := (g_files g)(path \<mapsto> rec_lines r)\<rparr>))"

section \<open>What a recording holds\<close>

text \<open>The output text of a cast, and its recorded length.\<close>

fun cast_output :: "cast_line list \<Rightarrow> string" where
  "cast_output [] = []"
| "cast_output (CastHeader w h t n # ls) = cast_output ls"
| "cast_output (CastEvent t c d # ls) = (if c = ''o'' then d else []) @ cast_output ls"

lemma cast_output_append [simp, session_simps]: "cast_output (xs @ ys) = cast_output xs @ cast_output ys"
  by (induction xs rule: cast_output.induct) simp_all

lemma gateway_frames [simp, session_simps]:
  "g_hub (audit_append sha env a b c d e g) = g_hub g"
  "g_rows (audit_append sha env a b c d e g) = g_rows g"
  "g_files (audit_append sha env a b c d e g) = g_files g"
  "g_notifier (audit_append sha env a b c d e g) = g_notifier g"
  "g_panic (audit_append sha env a b c d e g) = g_panic g"
  "g_audit (hub_do r g) = g_audit g" "g_rows (hub_do r g) = g_rows g"
  "g_files (hub_do r g) = g_files g" "g_sink (hub_do r g) = g_sink g"
  "g_notifier (hub_do r g) = g_notifier g"
  by (auto simp: audit_append_def hub_do_def split: option.splits prod.splits)

lemma rec_audit_frames [simp, session_simps]:
  "g_hub (rec_audit sha env r e d g) = g_hub g" "g_rows (rec_audit sha env r e d g) = g_rows g"
  "g_files (rec_audit sha env r e d g) = g_files g" "g_notifier (rec_audit sha env r e d g) = g_notifier g"
  "g_panic (rec_audit sha env r e d g) = g_panic g"
  by (simp_all add: rec_audit_def)

lemma RecordOutput_rec [simp, session_simps]:
  "fst (RecordOutput sha env now p r g) =
     appendEvent now ''o'' p (r\<lparr>BytesRead := BytesRead r + int (length p)\<rparr>)"
  by (simp add: RecordOutput_def Let_def)

lemma RecordInput_rec [simp, session_simps]:
  "fst (RecordInput sha env p r g) = r\<lparr>BytesWritten := BytesWritten r + int (length p)\<rparr>"
  by (simp add: RecordInput_def Let_def)

text \<open>The audit rows a recorder writes when the database serves it.\<close>

lemma rec_audit_row:
  assumes "rec_db r" "\<not> insert_fails env"
  shows "\<exists>row. g_audit (rec_audit sha env r et d g) = g_audit g @ [row] \<and> content row = (et, d) \<and>
           session_id row = ns (rec_sessionID r) \<and> user_id row = ns (rec_userID r)"
  using assms by (simp add: rec_audit_def audit_append_def Append_def Let_def content_def)

end
