(* ===== verification/Session.thy ===== *)
theory Session
  imports Recorder
begin

text \<open>
  Resumable sessions (\<^verbatim>\<open>internal/proxy/resume.go\<close>) and the session bookkeeping of
  \<^verbatim>\<open>internal/proxy/ssh.go\<close>: the repaint ring buffer, the managed session that
  owns a shell independently of any browser WebSocket, the store that tracks it, the
  reaper and the watchdog.  Managed sessions and WebSockets are shared objects, so
  both live in heaps of the proxy state.
\<close>

definition resumeGrace :: duration where
  "resumeGrace = 3 * Minute"

definition repaintBytes :: nat where
  "repaintBytes = 256 * 1024"

section \<open>The ring buffer\<close>

record ring =
  ring_buf :: string
  ring_cap :: nat

definition newRing :: "nat \<Rightarrow> ring" where
  "newRing capBytes = \<lparr>ring_buf = [], ring_cap = capBytes\<rparr>"

definition ring_write :: "string \<Rightarrow> ring \<Rightarrow> ring" where
  "ring_write p r =
     (let b = ring_buf r @ p
      in r\<lparr>ring_buf := (if length b > ring_cap r then drop (length b - ring_cap r) b else b)\<rparr>)"

definition ring_snapshot :: "ring \<Rightarrow> string" where
  "ring_snapshot r = ring_buf r"

lemma ring_write_buf [simp, session_simps]:
  "ring_buf (ring_write p r) = lastn (ring_cap r) (ring_buf r @ p)"
  "ring_cap (ring_write p r) = ring_cap r"
  by (auto simp: ring_write_def lastn_def Let_def)

lemma ring_writes:
  "length (ring_buf r) \<le> ring_cap r \<Longrightarrow>
   ring_buf (fold ring_write ps r) = lastn (ring_cap r) (ring_buf r @ concat ps)"
proof (induction ps arbitrary: r)
  case (Cons p ps)
  show ?case using Cons.IH [of "ring_write p r"] by simp
qed simp

section \<open>State\<close>

datatype frame =
    TextF string
  | BinaryF string
  | SessionF string \<comment> \<open>the JSON object \<^verbatim>\<open>{"type": "session", "id": ...}\<close>\<close>
  | CloseF nat string

record websocket =
  ws_up :: bool
  ws_sent :: "frame list"

record watchdog =
  wd_start :: gotime
  wd_lastBytes :: int
  wd_lastChange :: gotime

record managed =
  m_id :: string
  m_userID :: string
  m_serverName :: string
  m_shell_open :: bool \<comment> \<open>\<^verbatim>\<open>session\<close> not yet closed\<close>
  m_client_open :: bool \<comment> \<open>\<^verbatim>\<open>client\<close> not yet closed\<close>
  m_window :: "int \<times> int" \<comment> \<open>rows and columns of the PTY\<close>
  m_rec :: recorder
  m_ring :: ring
  m_ws :: "nat option"
  m_detachedAt :: "gotime option" \<comment> \<open>\<open>None\<close> is the zero time\<close>
  m_ended :: bool
  m_endOnce :: bool
  m_watchdog :: "watchdog option" \<comment> \<open>the \<^verbatim>\<open>watchdogMS\<close> goroutine, while it runs\<close>

record proxy_cfg =
  RecordingPath :: string
  IdleTimeout :: duration
  MaxDuration :: duration
  JITRequired :: bool
  HasHub :: bool
  HasCA :: bool \<comment> \<open>\<^verbatim>\<open>CA != nil\<close>\<close>
  CertTTL :: duration

record proxy = gateway +
  p_ms :: "nat \<rightharpoonup> managed"
  p_store :: "string \<rightharpoonup> nat"
  p_ws :: "nat \<rightharpoonup> websocket"
  p_next :: nat

section \<open>The session store\<close>

definition store_add :: "nat \<Rightarrow> managed \<Rightarrow> proxy \<Rightarrow> proxy" where
  "store_add a m p = p\<lparr>p_store := (p_store p)(m_id m \<mapsto> a)\<rparr>"

definition store_get :: "string \<Rightarrow> proxy \<Rightarrow> nat option" where
  "store_get i p = p_store p i"

definition store_remove :: "string \<Rightarrow> proxy \<Rightarrow> proxy" where
  "store_remove i p = p\<lparr>p_store := (p_store p)(i := None)\<rparr>"

section \<open>WebSocket output\<close>

definition ws_write :: "nat \<Rightarrow> frame \<Rightarrow> proxy \<Rightarrow> proxy" where
  "ws_write w f p =
     (case p_ws p w of
        None \<Rightarrow> p
      | Some s \<Rightarrow> if ws_up s then p\<lparr>p_ws := (p_ws p)(w \<mapsto> s\<lparr>ws_sent := ws_sent s @ [f]\<rparr>)\<rparr> else p)"

definition ws_shut :: "nat \<Rightarrow> proxy \<Rightarrow> proxy" where
  "ws_shut w p =
     (case p_ws p w of None \<Rightarrow> p | Some s \<Rightarrow> p\<lparr>p_ws := (p_ws p)(w \<mapsto> s\<lparr>ws_up := False\<rparr>)\<rparr>)"

definition closeTerminated :: nat where "closeTerminated = 4001"
definition closeTimeout :: nat where "closeTimeout = 4002"

definition closeWS :: "nat \<Rightarrow> nat \<Rightarrow> string \<Rightarrow> proxy \<Rightarrow> proxy" where
  "closeWS w code reason p = ws_shut w (ws_write w (CloseF code reason) p)"

definition writeWS :: "nat \<Rightarrow> frame \<Rightarrow> proxy \<Rightarrow> proxy" where
  "writeWS a f p =
     (case p_ms p a of
        None \<Rightarrow> p
      | Some m \<Rightarrow> (case m_ws m of None \<Rightarrow> p | Some w \<Rightarrow> ws_write w f p))"

definition set_ms :: "nat \<Rightarrow> managed \<Rightarrow> proxy \<Rightarrow> proxy" where
  "set_ms a m p = p\<lparr>p_ms := (p_ms p)(a \<mapsto> m)\<rparr>"

section \<open>Operations of a managed session\<close>

definition new_managed :: "string \<Rightarrow> string \<Rightarrow> string \<Rightarrow> recorder \<Rightarrow> managed" where
  "new_managed i userID serverName r =
     \<lparr>m_id = i, m_userID = userID, m_serverName = serverName, m_shell_open = True, m_client_open = True,
      m_window = (50, 220), m_rec = r, m_ring = newRing repaintBytes, m_ws = None,
      m_detachedAt = None, m_ended = False, m_endOnce = False, m_watchdog = None\<rparr>"

text \<open>
  \<open>newManagedSession\<close>: requesting the PTY or starting the shell may fail; otherwise
  the session object is allocated and its output pumps may run.
\<close>

definition newManagedSession ::
  "bool \<Rightarrow> bool \<Rightarrow> string \<Rightarrow> string \<Rightarrow> string \<Rightarrow> recorder \<Rightarrow> proxy \<Rightarrow> nat option \<times> proxy" where
  "newManagedSession pty_fails shell_fails i userID serverName r p =
     (if pty_fails then (None, p)
      else if shell_fails then (None, p)
      else (Some (p_next p),
            (set_ms (p_next p) (new_managed i userID serverName r) p)\<lparr>p_next := Suc (p_next p)\<rparr>))"

definition attach :: "nat \<Rightarrow> nat \<Rightarrow> proxy \<Rightarrow> proxy" where
  "attach a w p =
     (case p_ms p a of
        None \<Rightarrow> p
      | Some m \<Rightarrow>
          (let p1 = set_ms a (m\<lparr>m_ws := Some w, m_detachedAt := None\<rparr>) p
           in ws_write w (BinaryF (ring_snapshot (m_ring m))) (ws_write w (SessionF (m_id m)) p1)))"

definition detach :: "gotime \<Rightarrow> nat \<Rightarrow> nat \<Rightarrow> proxy \<Rightarrow> proxy" where
  "detach now a w p =
     (case p_ms p a of
        None \<Rightarrow> p
      | Some m \<Rightarrow>
          if m_ws m = Some w then set_ms a (m\<lparr>m_ws := None, m_detachedAt := Some now\<rparr>) p else p)"

definition isEnded :: "nat \<Rightarrow> proxy \<Rightarrow> bool" where
  "isEnded a p = (case p_ms p a of None \<Rightarrow> False | Some m \<Rightarrow> m_ended m)"

record end_env =
  ee_append :: append_env
  ee_flush :: flush_env
  ee_update_fails :: bool
  ee_now :: gotime

definition notifySessionEnd :: "string \<Rightarrow> string \<Rightarrow> string \<Rightarrow> recorder \<Rightarrow> proxy \<Rightarrow> proxy" where
  "notifySessionEnd i server user r p =
     p\<lparr>g_notifier := emit \<lparr>ev_Type = ''session.end'', ev_Severity = ''info'', ev_Timestamp = [], ev_User = user,
          ev_Server = server, ev_Session = i, ev_Message = [],
          ev_Data = [(''bytes_read'', JInt (BytesRead r)), (''bytes_written'', JInt (BytesWritten r))]\<rparr>
        (g_notifier p)\<rparr>"

definition endSession ::
  "(string \<Rightarrow> string) \<Rightarrow> proxy_cfg \<Rightarrow> end_env \<Rightarrow> string \<Rightarrow> recorder \<Rightarrow> proxy \<Rightarrow> proxy" where
  "endSession sha cfg env i r p =
     (let p1 = rec_audit sha (ee_append env) r EventSessionEnd [] p;
          fl = Flush (ee_flush env) (RecordingPath cfg) r p1;
          path = (case fst fl of None \<Rightarrow> [] | Some q \<Rightarrow> q); p2 = snd fl
      in if i = [] then p2
         else if ee_update_fails env then p2
         else case g_rows p2 i of
           None \<Rightarrow> p2
         | Some row \<Rightarrow> p2\<lparr>g_rows := (g_rows p2)(i \<mapsto>
              row\<lparr>sr_ended_at := Some (ee_now env), sr_recording_path := Some path,
                  sr_bytes_read := BytesRead r, sr_bytes_written := BytesWritten r\<rparr>)\<rparr>)"

text \<open>\<open>end\<close>: the body runs once, guarded by \<^verbatim>\<open>endOnce\<close>.\<close>

definition ms_end :: "(string \<Rightarrow> string) \<Rightarrow> proxy_cfg \<Rightarrow> end_env \<Rightarrow> nat \<Rightarrow> proxy \<Rightarrow> proxy" where
  "ms_end sha cfg env a p =
     (case p_ms p a of
        None \<Rightarrow> p
      | Some m \<Rightarrow>
          if m_endOnce m then p
          else
            (let ws = m_ws m;
                 p1 = set_ms a (m\<lparr>m_ended := True, m_shell_open := False, m_client_open := False, m_endOnce := True\<rparr>) p;
                 p2 = endSession sha cfg env (m_id m) (m_rec m) p1;
                 p3 = (if HasHub cfg then hub_do (Unregister (m_id m) (g_hub p2)) p2 else p2);
                 p4 = notifySessionEnd (m_id m) (m_serverName m) (m_userID m) (m_rec m) p3;
                 p5 = store_remove (m_id m) p4
             in case ws of None \<Rightarrow> p5 | Some w \<Rightarrow> closeWS w closeTerminated ''session ended'' p5))"

text \<open>
  One read of an output stream by \<open>pump\<close>: a chunk of at most 32 KiB, perhaps empty,
  and whether the read returned an error (the stream is closed and the shell is
  over).  The chunk is recorded and buffered first and then forwarded to whichever
  WebSocket is attached at that moment.
\<close>

definition pump_record ::
  "(string \<Rightarrow> string) \<Rightarrow> append_env \<Rightarrow> gotime \<Rightarrow> nat \<Rightarrow> string \<Rightarrow> proxy \<Rightarrow> proxy" where
  "pump_record sha env now a chunk p =
     (case p_ms p a of
        None \<Rightarrow> p
      | Some m \<Rightarrow>
          (let rg = RecordOutput sha env now chunk (m_rec m) p
           in set_ms a (m\<lparr>m_rec := fst rg, m_ring := ring_write chunk (m_ring m)\<rparr>) (snd rg)))"

definition pump_read ::
  "(string \<Rightarrow> string) \<Rightarrow> proxy_cfg \<Rightarrow> append_env \<Rightarrow> end_env \<Rightarrow> gotime \<Rightarrow> nat \<Rightarrow> string \<Rightarrow> bool \<Rightarrow> proxy \<Rightarrow> proxy" where
  "pump_read sha cfg env eenv now a chunk eof p =
     (let p1 = (if chunk \<noteq> [] then writeWS a (BinaryF chunk) (pump_record sha env now a chunk p) else p)
      in if eof then ms_end sha cfg eenv a p1 else p1)"

text \<open>
  One message of \<open>runInput\<close>.  \<open>resize\<close> is what \<^verbatim>\<open>json.Unmarshal\<close> makes of the text
  as a resize message (type, cols, rows), if it parses; \<open>n\<close> and \<open>err\<close> are what
  writing to the shell's standard input returned.  The result says whether the
  loop goes on.
\<close>

record input_env =
  ie_append :: append_env
  ie_written :: nat
  ie_err :: bool

definition run_input ::
  "(string \<Rightarrow> string) \<Rightarrow> (string \<Rightarrow> (string \<times> int \<times> int) option) \<Rightarrow> input_env \<Rightarrow> nat \<Rightarrow> bool \<Rightarrow> string \<Rightarrow>
   proxy \<Rightarrow> bool \<times> proxy" where
  "run_input sha resize env a is_text d p =
     (case p_ms p a of
        None \<Rightarrow> (False, p)
      | Some m \<Rightarrow>
          (let rz = (if is_text \<and> d \<noteq> [] \<and> hd d = CHR ''{'' then resize d else None)
           in case rz of
                Some (t, cols, rows) \<Rightarrow>
                  if t = ''resize'' then (True, set_ms a (m\<lparr>m_window := (rows, cols)\<rparr>) p)
                  else (let rg = TeeInput_Write sha (ie_append env) (ie_written env) d (m_rec m) p
                        in (\<not> ie_err env, set_ms a (m\<lparr>m_rec := fst rg\<rparr>) (snd rg)))
              | None \<Rightarrow>
                  (let rg = TeeInput_Write sha (ie_append env) (ie_written env) d (m_rec m) p
                   in (\<not> ie_err env, set_ms a (m\<lparr>m_rec := fst rg\<rparr>) (snd rg)))))"

text \<open>
  One tick of the reaper: the sessions detached for longer than the grace period
  are collected first and then ended.  \<open>order\<close> is Go's iteration order over the map
  and \<open>env a\<close> what the database and the disk answer when session \<open>a\<close> ends.
\<close>

definition reap_expired :: "gotime \<Rightarrow> string list \<Rightarrow> proxy \<Rightarrow> nat list" where
  "reap_expired now order p =
     filter (\<lambda>a. case p_ms p a of
                   None \<Rightarrow> False
                 | Some m \<Rightarrow> (case m_detachedAt m of None \<Rightarrow> False | Some d \<Rightarrow> now - d > resumeGrace))
       (List.map_filter (\<lambda>i. p_store p i) order)"

definition reap ::
  "(string \<Rightarrow> string) \<Rightarrow> proxy_cfg \<Rightarrow> (nat \<Rightarrow> end_env) \<Rightarrow> gotime \<Rightarrow> string list \<Rightarrow> proxy \<Rightarrow> proxy" where
  "reap sha cfg env now order p = fold (\<lambda>a. ms_end sha cfg (env a) a) (reap_expired now order p) p"

text \<open>One tick of \<open>watchdogMS\<close>.\<close>

definition watchdog_tick ::
  "(string \<Rightarrow> string) \<Rightarrow> proxy_cfg \<Rightarrow> end_env \<Rightarrow> gotime \<Rightarrow> nat \<Rightarrow> proxy \<Rightarrow> proxy" where
  "watchdog_tick sha cfg env now a p =
     (case p_ms p a of
        None \<Rightarrow> p
      | Some m \<Rightarrow>
          (case m_watchdog m of
             None \<Rightarrow> p
           | Some wd \<Rightarrow>
               (let b = Bytes (m_rec m);
                    wd1 = (if b \<noteq> wd_lastBytes wd then wd\<lparr>wd_lastBytes := b, wd_lastChange := now\<rparr> else wd);
                    stop = m\<lparr>m_watchdog := None\<rparr>
                in if MaxDuration cfg > 0 \<and> now - wd_start wd1 \<ge> MaxDuration cfg then
                     ms_end sha cfg env a
                       (writeWS a (TextF (crlf @ ''[shellwarden] session ended: max duration'' @ crlf)) (set_ms a stop p))
                   else if IdleTimeout cfg > 0 \<and> now - wd_lastChange wd1 \<ge> IdleTimeout cfg then
                     ms_end sha cfg env a
                       (writeWS a (TextF (crlf @ ''[shellwarden] session ended: idle timeout'' @ crlf)) (set_ms a stop p))
                   else set_ms a (m\<lparr>m_watchdog := Some wd1\<rparr>) p)))"


section \<open>Frames\<close>

interpretation store: keyed_store "\<lambda>(a, m). m_id m" fst "\<lambda>(a, m). store_add a m" store_get store_remove
  by unfold_locales (auto simp: store_add_def store_get_def store_remove_def)

lemma proxy_frames [simp, session_simps]:
  "p_ms (audit_append sha env a b c d e p) = p_ms p" "p_ws (audit_append sha env a b c d e p) = p_ws p"
  "p_store (audit_append sha env a b c d e p) = p_store p" "p_next (audit_append sha env a b c d e p) = p_next p"
  "p_ms (hub_do r p) = p_ms p" "p_ws (hub_do r p) = p_ws p"
  "p_store (hub_do r p) = p_store p" "p_next (hub_do r p) = p_next p"
  by (auto simp: audit_append_def hub_do_def split: option.splits prod.splits)

lemma rec_audit_proxy [simp, session_simps]:
  "p_ms (rec_audit sha env r e d p) = p_ms p" "p_ws (rec_audit sha env r e d p) = p_ws p"
  "p_store (rec_audit sha env r e d p) = p_store p" "p_next (rec_audit sha env r e d p) = p_next p"
  by (simp_all add: rec_audit_def)

lemma Flush_proxy [simp, session_simps]:
  "p_ms (snd (Flush env dir r p)) = p_ms p" "p_ws (snd (Flush env dir r p)) = p_ws p"
  "p_store (snd (Flush env dir r p)) = p_store p" "g_hub (snd (Flush env dir r p)) = g_hub p"
  "g_audit (snd (Flush env dir r p)) = g_audit p" "g_rows (snd (Flush env dir r p)) = g_rows p"
  "g_panic (snd (Flush env dir r p)) = g_panic p"
  by (auto simp: Flush_def Let_def split: option.splits)

lemma ws_write_frames [simp, session_simps]:
  "p_ms (ws_write w f p) = p_ms p" "p_store (ws_write w f p) = p_store p" "g_hub (ws_write w f p) = g_hub p"
  "g_audit (ws_write w f p) = g_audit p" "g_rows (ws_write w f p) = g_rows p"
  "g_files (ws_write w f p) = g_files p" "g_panic (ws_write w f p) = g_panic p"
  by (auto simp: ws_write_def split: option.splits)

lemma writeWS_frames [simp, session_simps]:
  "p_ms (writeWS a f p) = p_ms p" "p_store (writeWS a f p) = p_store p" "g_hub (writeWS a f p) = g_hub p"
  "g_audit (writeWS a f p) = g_audit p" "g_rows (writeWS a f p) = g_rows p"
  "g_files (writeWS a f p) = g_files p" "g_panic (writeWS a f p) = g_panic p"
  by (auto simp: writeWS_def split: option.splits)

lemma closeWS_frames [simp, session_simps]:
  "p_ms (closeWS w c r p) = p_ms p" "p_store (closeWS w c r p) = p_store p" "g_hub (closeWS w c r p) = g_hub p"
  "g_audit (closeWS w c r p) = g_audit p" "g_rows (closeWS w c r p) = g_rows p"
  "g_files (closeWS w c r p) = g_files p" "g_panic (closeWS w c r p) = g_panic p"
  by (auto simp: closeWS_def ws_shut_def split: option.splits)

lemma endSession_frames [simp, session_simps]:
  "p_ms (endSession sha cfg env i r p) = p_ms p" "p_ws (endSession sha cfg env i r p) = p_ws p"
  "p_store (endSession sha cfg env i r p) = p_store p" "g_hub (endSession sha cfg env i r p) = g_hub p"
  "g_panic (endSession sha cfg env i r p) = g_panic p"
  "g_audit (endSession sha cfg env i r p) = g_audit (rec_audit sha (ee_append env) r EventSessionEnd [] p)"
  by (auto simp: endSession_def Let_def split: option.splits)

lemma pump_record_ms [session_simps]:
  "p_ms p a = Some m \<Longrightarrow>
   p_ms (pump_record sha env now a c p) = (p_ms p)(a \<mapsto>
     m\<lparr>m_rec := appendEvent now ''o'' c ((m_rec m)\<lparr>BytesRead := BytesRead (m_rec m) + int (length c)\<rparr>),
       m_ring := ring_write c (m_ring m)\<rparr>)"
  by (simp add: pump_record_def set_ms_def RecordOutput_def Let_def)

lemma ms_end_once: "p_ms p a = Some m \<Longrightarrow> m_endOnce m \<Longrightarrow> ms_end sha cfg env a p = p"
  by (simp add: ms_end_def)

lemma ms_end_ms:
  "p_ms p a = Some m \<Longrightarrow> \<not> m_endOnce m \<Longrightarrow>
   p_ms (ms_end sha cfg env a p) =
     (p_ms p)(a \<mapsto> m\<lparr>m_ended := True, m_shell_open := False, m_client_open := False, m_endOnce := True\<rparr>)"
  by (auto simp: ms_end_def Let_def store_remove_def notifySessionEnd_def set_ms_def split: option.splits)

lemma ms_end_store:
  "p_ms p a = Some m \<Longrightarrow> \<not> m_endOnce m \<Longrightarrow>
   p_store (ms_end sha cfg env a p) = (p_store p)(m_id m := None)"
  by (auto simp: ms_end_def Let_def store_remove_def notifySessionEnd_def set_ms_def split: option.splits)

lemma ms_end_hub:
  "p_ms p a = Some m \<Longrightarrow> \<not> m_endOnce m \<Longrightarrow> HasHub cfg \<Longrightarrow> Unregister (m_id m) (g_hub p) = Some h \<Longrightarrow>
   g_hub (ms_end sha cfg env a p) = h"
  by (auto simp: ms_end_def Let_def store_remove_def notifySessionEnd_def set_ms_def hub_do_def split: option.splits)


section \<open>Output, repaint and end of a session\<close>

text \<open>A run of reads by the pump that do not reach the end of the stream.\<close>

definition pump_run ::
  "(string \<Rightarrow> string) \<Rightarrow> proxy_cfg \<Rightarrow> end_env \<Rightarrow> nat \<Rightarrow> (append_env \<times> gotime \<times> string) list \<Rightarrow> proxy \<Rightarrow> proxy" where
  "pump_run sha cfg eenv a reads p =
     fold (\<lambda>(env, now, c). pump_read sha cfg env eenv now a c False) reads p"

definition chunks :: "(append_env \<times> gotime \<times> string) list \<Rightarrow> string list" where
  "chunks reads = map (\<lambda>(env, now, c). c) reads"

lemma chunks_simps [simp]: "chunks [] = []" "chunks ((env, now, c) # rs) = c # chunks rs"
  by (simp_all add: chunks_def)

lemma pump_read_ms:
  assumes "p_ms p a = Some m"
  shows "\<exists>m'. p_ms (pump_read sha cfg env eenv now a c False p) a = Some m' \<and>
    BytesRead (m_rec m') = BytesRead (m_rec m) + int (length c) \<and>
    cast_output (rec_lines (m_rec m')) = cast_output (rec_lines (m_rec m)) @ json_text c \<and>
    rec_db (m_rec m') = rec_db (m_rec m) \<and> m_id m' = m_id m \<and> m_ws m' = m_ws m \<and>
    ring_cap (m_ring m') = ring_cap (m_ring m) \<and>
    (c = [] \<or> length (ring_buf (m_ring m)) \<le> ring_cap (m_ring m) \<longrightarrow>
       ring_buf (m_ring m') = lastn (ring_cap (m_ring m)) (ring_buf (m_ring m) @ c) \<or>
       c = [] \<and> ring_buf (m_ring m') = ring_buf (m_ring m))"
  using assms by (cases "c = []") (auto simp: pump_read_def pump_record_ms appendEvent_def)

lemma pump_run_ms:
  assumes "p_ms p a = Some m" "length (ring_buf (m_ring m)) \<le> ring_cap (m_ring m)"
  shows "\<exists>m'. p_ms (pump_run sha cfg eenv a reads p) a = Some m' \<and>
    BytesRead (m_rec m') = BytesRead (m_rec m) + int (length (concat (chunks reads))) \<and>
    cast_output (rec_lines (m_rec m')) =
      cast_output (rec_lines (m_rec m)) @ concat (map json_text (chunks reads)) \<and>
    ring_buf (m_ring m') = lastn (ring_cap (m_ring m)) (ring_buf (m_ring m) @ concat (chunks reads)) \<and>
    m_id m' = m_id m \<and> m_ws m' = m_ws m \<and> ring_cap (m_ring m') = ring_cap (m_ring m)"
  using assms
proof (induction reads arbitrary: p m)
  case (Cons r reads)
  obtain env now c where r: "r = (env, now, c)" by (cases r)
  obtain m1 where m1: "p_ms (pump_read sha cfg env eenv now a c False p) a = Some m1"
      "BytesRead (m_rec m1) = BytesRead (m_rec m) + int (length c)"
      "cast_output (rec_lines (m_rec m1)) = cast_output (rec_lines (m_rec m)) @ json_text c"
      "m_id m1 = m_id m" "m_ws m1 = m_ws m" "ring_cap (m_ring m1) = ring_cap (m_ring m)"
      "ring_buf (m_ring m1) = lastn (ring_cap (m_ring m)) (ring_buf (m_ring m) @ c)"
    using pump_read_ms [OF Cons.prems(1), of sha cfg env eenv now c] Cons.prems(2) by auto
  have "length (ring_buf (m_ring m1)) \<le> ring_cap (m_ring m1)"
    using m1 by simp
  from Cons.IH [OF m1(1) this] m1 show ?case
    by (auto simp: r pump_run_def)
qed (simp add: pump_run_def)

lemma pump_run_audit:
  assumes "p_ms p a = Some m" "rec_db (m_rec m)"
    and "list_all (\<lambda>(env, now, c). \<not> insert_fails env) reads"
  shows "map content (g_audit (pump_run sha cfg eenv a reads p)) =
    map content (g_audit p) @ map (\<lambda>c. (EventOutput, c)) (filter (\<lambda>c. c \<noteq> []) (chunks reads))"
  using assms
proof (induction reads arbitrary: p m)
  case (Cons r reads)
  obtain env now c where r: "r = (env, now, c)" by (cases r)
  let ?p = "pump_read sha cfg env eenv now a c False p"
  obtain m1 where m1: "p_ms ?p a = Some m1" "rec_db (m_rec m1)"
    using pump_read_ms [OF Cons.prems(1), of sha cfg env eenv now c] Cons.prems(2) by auto
  have "map content (g_audit ?p) = map content (g_audit p) @ (if c = [] then [] else [(EventOutput, c)])"
    using Cons.prems r
    by (auto simp: pump_read_def pump_record_def RecordOutput_def set_ms_def Let_def rec_audit_def
        audit_append_def Append_def content_def appendEvent_def)
  with Cons.IH [OF m1] Cons.prems(3) show ?case
    by (simp add: r pump_run_def)
qed (simp add: pump_run_def)

text \<open>C5: Nothing the shell prints is lost: after any run of reads by the pump, the byte
  counter has grown by exactly the bytes read, the recording holds every chunk in
  order (as JSON text), the repaint buffer holds the most recent output up to its
  capacity, and, where the inserts succeed, the audit log has gained one
  \<^verbatim>\<open>output\<close> row per chunk with exactly its bytes.\<close>

theorem output_recorded:
  assumes "p_ms p a = Some m" and "length (ring_buf (m_ring m)) \<le> ring_cap (m_ring m)"
    and "rec_db (m_rec m)" and "list_all (\<lambda>(env, now, c). \<not> insert_fails env) reads"
  shows "\<exists>m'. p_ms (pump_run sha cfg eenv a reads p) a = Some m' \<and>
    BytesRead (m_rec m') = BytesRead (m_rec m) + int (length (concat (chunks reads))) \<and>
    cast_output (rec_lines (m_rec m')) =
      cast_output (rec_lines (m_rec m)) @ concat (map json_text (chunks reads)) \<and>
    ring_snapshot (m_ring m') = lastn (ring_cap (m_ring m)) (ring_buf (m_ring m) @ concat (chunks reads)) \<and>
    map content (g_audit (pump_run sha cfg eenv a reads p)) =
      map content (g_audit p) @ map (\<lambda>c. (EventOutput, c)) (filter (\<lambda>c. c \<noteq> []) (chunks reads))"
  using pump_run_ms [OF assms(1,2), of sha cfg eenv reads] pump_run_audit [OF assms(1,3,4)]
  by (auto simp: ring_snapshot_def)

text \<open>A proxy with one fresh session and one WebSocket, used by the witnesses.\<close>

definition demo_rec :: recorder where
  "demo_rec = NewRecorder True ''s1'' ''h1'' ''u1'' 220 50 0"

definition demo :: proxy where
  "demo = \<lparr>t_servers = Map.empty, t_groups = [], t_members = {}, t_requests = [], g_audit = [], g_sink = [], g_hub = NewHub, g_notifier = None,
     g_rows = [''s1'' \<mapsto> \<lparr>sr_server_id = Some ''h1'', sr_user_id = Some ''u1'', sr_protocol = ''ssh'',
        sr_reason = None, sr_started_at = 0, sr_ended_at = None, sr_recording_path = None,
        sr_bytes_read = 0, sr_bytes_written = 0\<rparr>],
     g_files = Map.empty, g_panic = False,
     p_ms = [0 \<mapsto> new_managed ''s1'' ''u1'' ''web'' demo_rec], p_store = [''s1'' \<mapsto> 0],
     p_ws = [7 \<mapsto> \<lparr>ws_up = True, ws_sent = []\<rparr>], p_next = 1\<rparr>"

definition demo_cfg :: proxy_cfg where
  "demo_cfg = \<lparr>RecordingPath = ''rec'', IdleTimeout = 0, MaxDuration = 60 * Minute,
               JITRequired = False, HasHub = True, HasCA = False, CertTTL = 0\<rparr>"

definition demo_end :: end_env where
  "demo_end = \<lparr>ee_append = sample_env 9, ee_flush = \<lparr>mkdir_fails = False, create_fails = False,
     write_fails_at = None\<rparr>, ee_update_fails = False, ee_now = 5\<rparr>"

theorem output_recorded_witness:
  "\<exists>m'. p_ms (pump_run id demo_cfg demo_end 0 [(sample_env 1, 1, ''ls''), (sample_env 3, 2, ''ok'')] demo) 0 = Some m' \<and>
     BytesRead (m_rec m') = 4 \<and>
     map content (g_audit (pump_run id demo_cfg demo_end 0 [(sample_env 1, 1, ''ls''), (sample_env 3, 2, ''ok'')] demo)) =
       [(EventOutput, ''ls''), (EventOutput, ''ok'')]"
  using output_recorded [of demo 0 "new_managed ''s1'' ''u1'' ''web'' demo_rec"
      "[(sample_env 1, 1, ''ls''), (sample_env 3, 2, ''ok'')]" id demo_cfg demo_end]
  by (auto simp: demo_def new_managed_def newRing_def demo_rec_def NewRecorder_def sample_env_def)

text \<open>Resume repaints the recent screen: a browser that attaches to a session receives
  first the session id and then, in one binary frame, the last 256 KiB of everything
  the shell has printed since it started, whether or not any browser was attached
  while it was printed.\<close>

theorem resume_repaints:
  assumes "p_ms p a = Some (new_managed i u srv r)" and "p_ws (pump_run sha cfg eenv a reads p) w = Some s"
    and "ws_up s"
  shows "\<exists>s'. p_ws (attach a w (pump_run sha cfg eenv a reads p)) w = Some s' \<and>
    ws_sent s' = ws_sent s @ [SessionF i, BinaryF (lastn (256 * 1024) (concat (chunks reads)))]"
proof -
  obtain m where "p_ms (pump_run sha cfg eenv a reads p) a = Some m" "m_id m = i"
      "ring_buf (m_ring m) = lastn repaintBytes (concat (chunks reads))"
    using pump_run_ms [OF assms(1), of sha cfg eenv reads] by (auto simp: new_managed_def newRing_def)
  with assms(2,3) show ?thesis
    by (simp add: attach_def ws_write_def set_ms_def ring_snapshot_def repaintBytes_def Let_def)
qed

theorem resume_repaints_witness:
  "\<exists>s'. p_ws (attach 0 7 (pump_run id demo_cfg demo_end 0 [(sample_env 1, 1, ''ls'')] demo)) 7 = Some s' \<and>
     ws_sent s' = [SessionF ''s1'', BinaryF ''ls'']"
proof -
  have "p_ws (pump_run id demo_cfg demo_end 0 [(sample_env 1, 1, ''ls'')] demo) 7 = Some \<lparr>ws_up = True, ws_sent = []\<rparr>"
    by (simp add: pump_run_def pump_read_def pump_record_def writeWS_def demo_def new_managed_def set_ms_def
        RecordOutput_def rec_audit_def audit_append_def Append_def demo_rec_def NewRecorder_def Let_def
        appendEvent_def)
  then show ?thesis
    using resume_repaints [of demo 0 "''s1''" "''u1''" "''web''" demo_rec id demo_cfg demo_end
        "[(sample_env 1, 1, ''ls'')]" 7 "\<lparr>ws_up = True, ws_sent = []\<rparr>"]
    by (simp add: demo_def)
qed


text \<open>A session ends once: whoever calls \<open>end\<close> again (the second pump, the reaper, the
  watchdog, an administrator), with whatever the database and the disk answer then,
  changes nothing at all.\<close>

theorem end_idempotent:
  "ms_end sha cfg env' a (ms_end sha cfg env a p) = ms_end sha cfg env a p"
proof (cases "p_ms p a")
  case None
  then show ?thesis by (simp add: ms_end_def)
next
  case (Some m)
  show ?thesis
  proof (cases "m_endOnce m")
    case True
    with Some show ?thesis by (simp add: ms_end_once)
  next
    case False
    have "p_ms (ms_end sha cfg env a p) a = Some (m\<lparr>m_ended := True, m_shell_open := False, m_client_open := False, m_endOnce := True\<rparr>)"
      using ms_end_ms [OF Some False] by simp
    then show ?thesis by (rule ms_end_once) simp
  qed
qed

definition flush_ok :: "flush_env \<Rightarrow> bool" where
  "flush_ok e \<longleftrightarrow> \<not> mkdir_fails e \<and> \<not> create_fails e \<and> write_fails_at e = None"

lemma endSession_effect:
  assumes "g_rows p i = Some row" "i \<noteq> []" "flush_ok (ee_flush env)" "\<not> ee_update_fails env"
  shows "\<exists>path. g_files (endSession sha cfg env i r p) path = Some (rec_lines r) \<and>
    g_rows (endSession sha cfg env i r p) i = Some (row\<lparr>sr_ended_at := Some (ee_now env),
      sr_recording_path := Some path, sr_bytes_read := BytesRead r, sr_bytes_written := BytesWritten r\<rparr>)"
  using assms
  by (intro exI [of _ "path_join (RecordingPath cfg) (rec_sessionID r @ ''.cast'')"])
     (auto simp: endSession_def Flush_def flush_ok_def Let_def)

lemma ms_end_eq:
  assumes "p_ms p a = Some m" "\<not> m_endOnce m"
  shows "g_rows (ms_end sha cfg env a p) = g_rows (endSession sha cfg env (m_id m) (m_rec m)
           (set_ms a (m\<lparr>m_ended := True, m_shell_open := False, m_client_open := False, m_endOnce := True\<rparr>) p))"
    and "g_files (ms_end sha cfg env a p) = g_files (endSession sha cfg env (m_id m) (m_rec m)
           (set_ms a (m\<lparr>m_ended := True, m_shell_open := False, m_client_open := False, m_endOnce := True\<rparr>) p))"
    and "g_audit (ms_end sha cfg env a p) = g_audit (rec_audit sha (ee_append env) (m_rec m) EventSessionEnd [] p)"
  using assms
  by (auto simp: ms_end_def Let_def store_remove_def notifySessionEnd_def set_ms_def
      rec_audit_def audit_append_def split: option.splits prod.splits)

lemma ms_end_ws:
  assumes "p_ms p a = Some m" "\<not> m_endOnce m" "m_ws m = Some w" "p_ws p w = Some s" "ws_up s"
  shows "p_ws (ms_end sha cfg env a p) w =
    Some (s\<lparr>ws_sent := ws_sent s @ [CloseF closeTerminated ''session ended''], ws_up := False\<rparr>)"
  using assms
  by (simp add: ms_end_def Let_def store_remove_def notifySessionEnd_def set_ms_def closeWS_def
      ws_write_def ws_shut_def)

lemma Unregister_ok:
  assumes "hub_inv h"
  shows "\<exists>h'. Unregister i h = Some h' \<and> hub_inv h' \<and> sessions h' i = None"
proof (cases "sessions h i")
  case None
  then show ?thesis
    using hub_inv_delete [OF assms, of i] by (simp add: Unregister_def unregister_delete_def)
next
  case (Some a)
  then obtain ls where a: "objs (unregister_delete i h) a = Some ls"
    using hub_invD(1) [OF assms Some] by (auto simp: unregister_delete_def)
  note inv = hub_inv_delete [OF assms, of i]
  show ?thesis
    using Some hub_inv_close_subs [OF inv a] close_subs_Some [OF inv a]
    by (auto simp: Unregister_def unregister_delete_def)
qed

text \<open>C4: Ending a live session leaves nothing behind: the shell and the SSH connection are closed, the session is
  marked ended and is neither in the store nor in the hub (and the hub did not panic), one
  \<^verbatim>\<open>session_end\<close> row is appended, the recording file holds every recorded line,
  the session row carries the end time and exactly the recorder's byte counts, and
  the attached browser was sent one of the close codes on which it does not reconnect, and its socket is
  closed.  The database takes the rows and the recording directory can be written.\<close>

theorem end_finishes_session:
  assumes "p_ms p a = Some m" and "\<not> m_endOnce m" and "HasHub cfg" and "hub_inv (g_hub p)"
    and "g_rows p (m_id m) = Some row" and "m_id m \<noteq> []" and "rec_db (m_rec m)"
    and "flush_ok (ee_flush env)" and "\<not> ee_update_fails env" and "\<not> insert_fails (ee_append env)"
    and "m_ws m = Some w" and "p_ws p w = Some s" and "ws_up s"
  shows "let q = ms_end sha cfg env a p in
    isEnded a q \<and> map_option (\<lambda>m. (m_shell_open m, m_client_open m)) (p_ms q a) = Some (False, False) \<and>
    store_get (m_id m) q = None \<and> m_id m \<notin> Active (g_hub q) \<and> hub_inv (g_hub q) \<and>
    map content (g_audit q) = map content (g_audit p) @ [(EventSessionEnd, [])] \<and>
    (\<exists>path row'. g_files q path = Some (rec_lines (m_rec m)) \<and> g_rows q (m_id m) = Some row' \<and>
       sr_recording_path row' = Some path \<and> sr_ended_at row' = Some (ee_now env) \<and>
       sr_bytes_read row' = BytesRead (m_rec m) \<and> sr_bytes_written row' = BytesWritten (m_rec m)) \<and>
    (\<exists>code \<in> {closeTerminated, closeTimeout}.
       p_ws q w = Some (s\<lparr>ws_sent := ws_sent s @ [CloseF code ''session ended''], ws_up := False\<rparr>))"
proof -
  let ?q = "ms_end sha cfg env a p"
  let ?p1 = "set_ms a (m\<lparr>m_ended := True, m_shell_open := False, m_client_open := False, m_endOnce := True\<rparr>) p"
  obtain h where h: "Unregister (m_id m) (g_hub p) = Some h" "hub_inv h" "sessions h (m_id m) = None"
    using Unregister_ok [OF assms(4)] by blast
  have "isEnded a ?q" "map_option (\<lambda>m. (m_shell_open m, m_client_open m)) (p_ms ?q a) = Some (False, False)"
      "store_get (m_id m) ?q = None"
    using ms_end_ms [OF assms(1,2)] ms_end_store [OF assms(1,2)]
    by (simp_all add: isEnded_def store_get_def)
  moreover have "m_id m \<notin> Active (g_hub ?q)" "hub_inv (g_hub ?q)"
    using ms_end_hub [OF assms(1-3) h(1)] h by (simp_all add: Active_def domIff)
  moreover have "map content (g_audit ?q) = map content (g_audit p) @ [(EventSessionEnd, [])]"
    using ms_end_eq(3) [OF assms(1,2)] rec_audit_row [OF assms(7,10), of sha EventSessionEnd "[]" p] by auto
  moreover have "g_rows ?p1 (m_id m) = Some row"
    using assms(5) by (simp add: set_ms_def)
  note endSession_effect [OF this assms(6,8,9), of sha cfg "m_rec m"]
  moreover have "\<exists>code \<in> {closeTerminated, closeTimeout}.
      p_ws ?q w = Some (s\<lparr>ws_sent := ws_sent s @ [CloseF code ''session ended''], ws_up := False\<rparr>)"
    using ms_end_ws [OF assms(1,2,11-13)] by blast
  ultimately show ?thesis
    unfolding Let_def ms_end_eq(1,2) [OF assms(1,2)] by auto
qed

theorem end_finishes_session_witness:
  "let q = ms_end id demo_cfg demo_end 0 (attach 0 7 demo) in
     isEnded 0 q \<and> map_option m_client_open (p_ms q 0) = Some False \<and> store_get ''s1'' q = None"
proof -
  let ?m = "(new_managed ''s1'' ''u1'' ''web'' demo_rec)\<lparr>m_ws := Some 7, m_detachedAt := None\<rparr>"
  let ?p = "attach 0 7 demo"
  have "p_ms ?p 0 = Some ?m"
    by (simp add: attach_def demo_def set_ms_def ws_write_def Let_def)
  moreover have "hub_inv (g_hub ?p)"
    by (simp add: attach_def demo_def set_ms_def ws_write_def Let_def hub_inv_NewHub)
  moreover obtain row where "g_rows ?p (m_id ?m) = Some row"
    by (simp add: attach_def demo_def set_ms_def ws_write_def Let_def new_managed_def)
  moreover obtain s where "p_ws ?p 7 = Some s" "ws_up s"
    by (simp add: attach_def demo_def set_ms_def ws_write_def Let_def)
  ultimately show ?thesis
    using end_finishes_session [of ?p 0 ?m demo_cfg row demo_end 7 s id]
    by (auto simp: new_managed_def demo_cfg_def demo_end_def sample_env_def flush_ok_def demo_rec_def
        NewRecorder_def Let_def)
qed


section \<open>The reaper and the watchdog\<close>

text \<open>
  The store is well formed when it maps every id to an allocated session with that
  id; ended sessions have their once-flag set.
\<close>

definition store_wf :: "proxy \<Rightarrow> bool" where
  "store_wf p \<longleftrightarrow> (\<forall>i a. p_store p i = Some a \<longrightarrow> (\<exists>m. p_ms p a = Some m \<and> m_id m = i)) \<and>
     (\<forall>a m. p_ms p a = Some m \<longrightarrow> m_ended m = m_endOnce m)"

definition expired :: "gotime \<Rightarrow> managed \<Rightarrow> bool" where
  "expired now m \<longleftrightarrow> (case m_detachedAt m of None \<Rightarrow> False | Some d \<Rightarrow> now - d > resumeGrace)"

lemma ms_end_other: "b \<noteq> a \<Longrightarrow> p_ms (ms_end sha cfg env a p) b = p_ms p b"
  by (cases "p_ms p a") (auto simp: ms_end_def Let_def store_remove_def notifySessionEnd_def set_ms_def split: option.splits)

lemma ms_end_store_other:
  "(\<And>m. p_ms p a = Some m \<Longrightarrow> m_id m \<noteq> i) \<Longrightarrow> p_store (ms_end sha cfg env a p) i = p_store p i"
  by (cases "p_ms p a") (auto simp: ms_end_def Let_def store_remove_def notifySessionEnd_def set_ms_def split: option.splits)

lemma ms_end_none: "p_ms p a = None \<Longrightarrow> ms_end sha cfg env a p = p"
  by (simp add: ms_end_def)

definition finished :: "managed \<Rightarrow> managed" where
  "finished m = (if m_endOnce m then m else m\<lparr>m_ended := True, m_shell_open := False, m_client_open := False, m_endOnce := True\<rparr>)"

lemma finished_simps [simp, session_simps]:
  "finished (finished m) = finished m" "m_id (finished m) = m_id m" "m_endOnce (finished m)"
  "m_ended m = m_endOnce m \<Longrightarrow> m_ended (finished m)"
  by (simp_all add: finished_def)

lemma ms_end_at:
  "p_ms (ms_end sha cfg env a p) b = (if b = a then map_option finished (p_ms p b) else p_ms p b)"
proof (cases "p_ms p a")
  case (Some m)
  then show ?thesis
    using ms_end_once [OF Some] ms_end_ms [OF Some]
    by (cases "m_endOnce m") (auto simp: finished_def)
qed (simp add: ms_end_none)

lemma ends_ms:
  "p_ms (fold (\<lambda>a. ms_end sha cfg (env a) a) as p) b =
     (if b \<in> set as then map_option finished (p_ms p b) else p_ms p b)"
  by (induction "as" arbitrary: p) (auto simp: ms_end_at option.map_comp o_def)

lemma ends_store_keep:
  "(\<And>a m. a \<in> set as \<Longrightarrow> p_ms p a = Some m \<Longrightarrow> m_id m \<noteq> i) \<Longrightarrow>
   p_store (fold (\<lambda>a. ms_end sha cfg (env a) a) as p) i = p_store p i"
proof (induction "as" arbitrary: p)
  case (Cons a as')
  let ?p = "ms_end sha cfg (env a) a p"
  have "m_id m \<noteq> i" if "b \<in> set as'" "p_ms ?p b = Some m" for b m
    using that Cons.prems [of b] by (auto simp: ms_end_at split: if_splits)
  then have "p_store (fold (\<lambda>a. ms_end sha cfg (env a) a) as' ?p) i = p_store ?p i"
    by (rule Cons.IH)
  also have "p_store ?p i = p_store p i"
    using Cons.prems by (intro ms_end_store_other) auto
  finally show ?case by simp
qed simp

lemma ends_store_mono: "p_store p i = None \<Longrightarrow> p_store (fold (\<lambda>a. ms_end sha cfg (env a) a) as p) i = None"
proof (induction "as" arbitrary: p)
  case (Cons a as')
  have "p_store (ms_end sha cfg (env a) a p) i = None"
    using Cons.prems
    by (cases "p_ms p a") (auto simp: ms_end_def Let_def store_remove_def notifySessionEnd_def set_ms_def split: option.splits)
  with Cons.IH show ?case by simp
qed simp

lemma ends_store_remove:
  "a \<in> set as \<Longrightarrow> p_ms p a = Some m \<Longrightarrow> \<not> m_endOnce m \<Longrightarrow>
   p_store (fold (\<lambda>a. ms_end sha cfg (env a) a) as p) (m_id m) = None"
proof (induction "as" arbitrary: p)
  case (Cons b as')
  show ?case
  proof (cases "b = a")
    case True
    then have "p_store (ms_end sha cfg (env b) b p) (m_id m) = None"
      using ms_end_store [OF Cons.prems(2,3)] by simp
    then show ?thesis by (simp add: ends_store_mono)
  next
    case False
    with Cons show ?thesis by (simp add: ms_end_other)
  qed
qed simp

lemma reap_expired_iff:
  assumes "set order = dom (p_store p)"
  shows "a \<in> set (reap_expired now order p) \<longleftrightarrow>
    (\<exists>i m. p_store p i = Some a \<and> p_ms p a = Some m \<and> expired now m)"
  using assms
  by (force simp: reap_expired_def expired_def List.map_filter_def split: option.splits)

text \<open>C6: A browser drop is survivable for exactly the grace period: one pass of the reaper, in
  whatever order the store is iterated, ends every session that has been detached
  for more than three minutes and takes it out of the store, and leaves every other
  session, attached or detached more recently, and its store entry exactly as they
  were.\<close>

theorem reap_ends_expired_only:
  assumes "store_wf p" and "set order = dom (p_store p)"
    and "store_get i p = Some a" and "p_ms p a = Some m" and "\<not> m_ended m"
  shows "let q = reap sha cfg env now order p in
    if expired now m then isEnded a q \<and> store_get i q = None
    else p_ms q a = Some m \<and> store_get i q = Some a"
proof (cases "expired now m")
  case True
  then have "a \<in> set (reap_expired now order p)"
    using assms reap_expired_iff [OF assms(2)] by (auto simp: store_get_def)
  moreover have "m_id m = i"
    using assms(1,3,4) unfolding store_wf_def store_get_def by fastforce
  moreover have "\<not> m_endOnce m" "m_ended m = m_endOnce m"
    using assms(1,4,5) by (auto simp: store_wf_def)
  ultimately show ?thesis
    using True assms ends_store_remove [of a "reap_expired now order p" p m sha cfg env]
    by (auto simp: reap_def isEnded_def store_get_def ends_ms Let_def)
next
  case False
  have "m_id n \<noteq> i" if "b \<in> set (reap_expired now order p)" "p_ms p b = Some n" for b n
  proof
    assume "m_id n = i"
    from that obtain j where "p_store p j = Some b" "expired now n"
      using reap_expired_iff [OF assms(2)] by auto
    moreover from this(1) have "j = i"
      using \<open>m_id n = i\<close> that(2) assms(1) unfolding store_wf_def by fastforce
    ultimately show False
      using that(2) assms(3,4) False by (simp add: store_get_def)
  qed
  then have "p_store (reap sha cfg env now order p) i = p_store p i"
    unfolding reap_def by (rule ends_store_keep)
  moreover have "a \<notin> set (reap_expired now order p)"
    using False assms(4) reap_expired_iff [OF assms(2)] by auto
  ultimately show ?thesis
    using False assms(3,4) by (simp add: reap_def ends_ms store_get_def Let_def)
qed

theorem reap_ends_expired_only_witness:
  "let q = reap id demo_cfg (\<lambda>a. demo_end) (4 * Minute) [''s1''] (detach 0 0 7 (attach 0 7 demo)) in
     isEnded 0 q \<and> store_get ''s1'' q = None"
proof -
  let ?p = "detach 0 0 7 (attach 0 7 demo)"
  let ?m = "(new_managed ''s1'' ''u1'' ''web'' demo_rec)\<lparr>m_detachedAt := Some 0\<rparr>"
  have m: "p_ms ?p = [0 \<mapsto> ?m]" and s: "p_store ?p = [''s1'' \<mapsto> 0]"
    by (simp_all add: detach_def attach_def demo_def set_ms_def ws_write_def Let_def new_managed_def)
  have "store_wf ?p"
    using m s by (simp add: store_wf_def new_managed_def)
  from reap_ends_expired_only [OF this, of "[''s1'']" "''s1''" 0 ?m id demo_cfg "\<lambda>a. demo_end" "4 * Minute"] m s
  show ?thesis
    by (simp add: store_get_def new_managed_def expired_def resumeGrace_def Let_def)
qed

text \<open>C7: The watchdog enforces the limits while it runs: at a tick at which the session has
  lasted for the maximal duration, or for the idle timeout without a byte in either
  direction, it ends the session; otherwise the session is untouched but for the
  watchdog's own notes.\<close>

theorem watchdog_enforces_limits:
  assumes "p_ms p a = Some m" and "m_watchdog m = Some wd"
  shows "(let active = (Bytes (m_rec m) \<noteq> wd_lastBytes wd);
             over = (MaxDuration cfg > 0 \<and> now - wd_start wd \<ge> MaxDuration cfg);
             idle = (IdleTimeout cfg > 0 \<and> \<not> active \<and> now - wd_lastChange wd \<ge> IdleTimeout cfg);
             q = watchdog_tick sha cfg env now a p
         in (over \<or> idle \<longrightarrow> m_endOnce m = m_ended m \<longrightarrow> isEnded a q) \<and>
            (\<not> over \<and> \<not> idle \<longrightarrow>
               (\<exists>wd'. q = set_ms a (m\<lparr>m_watchdog := Some wd'\<rparr>) p \<and> wd_start wd' = wd_start wd \<and>
                  wd_lastBytes wd' = Bytes (m_rec m) \<and>
                  wd_lastChange wd' = (if active then now else wd_lastChange wd))))"
proof -
  let ?stop = "m\<lparr>m_watchdog := None\<rparr>"
  have ended: "isEnded a (ms_end sha cfg env a (writeWS a f (set_ms a ?stop p)))" if "m_endOnce m = m_ended m" for f
  proof -
    have p: "p_ms (writeWS a f (set_ms a ?stop p)) a = Some ?stop" by (simp add: set_ms_def)
    show ?thesis
      using ms_end_ms [OF p] ms_end_once [OF p] p that by (cases "m_endOnce m") (simp_all add: isEnded_def)
  qed
  show ?thesis
    using assms ended by (auto simp: watchdog_tick_def Let_def)
qed

theorem watchdog_enforces_limits_witness:
  "isEnded 0 (watchdog_tick id demo_cfg demo_end (60 * Minute) 0
     (set_ms 0 ((new_managed ''s1'' ''u1'' ''web'' demo_rec)\<lparr>m_watchdog := Some \<lparr>wd_start = 0, wd_lastBytes = 0, wd_lastChange = 0\<rparr>\<rparr>) demo))"
proof -
  let ?m = "(new_managed ''s1'' ''u1'' ''web'' demo_rec)\<lparr>m_watchdog := Some \<lparr>wd_start = 0, wd_lastBytes = 0, wd_lastChange = 0\<rparr>\<rparr>"
  have "p_ms (set_ms 0 ?m demo) 0 = Some ?m" by (simp add: set_ms_def)
  from watchdog_enforces_limits [OF this, of _ demo_cfg "60 * Minute" id demo_end] show ?thesis
    by (simp add: demo_cfg_def new_managed_def Let_def)
qed

text \<open>A session that ran into a limit is closed with the code of an administrator's termination: no path of the code uses
  the code the constants reserve for timeouts.\<close>

lemma timeout_closes_as_terminated:
  assumes "p_ms p a = Some m" "m_watchdog m = Some wd" "MaxDuration cfg > 0" "now - wd_start wd \<ge> MaxDuration cfg"
    and "\<not> m_endOnce m" "m_ws m = Some w" "p_ws p w = Some s" "ws_up s"
  shows "\<exists>s'. p_ws (watchdog_tick sha cfg env now a p) w = Some s' \<and> last (ws_sent s') = CloseF closeTerminated ''session ended''"
proof -
  let ?f = "TextF (crlf @ ''[shellwarden] session ended: max duration'' @ crlf)" and ?m = "m\<lparr>m_watchdog := None\<rparr>"
  let ?p = "writeWS a ?f (set_ms a ?m p)"
  have "p_ms ?p a = Some ?m" "p_ws ?p w = Some (s\<lparr>ws_sent := ws_sent s @ [?f]\<rparr>)"
    using assms by (simp_all add: writeWS_def set_ms_def ws_write_def)
  from ms_end_ws [OF this(1) _ _ this(2)] assms show ?thesis
    by (auto simp: watchdog_tick_def Let_def)
qed

end
