(* ===== verification/SshProxy.thy ===== *)
theory SshProxy
  imports Session
begin

text \<open>
  The SSH proxy (\<^verbatim>\<open>internal/proxy/ssh.go\<close>): connecting to a server with pinned host
  keys, the interactive WebSocket handler with its resume path, port forwarding and
  live shadowing.  The network, the SSH handshake (\<^verbatim>\<open>golang.org/x/crypto/ssh\<close>), the
  certificate authority and the WebSocket upgrade are parameters: the environment
  record says what each of them answers.
\<close>

definition em_dash :: string where
  "em_dash = [CHR 0xE2, CHR 0x80, CHR 0x94]"

section \<open>Reaching a server\<close>

text \<open>\<^verbatim>\<open>net.JoinHostPort\<close>: a host with a colon is put in brackets.\<close>

definition JoinHostPort :: "string \<Rightarrow> string \<Rightarrow> string" where
  "JoinHostPort host port =
     (if CHR '':'' \<in> set host then ''['' @ host @ '']:'' @ port else host @ '':'' @ port)"

datatype dial_target = ViaAgent string | DialTCP string

definition dial :: "server \<Rightarrow> dial_target" where
  "dial srv =
     (if sv_ConnectionMode srv = ModeAgent then ViaAgent (sv_ID srv)
      else DialTCP (JoinHostPort (sv_Host srv) (Itoa (sv_Port srv))))"

text \<open>\<open>loadServer\<close>: the error text (\<open>err\<close> when the query itself fails) or the record.\<close>

definition loadServer :: "string option \<Rightarrow> string \<Rightarrow> ('a tables_scheme) \<Rightarrow> string + server" where
  "loadServer err i t =
     (case err of
        Some e \<Rightarrow> Inl e
      | None \<Rightarrow> (case t_servers t i of None \<Rightarrow> Inl ''sql: no rows in result set'' | Some s \<Rightarrow> Inr s))"

text \<open>The credentials of the loaded record are decrypted for use.\<close>

definition decrypted :: "aead \<Rightarrow> server \<Rightarrow> server" where
  "decrypted c srv = srv\<lparr>sv_SSHKey := DecryptPtr c (sv_SSHKey srv), sv_SSHPassword := DecryptPtr c (sv_SSHPassword srv)\<rparr>"

datatype auth_method =
    CertAuth string duration \<comment> \<open>a certificate for this user, valid that long\<close>
  | KeyAuth string
  | PasswordAuth string
  | KeyboardInteractive string \<comment> \<open>every question is answered with this\<close>

record connect_env =
  ce_now :: gotime
  ce_jit_fails :: bool
  ce_load :: "string option" \<comment> \<open>error of the query for the server\<close>
  ce_dial :: "dial_target \<Rightarrow> string option" \<comment> \<open>error text\<close>
  ce_sign :: "string option" \<comment> \<open>error of \<^verbatim>\<open>SignUserCert\<close>\<close>
  ce_parse :: "string \<Rightarrow> string option" \<comment> \<open>error of \<^verbatim>\<open>ParsePrivateKey\<close>\<close>
  ce_kex :: "string + string" \<comment> \<open>error before, or the host key the server presents\<close>
  ce_pin_fails :: bool
  ce_auth :: "string \<Rightarrow> auth_method list \<Rightarrow> string option" \<comment> \<open>user and methods to the error\<close>
  ce_newsession :: "string option"
  ce_upgrade_fails :: bool
  ce_row :: "string option" \<comment> \<open>id of the new session row, if the insert succeeds\<close>
  ce_start_append :: append_env
  ce_pty_fails :: bool
  ce_shell_fails :: bool
  ce_start_err :: string \<comment> \<open>text of that error\<close>
  ce_end :: end_env

definition ssh_user :: "server \<Rightarrow> string" where
  "ssh_user srv = (case sv_SSHUser srv of None \<Rightarrow> ''root'' | Some u \<Rightarrow> if u = [] then ''root'' else u)"

text \<open>The authentication methods of \<open>newSSHClient\<close>, or its error.\<close>

definition auth_methods :: "proxy_cfg \<Rightarrow> connect_env \<Rightarrow> server \<Rightarrow> string + auth_method list" where
  "auth_methods cfg env srv =
     (let ca = sv_UseSSHCA srv \<and> HasCA cfg;
          ttl = (if CertTTL cfg \<le> 0 then 5 * Minute else CertTTL cfg)
      in if ca \<and> ce_sign env \<noteq> None then Inl (''sign ssh cert: '' @ the (ce_sign env))
         else let certs = (if ca then [CertAuth (ssh_user srv) ttl] else []);
                  has_key = nonempty (sv_SSHKey srv)
              in if has_key \<and> ce_parse env (the (sv_SSHKey srv)) \<noteq> None
                 then Inl (''parse ssh key: '' @ the (ce_parse env (the (sv_SSHKey srv))))
                 else let keys = (if has_key then [KeyAuth (the (sv_SSHKey srv))] else []);
                          pws = (if nonempty (sv_SSHPassword srv)
                                 then [PasswordAuth (the (sv_SSHPassword srv)), KeyboardInteractive (the (sv_SSHPassword srv))]
                                 else []);
                          ms = certs @ keys @ pws
                      in if ms = []
                         then Inl ''no SSH credentials configured for this server (add a password or private key)''
                         else Inr ms)"

text \<open>
  \<open>hostKeyCallback\<close>: trust on first use.  \<open>srv\<close> is the record as it was loaded; the
  result is the error, if any, and the new state.
\<close>

definition hostKeyCallback :: "bool \<Rightarrow> server \<Rightarrow> string \<Rightarrow> ('a tables_scheme) \<Rightarrow> string option \<times> 'a tables_scheme" where
  "hostKeyCallback pin_fails srv key t =
     (let presented = TrimSpace key;
          pinned = (case sv_SSHHostKey srv of None \<Rightarrow> [] | Some k \<Rightarrow> TrimSpace k)
      in if pinned \<noteq> [] then
           (if pinned \<noteq> presented
            then (Some (''host key mismatch for '' @ sv_Name srv @ '' '' @ em_dash @ '' possible MITM; refusing''), t)
            else (None, t))
         else if pin_fails then (None, t)
         else (None, t\<lparr>t_servers := (\<lambda>i. if i = sv_ID srv
                then map_option (\<lambda>s. s\<lparr>sv_SSHHostKey := Some presented\<rparr>) (t_servers t i) else t_servers t i)\<rparr>))"

text \<open>
  \<open>newSSHClient\<close>: the handshake presents the host key to the callback and goes on to
  authentication only if it accepts.
\<close>

definition newSSHClient :: "proxy_cfg \<Rightarrow> connect_env \<Rightarrow> server \<Rightarrow> ('a tables_scheme) \<Rightarrow> string option \<times> 'a tables_scheme" where
  "newSSHClient cfg env srv t =
     (case auth_methods cfg env srv of
        Inl e \<Rightarrow> (Some e, t)
      | Inr ms \<Rightarrow>
          (case ce_kex env of
             Inl e \<Rightarrow> (Some e, t)
           | Inr key \<Rightarrow>
               (case hostKeyCallback (ce_pin_fails env) srv key t of
                  (Some e, t1) \<Rightarrow> (Some e, t1)
                | (None, t1) \<Rightarrow> (ce_auth env (ssh_user srv) ms, t1))))"

text \<open>\<open>Connect\<close>: the error, if any; used by SFTP, forwarding and the handlers.\<close>

definition Connect :: "aead \<Rightarrow> proxy_cfg \<Rightarrow> connect_env \<Rightarrow> string \<Rightarrow> ('a tables_scheme) \<Rightarrow> string option \<times> 'a tables_scheme" where
  "Connect c cfg env serverID t =
     (case loadServer (ce_load env) serverID t of
        Inl e \<Rightarrow> (Some e, t)
      | Inr srv0 \<Rightarrow>
          (let srv = decrypted c srv0
           in case ce_dial env (dial srv) of
                Some e \<Rightarrow> (Some e, t)
              | None \<Rightarrow> newSSHClient cfg env srv t))"

section \<open>The interactive handler\<close>

datatype served =
    Refused nat string \<comment> \<open>an HTTP error before the upgrade\<close>
  | NotUpgraded
  | Aborted \<comment> \<open>the error was written to the WebSocket\<close>
  | Resumed nat
  | Opened nat

definition writeWSError :: "nat \<Rightarrow> string \<Rightarrow> proxy \<Rightarrow> proxy" where
  "writeWSError w msg p = ws_write w (TextF (crlf @ ''[shellwarden] '' @ msg @ crlf)) p"

text \<open>The answer of a handler that returns after \<open>writeWSError\<close>: the deferred close runs.\<close>

definition abort :: "nat \<Rightarrow> string \<Rightarrow> proxy \<Rightarrow> served \<times> proxy" where
  "abort w msg p = (Aborted, ws_shut w (writeWSError w msg p))"

definition ws_upgrade :: "nat \<Rightarrow> proxy \<Rightarrow> proxy" where
  "ws_upgrade w p = p\<lparr>p_ws := (p_ws p)(w \<mapsto> \<lparr>ws_up = True, ws_sent = []\<rparr>)\<rparr>"

definition createSession :: "string option \<Rightarrow> gotime \<Rightarrow> string \<Rightarrow> string \<Rightarrow> string \<Rightarrow> string \<Rightarrow> proxy \<Rightarrow> string \<times> proxy" where
  "createSession row now serverID userID protocol reason p =
     (case row of
        None \<Rightarrow> ([], p)
      | Some i \<Rightarrow> (i, p\<lparr>g_rows := (g_rows p)(i \<mapsto>
            \<lparr>sr_server_id = nullable serverID, sr_user_id = nullable userID, sr_protocol = protocol,
             sr_reason = nullable reason, sr_started_at = now, sr_ended_at = None, sr_recording_path = None,
             sr_bytes_read = 0, sr_bytes_written = 0\<rparr>)\<rparr>))"

text \<open>The just-in-time check at the top of the handlers; the answer when it refuses.\<close>

definition jit_refuses :: "proxy_cfg \<Rightarrow> connect_env \<Rightarrow> string \<Rightarrow> string \<Rightarrow> string \<Rightarrow> ('a tables_scheme) \<Rightarrow> bool" where
  "jit_refuses cfg env userID role serverID t \<longleftrightarrow>
     JITRequired cfg \<and> role \<noteq> ''admin'' \<and> \<not> fst (HasActiveGrant (ce_jit_fails env) (ce_now env) userID serverID t)"

text \<open>
  A fresh session, up to and including \<open>newManagedSession\<close>, whose goroutines read
  the shell's output from then on.
\<close>

definition start_session ::
  "(string \<Rightarrow> string) \<Rightarrow> proxy_cfg \<Rightarrow> connect_env \<Rightarrow> nat \<Rightarrow> string \<Rightarrow> string \<Rightarrow> string \<Rightarrow> server \<Rightarrow> proxy \<Rightarrow> nat option \<times> string \<times> proxy" where
  "start_session sha cfg env w serverID userID reason srv p =
     (let (sid, p1) = createSession (ce_row env) (ce_now env) serverID userID (sv_Protocol srv) reason p;
          rec0 = NewRecorder True sid serverID userID 220 50 (ce_now env);
          p2 = rec_audit sha (ce_start_append env) rec0 EventSessionStart reason p1;
          rc = rec0\<lparr>rec_Publish := (HasHub cfg \<and> sid \<noteq> [])\<rparr>;
          p3 = p2\<lparr>g_notifier := emit \<lparr>ev_Type = ''session.start'', ev_Severity = ''info'', ev_Timestamp = [],
                 ev_User = userID, ev_Server = sv_Name srv, ev_Session = sid, ev_Message = reason, ev_Data = []\<rparr>
                 (g_notifier p2)\<rparr>
      in case newManagedSession (ce_pty_fails env) (ce_shell_fails env) sid userID (sv_Name srv) rc p3 of
           (None, p4) \<Rightarrow> (None, sid, endSession sha cfg (ce_end env) sid rc
                           (writeWSError w (''shell start failed: '' @ ce_start_err env) p4))
         | (Some a, p4) \<Rightarrow> (Some a, sid, p4))"

definition start_watchdog :: "proxy_cfg \<Rightarrow> gotime \<Rightarrow> nat \<Rightarrow> proxy \<Rightarrow> proxy" where
  "start_watchdog cfg now a p =
     (if MaxDuration cfg > 0 \<or> IdleTimeout cfg > 0
      then case p_ms p a of
             None \<Rightarrow> p
           | Some m \<Rightarrow> set_ms a (m\<lparr>m_watchdog := Some \<lparr>wd_start = now, wd_lastBytes = Bytes (m_rec m), wd_lastChange = now\<rparr>\<rparr>) p
      else p)"

text \<open>Tracking the started session: the store, the hub, the browser, the watchdog.\<close>

definition track_session ::
  "proxy_cfg \<Rightarrow> gotime \<Rightarrow> nat \<Rightarrow> nat \<Rightarrow> string \<Rightarrow> string \<Rightarrow> string \<Rightarrow> proxy \<Rightarrow> proxy" where
  "track_session cfg now w a sid userID serverID p =
     (let p1 = (case p_ms p a of None \<Rightarrow> p | Some m \<Rightarrow> store_add a m p);
          p2 = (if HasHub cfg \<and> sid \<noteq> []
                then p1\<lparr>g_hub := Register sid userID serverID now (Some a) (g_hub p1)\<rparr> else p1)
      in start_watchdog cfg now a (attach a w p2))"

text \<open>
  \<open>ServeHTTP\<close> up to the input loop.  \<open>cl\<close> are the claims of the request, \<open>w\<close> the
  WebSocket the upgrade yields.
\<close>

definition ServeHTTP ::
  "(string \<Rightarrow> string) \<Rightarrow> aead \<Rightarrow> proxy_cfg \<Rightarrow> connect_env \<Rightarrow> claims option \<Rightarrow> string \<Rightarrow> string \<Rightarrow> string \<Rightarrow> nat \<Rightarrow> proxy \<Rightarrow>
   served \<times> proxy" where
  "ServeHTTP sha c cfg env cl serverID reason resumeID w p =
     (let userID = (case cl of None \<Rightarrow> [] | Some k \<Rightarrow> cl_UserID k);
          role = (case cl of None \<Rightarrow> [] | Some k \<Rightarrow> cl_Role k)
      in if jit_refuses cfg env userID role serverID p
         then (Refused StatusForbidden (''access not approved '' @ em_dash @ '' request JIT access for this host''), p)
         else case loadServer (ce_load env) serverID p of
           Inl e \<Rightarrow> (Refused StatusNotFound ''server not found'', p)
         | Inr srv0 \<Rightarrow>
             (let srv = decrypted c srv0
              in if ce_upgrade_fails env then (NotUpgraded, p)
                 else let p1 = ws_upgrade w p;
                          prior = (if resumeID = [] then None else store_get resumeID p1);
                          resumable = (case prior of
                             None \<Rightarrow> None
                           | Some a \<Rightarrow> (case p_ms p1 a of None \<Rightarrow> None
                              | Some m \<Rightarrow> if m_userID m = userID \<and> \<not> isEnded a p1 then Some a else None))
                      in case resumable of
                           Some a \<Rightarrow> (Resumed a, attach a w p1)
                         | None \<Rightarrow>
                             (case ce_dial env (dial srv) of
                                Some e \<Rightarrow> abort w (''connect failed: '' @ e) p1
                              | None \<Rightarrow>
                                  (case newSSHClient cfg env srv p1 of
                                     (Some e, p2) \<Rightarrow> abort w (''ssh handshake failed: '' @ e) p2
                                   | (None, p2) \<Rightarrow>
                                       (case ce_newsession env of
                                          Some e \<Rightarrow> abort w (''ssh session failed: '' @ e) p2
                                        | None \<Rightarrow>
                                            (case start_session sha cfg env w serverID userID reason srv p2 of
                                               (None, sid, p3) \<Rightarrow> (Aborted, ws_shut w p3)
                                             | (Some a, sid, p3) \<Rightarrow>
                                                 (Opened a, track_session cfg (ce_now env) w a sid userID serverID p3)))))))"

text \<open>
  What the handler does when the input loop has returned: a handler that opened the
  session stops the watchdog it started; then the WebSocket is detached and closed.
\<close>

definition serve_close :: "gotime \<Rightarrow> served \<Rightarrow> nat \<Rightarrow> proxy \<Rightarrow> proxy" where
  "serve_close now r w p =
     (case r of
        Opened a \<Rightarrow> ws_shut w (detach now a w
           (case p_ms p a of None \<Rightarrow> p | Some m \<Rightarrow> set_ms a (m\<lparr>m_watchdog := None\<rparr>) p))
      | Resumed a \<Rightarrow> ws_shut w (detach now a w p)
      | _ \<Rightarrow> p)"

section \<open>Forwarding and shadowing\<close>

text \<open>\<open>pipeToWS\<close>: each read is a chunk and whether it came with an error; \<open>fails\<close> says
  after how many frames the WebSocket refuses to write.\<close>

fun pipeToWS :: "nat option \<Rightarrow> (string \<times> bool) list \<Rightarrow> frame list" where
  "pipeToWS fails [] = []"
| "pipeToWS fails ((chunk, err) # rs) =
     (if chunk \<noteq> [] then
        (if fails = Some 0 then []
         else BinaryF chunk # (if err then [] else pipeToWS (map_option (\<lambda>k. k - 1) fails) rs))
      else if err then [] else pipeToWS fails rs)"

definition ServeForward ::
  "aead \<Rightarrow> proxy_cfg \<Rightarrow> connect_env \<Rightarrow> (string \<Rightarrow> string option) \<Rightarrow> claims option \<Rightarrow> string \<Rightarrow> string \<Rightarrow> string \<Rightarrow> nat \<Rightarrow>
   proxy \<Rightarrow> served \<times> string \<times> proxy" where
  "ServeForward c cfg env remote cl serverID host0 port w p =
     (let host = (if host0 = [] then ''127.0.0.1'' else host0)
      in if port = [] then (Refused StatusBadRequest ''port required'', [], p)
         else let userID = (case cl of None \<Rightarrow> [] | Some k \<Rightarrow> cl_UserID k);
                  role = (case cl of None \<Rightarrow> [] | Some k \<Rightarrow> cl_Role k)
              in if jit_refuses cfg env userID role serverID p
                 then (Refused StatusForbidden ''access not approved (JIT)'', [], p)
                 else case Connect c cfg env serverID p of
                   (Some e, p1) \<Rightarrow> (Refused StatusBadGateway (''ssh connect failed: '' @ e), [], p1)
                 | (None, p1) \<Rightarrow>
                     (let addr = JoinHostPort host port
                      in case remote addr of
                           Some e \<Rightarrow> (Refused StatusBadGateway (''forward dial failed: '' @ e), addr, p1)
                         | None \<Rightarrow> if ce_upgrade_fails env then (NotUpgraded, addr, p1)
                                   else (Opened 0, addr, ws_upgrade w p1)))"

text \<open>
  \<open>ServeWatch\<close>: the subscription (session object and channel), and one iteration of
  its loop over the channel; \<open>cancel\<close> is the closure \<open>Subscribe\<close> returned.
\<close>

definition watch_cancel :: "nat \<times> nat \<Rightarrow> proxy \<Rightarrow> proxy" where
  "watch_cancel s p = hub_do (unsubscribe (fst s) (snd s) (g_hub p)) p"

definition ServeWatch :: "bool \<Rightarrow> string \<Rightarrow> nat \<Rightarrow> proxy \<Rightarrow> served \<times> (nat \<times> nat) option \<times> proxy" where
  "ServeWatch upgrade_fails sid w p =
     (case Subscribe sid (g_hub p) of
        None \<Rightarrow> (NotUpgraded, None, p\<lparr>g_panic := True\<rparr>)
      | Some (None, h) \<Rightarrow> (Refused StatusNotFound ''session not live'', None, p\<lparr>g_hub := h\<rparr>)
      | Some (Some s, h) \<Rightarrow>
          (let p1 = p\<lparr>g_hub := h\<rparr>
           in if upgrade_fails then (NotUpgraded, None, watch_cancel s p1)
              else (Opened (fst s), Some s,
                    ws_write w (TextF (crlf @ ''[shellwarden] live shadow '' @ em_dash @ '' read only'' @ crlf))
                      (ws_upgrade w p1))))"

datatype watch_result = WatchMore | WatchWait | WatchDone

definition watch_step :: "bool \<Rightarrow> nat \<times> nat \<Rightarrow> nat \<Rightarrow> proxy \<Rightarrow> watch_result \<times> proxy" where
  "watch_step write_fails s w p =
     (case chans (g_hub p) (snd s) of
        None \<Rightarrow> (WatchWait, p)
      | Some ch \<Rightarrow>
          (case recv_chan ch of
             (Got d, ch') \<Rightarrow>
               (let p1 = p\<lparr>g_hub := (g_hub p)\<lparr>chans := (chans (g_hub p))(snd s \<mapsto> ch')\<rparr>\<rparr>
                in if write_fails then (WatchDone, ws_shut w (watch_cancel s p1))
                   else (WatchMore, ws_write w (BinaryF d) p1))
           | (Closed, _) \<Rightarrow>
               (WatchDone, watch_cancel s (ws_shut w
                  (ws_write w (TextF (crlf @ ''[shellwarden] session ended'' @ crlf)) p)))
           | (Blocks, _) \<Rightarrow> (WatchWait, p)))"


section \<open>Who may connect\<close>

lemma jit_refusesI:
  "JITRequired cfg \<Longrightarrow> role \<noteq> ''admin'' \<Longrightarrow>
   \<not> list_ex (grants (ce_now env) userID serverID) (t_requests t) \<Longrightarrow> jit_refuses cfg env userID role serverID t"
  by (simp add: jit_refuses_def HasActiveGrant_def)

text \<open>C13: Just-in-time enforcement: where it is required, a caller who is not an administrator
  and holds no active grant for the server gets 403 from the interactive, the
  forwarding and the SFTP handlers, and nothing changes: no connection, no session
  row, no audit row.\<close>

theorem jit_enforced:
  assumes "JITRequired cfg" and "cl_Role k \<noteq> RoleAdmin"
    and "\<not> list_ex (grants (ce_now env) (cl_UserID k) serverID) (t_requests p)"
  shows "(\<exists>msg. ServeHTTP sha c cfg env (Some k) serverID reason resumeID w p = (Refused 403 msg, p)) \<and>
    (port \<noteq> [] \<longrightarrow> (\<exists>msg. ServeForward c cfg env remote (Some k) serverID host port w p = (Refused 403 msg, [], p))) \<and>
    \<not> jitOK (JITRequired cfg) (ce_jit_fails env) (ce_now env) (Some k) serverID p"
proof -
  have "jit_refuses cfg env (cl_UserID k) (cl_Role k) serverID p"
    using assms by (intro jit_refusesI) (simp_all add: RoleAdmin_def)
  with assms show ?thesis
    by (simp add: ServeHTTP_def ServeForward_def jitOK_def HasActiveGrant_def Let_def)
qed

definition demo_connect :: connect_env where
  "demo_connect = \<lparr>ce_now = 0, ce_jit_fails = False, ce_load = None, ce_dial = (\<lambda>d. None), ce_sign = None,
     ce_parse = (\<lambda>k. None), ce_kex = Inr ''ssh-ed25519 AAAA'', ce_pin_fails = False, ce_auth = (\<lambda>u ms. None),
     ce_newsession = None, ce_upgrade_fails = False, ce_row = Some ''s2'', ce_start_append = sample_env 5,
     ce_pty_fails = False, ce_shell_fails = False, ce_start_err = [], ce_end = demo_end\<rparr>"

definition demo_proxy :: proxy where
  "demo_proxy = demo\<lparr>t_servers := [''h1'' \<mapsto> sample_server, ''h2'' \<mapsto> sample_server\<lparr>sv_ID := ''h2''\<rparr>]\<rparr>"

theorem jit_enforced_witness:
  "\<exists>msg. ServeHTTP id toy_aead (demo_cfg\<lparr>JITRequired := True\<rparr>) demo_connect (Some (sample_claims ''bob'' RoleOperator))
     ''h1'' [] [] 9 demo_proxy = (Refused 403 msg, demo_proxy)"
  using jit_enforced [of "demo_cfg\<lparr>JITRequired := True\<rparr>" "sample_claims ''bob'' RoleOperator" demo_connect "''h1''"
      demo_proxy id toy_aead "[]" "[]" 9 "[]" "\<lambda>a. None" "[]"]
  by (simp add: sample_claims_def RoleOperator_def RoleAdmin_def demo_proxy_def demo_def)

section \<open>Resuming\<close>

lemma ServeHTTP_resumed:
  assumes "ServeHTTP sha c cfg env cl serverID reason resumeID w p = (Resumed a, q)"
  shows "\<exists>m. resumeID \<noteq> [] \<and> p_store p resumeID = Some a \<and> p_ms p a = Some m \<and> \<not> m_ended m \<and>
    m_userID m = (case cl of None \<Rightarrow> [] | Some k \<Rightarrow> cl_UserID k) \<and> q = attach a w (ws_upgrade w p)"
proof -
  have 1: "p_ms (ws_upgrade w p) = p_ms p" "p_store (ws_upgrade w p) = p_store p"
    by (simp_all add: ws_upgrade_def)
  show ?thesis
    using assms
    by (auto simp: ServeHTTP_def Let_def abort_def store_get_def isEnded_def 1
        split: if_splits option.splits sum.splits prod.splits)
qed

text \<open>C14: Only the user who opened a session can resume it, only while its shell is alive, and
  only by its id; the resumed browser gets the id and the repaint buffer, and nothing
  but that session's attachment and that WebSocket changes.\<close>

theorem resume_only_own_session:
  assumes "ServeHTTP sha c cfg env (Some k) serverID reason resumeID w p = (Resumed a, q)"
  shows "\<exists>m. store_get resumeID p = Some a \<and> p_ms p a = Some m \<and> m_userID m = cl_UserID k \<and> \<not> m_ended m \<and>
    p_ms q = (p_ms p)(a \<mapsto> m\<lparr>m_ws := Some w, m_detachedAt := None\<rparr>) \<and>
    p_ws q = (p_ws p)(w \<mapsto> \<lparr>ws_up = True,
      ws_sent = [SessionF (m_id m), BinaryF (ring_snapshot (m_ring m))]\<rparr>) \<and>
    p_store q = p_store p \<and> g_hub q = g_hub p \<and> g_audit q = g_audit p \<and> g_rows q = g_rows p"
proof -
  obtain m where m: "p_store p resumeID = Some a" "p_ms p a = Some m" "\<not> m_ended m"
      "m_userID m = cl_UserID k" "q = attach a w (ws_upgrade w p)"
    using ServeHTTP_resumed [OF assms] by auto
  then show ?thesis
    by (simp add: store_get_def attach_def ws_upgrade_def set_ms_def ws_write_def Let_def)
qed

theorem resume_only_own_session_witness:
  "\<exists>q. ServeHTTP id toy_aead demo_cfg demo_connect (Some (sample_claims ''u1'' RoleOperator)) ''h1'' [] ''s1'' 9 demo_proxy
     = (Resumed 0, q) \<and> p_store q = p_store demo_proxy"
proof -
  obtain q where q: "ServeHTTP id toy_aead demo_cfg demo_connect (Some (sample_claims ''u1'' RoleOperator)) ''h1'' [] ''s1'' 9 demo_proxy
      = (Resumed 0, q)"
    by (simp add: ServeHTTP_def jit_refuses_def demo_cfg_def demo_connect_def loadServer_def demo_proxy_def demo_def
        store_get_def ws_upgrade_def isEnded_def new_managed_def sample_claims_def Let_def)
  from resume_only_own_session [OF q] q show ?thesis by blast
qed

text \<open>Resuming checks the grant for the server in the URL and not the server of the session:
  a user whose grant covers one host resumes, through that host's URL, a session on
  another host for which no grant is active.\<close>

theorem resume_ignores_server:
  "\<exists>p q m. JITRequired (demo_cfg\<lparr>JITRequired := True\<rparr>) \<and>
     \<not> list_ex (grants 0 ''u1'' ''h1'') (t_requests p) \<and>
     ServeHTTP id toy_aead (demo_cfg\<lparr>JITRequired := True\<rparr>) demo_connect (Some (sample_claims ''u1'' RoleOperator))
       ''h2'' [] ''s1'' 9 p = (Resumed 0, q) \<and>
     p_ms q 0 = Some m \<and> rec_serverID (m_rec m) = ''h1'' \<and> m_ws m = Some 9"
proof -
  let ?a = "\<lparr>ar_ID = ''r1'', ar_UserID = Some ''u1'', ar_ServerID = ''h2'', ar_Reason = None,
     ar_Status = ''approved'', ar_RequestedAt = 0, ar_DecidedAt = Some 0, ar_DecidedBy = Some ''root'', ar_ExpiresAt = Some 60\<rparr>"
  let ?p = "demo_proxy\<lparr>t_requests := [?a]\<rparr>"
  have "\<not> list_ex (grants 0 ''u1'' ''h1'') (t_requests ?p)"
    by (simp add: grants_def)
  moreover obtain q m where "ServeHTTP id toy_aead (demo_cfg\<lparr>JITRequired := True\<rparr>) demo_connect (Some (sample_claims ''u1'' RoleOperator))
       ''h2'' [] ''s1'' 9 ?p = (Resumed 0, q)" "p_ms q 0 = Some m" "rec_serverID (m_rec m) = ''h1''" "m_ws m = Some 9"
    by (simp add: ServeHTTP_def jit_refuses_def HasActiveGrant_def grants_def demo_cfg_def demo_connect_def loadServer_def
        demo_proxy_def demo_def store_get_def ws_upgrade_def isEnded_def new_managed_def sample_claims_def Let_def
        attach_def set_ms_def ws_write_def demo_rec_def NewRecorder_def)
  moreover have "JITRequired (demo_cfg\<lparr>JITRequired := True\<rparr>)" by simp
  ultimately show ?thesis by blast
qed

section \<open>Pinned host keys\<close>

lemma hostKey_matches:
  assumes "hostKeyCallback pf srv key t = (None, t')" "sv_SSHHostKey srv = Some k" "TrimSpace k \<noteq> []"
  shows "TrimSpace key = TrimSpace k \<and> t' = t"
  using assms by (auto simp: hostKeyCallback_def Let_def split: if_splits)

lemma newSSHClient_ok:
  assumes "newSSHClient cfg env srv t = (None, t')"
  shows "\<exists>key. ce_kex env = Inr key \<and> hostKeyCallback (ce_pin_fails env) srv key t = (None, t')"
  using assms
  by (auto simp: newSSHClient_def split: sum.splits prod.splits option.splits)

lemma Connect_ok:
  assumes "Connect c cfg env i t = (None, t')"
  shows "\<exists>srv key. t_servers t i = Some srv \<and> ce_kex env = Inr key \<and>
    hostKeyCallback (ce_pin_fails env) (decrypted c srv) key t = (None, t')"
  using assms newSSHClient_ok
  by (fastforce simp: Connect_def loadServer_def Let_def split: sum.splits option.splits)

lemma auth_methods_frame: "auth_methods cfg (env\<lparr>ce_auth := au\<rparr>) srv = auth_methods cfg env srv"
proof -
  have "ce_sign (env\<lparr>ce_auth := au\<rparr>) = ce_sign env" "ce_parse (env\<lparr>ce_auth := au\<rparr>) = ce_parse env" by simp_all
  then show ?thesis by (simp only: auth_methods_def)
qed

text \<open>C15: Trust on first use: once a connection to a server has pinned its key, every later
  connection that succeeds was presented the same key (up to surrounding white
  space) and leaves the pinned key alone, whatever credentials, network and database
  answer; a different key is refused before any credential is offered.\<close>

theorem host_key_stays_pinned:
  assumes "Connect c cfg env i t = (None, t1)" and "ce_kex env = Inr key" and "TrimSpace key \<noteq> []"
    and "\<not> ce_pin_fails env" and "t_servers t i = Some srv" and "sv_ID srv = i" and "sv_SSHHostKey srv = None"
    and "ce_kex env' = Inr key'"
  shows "(Connect c cfg' env' i t1 = (None, t2) \<longrightarrow> TrimSpace key' = TrimSpace key \<and> t2 = t1) \<and>
    (TrimSpace key' \<noteq> TrimSpace key \<longrightarrow>
       (\<exists>e. \<forall>au. Connect c cfg' (env'\<lparr>ce_auth := au\<rparr>) i t1 = (Some e, t1)))"
proof -
  have "hostKeyCallback False (decrypted c srv) key t = (None, t1)"
    using Connect_ok [OF assms(1)] assms(2,4,5) by auto
  then have t1: "t_servers t1 i = Some (srv\<lparr>sv_SSHHostKey := Some (TrimSpace key)\<rparr>)"
    using assms(5-7) by (auto simp: hostKeyCallback_def decrypted_def Let_def)
  let ?srv = "decrypted c (srv\<lparr>sv_SSHHostKey := Some (TrimSpace key)\<rparr>)"
  have k: "sv_SSHHostKey ?srv = Some (TrimSpace key)" "TrimSpace (TrimSpace key) \<noteq> []"
    using assms(3) by (simp_all add: decrypted_def TrimSpace_idem)
  have 1: "TrimSpace key' = TrimSpace key \<and> t2 = t1" if "Connect c cfg' env' i t1 = (None, t2)"
    using Connect_ok [OF that] t1 assms(8) hostKey_matches [OF _ k] by (auto simp: TrimSpace_idem)
  have 2: "\<exists>e. \<forall>au. Connect c cfg' (env'\<lparr>ce_auth := au\<rparr>) i t1 = (Some e, t1)" if neq: "TrimSpace key' \<noteq> TrimSpace key"
  proof -
    obtain e where e: "hostKeyCallback (ce_pin_fails env') ?srv key' t1 = (Some e, t1)"
      using neq [symmetric] k by (simp add: hostKeyCallback_def Let_def)
    with e auth_methods_frame show ?thesis
      using t1 assms(8)
      by (cases "ce_load env'"; cases "ce_dial env' (dial ?srv)"; cases "auth_methods cfg' env' ?srv")
         (simp_all add: Connect_def loadServer_def newSSHClient_def Let_def)
  qed
  from 1 2 show ?thesis by blast
qed

theorem host_key_stays_pinned_witness:
  "let t1 = snd (Connect toy_aead demo_cfg demo_connect ''h1'' demo_proxy) in
   \<exists>e. Connect toy_aead demo_cfg (demo_connect\<lparr>ce_kex := Inr ''ssh-ed25519 EVIL''\<rparr>) ''h1'' t1 = (Some e, t1)"
proof -
  let ?t1 = "snd (Connect toy_aead demo_cfg demo_connect ''h1'' demo_proxy)"
  let ?env = "demo_connect\<lparr>ce_kex := Inr ''ssh-ed25519 EVIL''\<rparr>"
  have s: "sample_server\<lparr>sv_ID := ''h1''\<rparr> = sample_server" "sv_SSHHostKey sample_server = None" "sv_ID sample_server = ''h1''"
    by (simp_all add: sample_server_def server_row_def sample_senv_def)
  have trim: "TrimSpace ''ssh-ed25519 AAAA'' = ''ssh-ed25519 AAAA''" "TrimSpace ''ssh-ed25519 EVIL'' = ''ssh-ed25519 EVIL''"
    by (simp_all add: TrimSpace_fix printable_def)
  have "DecryptPtr toy_aead (sv_SSHPassword sample_server) = Some ''hunter2''"
    using DecryptPtr_coalesce(1) [OF toy_aead_ok, of "Some ''p1''" "Some ''hunter2''"]
    by (simp add: sample_server_def nonce_ok_def sample_senv_def sample_req_def) (simp add: toy_aead_def)
  then have c: "Connect toy_aead demo_cfg demo_connect ''h1'' demo_proxy = (None, ?t1)"
    using s trim
    by (simp add: Connect_def loadServer_def demo_connect_def demo_proxy_def newSSHClient_def auth_methods_def
        nonempty_def decrypted_def hostKeyCallback_def demo_cfg_def Let_def)
  have "\<exists>e. \<forall>au. Connect toy_aead demo_cfg (?env\<lparr>ce_auth := au\<rparr>) ''h1'' ?t1 = (Some e, ?t1)"
    using host_key_stays_pinned [OF c, of "''ssh-ed25519 AAAA''" sample_server ?env "''ssh-ed25519 EVIL''" demo_cfg ?t1]
      s trim by (simp add: demo_connect_def demo_proxy_def)
  then have "\<exists>e. Connect toy_aead demo_cfg (?env\<lparr>ce_auth := ce_auth ?env\<rparr>) ''h1'' ?t1 = (Some e, ?t1)" by blast
  then show ?thesis by (simp add: Let_def)
qed


text \<open>The pin is written for the record as it was loaded, whatever the row holds by then: of
  two first connections that overlap, the one that finishes last replaces the key the
  other has just pinned, unseen.\<close>

lemma overlapping_first_use_replaces_pin:
  assumes "sv_SSHHostKey srv = None" "t_servers t (sv_ID srv) = Some srv"
    and "hostKeyCallback False srv k1 t = (None, t1)"
  shows "\<exists>t2. hostKeyCallback False srv k2 t1 = (None, t2) \<and>
    t_servers t1 (sv_ID srv) = Some (srv\<lparr>sv_SSHHostKey := Some (TrimSpace k1)\<rparr>) \<and>
    t_servers t2 (sv_ID srv) = Some (srv\<lparr>sv_SSHHostKey := Some (TrimSpace k2)\<rparr>)"
  using assms by (auto simp: hostKeyCallback_def Let_def)

section \<open>A session from connect to close\<close>

lemma ServeHTTP_opened:
  assumes "ServeHTTP sha c cfg env (Some k) serverID reason resumeID w p = (Opened a, q)"
  shows "\<exists>srv sid p2 p3. t_servers p serverID = Some srv \<and>
    newSSHClient cfg env (decrypted c srv) (ws_upgrade w p) = (None, p2) \<and>
    start_session sha cfg env w serverID (cl_UserID k) reason (decrypted c srv) p2 = (Some a, sid, p3) \<and>
    q = track_session cfg (ce_now env) w a sid (cl_UserID k) serverID p3"
  using assms
  by (auto simp: ServeHTTP_def Let_def abort_def loadServer_def
      split: if_splits option.splits sum.splits prod.splits)

lemma tables_only [simp]:
  "p_ms (snd (hostKeyCallback pf srv key p)) = p_ms p" "p_ws (snd (hostKeyCallback pf srv key p)) = p_ws p"
  "p_store (snd (hostKeyCallback pf srv key p)) = p_store p" "g_audit (snd (hostKeyCallback pf srv key p)) = g_audit p"
  "g_hub (snd (hostKeyCallback pf srv key p)) = g_hub p" "g_rows (snd (hostKeyCallback pf srv key p)) = g_rows p"
  "p_next (snd (hostKeyCallback pf srv key p)) = p_next p"
  by (simp_all add: hostKeyCallback_def Let_def split: option.split)

lemma newSSHClient_frame:
  assumes "newSSHClient cfg env srv p = (None, p')"
  shows "p_ms p' = p_ms p" "p_ws p' = p_ws p" "p_store p' = p_store p" "g_audit p' = g_audit p"
    "g_hub p' = g_hub p" "g_rows p' = g_rows p" "p_next p' = p_next p"
  using newSSHClient_ok [OF assms] tables_only [of "ce_pin_fails env" srv _ p]
  by (metis snd_conv)+

lemma start_session_ok:
  assumes "start_session sha cfg env w serverID userID reason srv p = (Some a, sid, p')"
  shows "a = p_next p \<and> p_ws p' = p_ws p \<and> g_hub p' = g_hub p \<and> p_store p' = p_store p \<and>
    (\<exists>rc. p_ms p' = (p_ms p)(a \<mapsto> new_managed sid userID (sv_Name srv) rc) \<and>
       rec_sessionID rc = sid \<and> rec_serverID rc = serverID \<and> rec_userID rc = userID \<and>
       rec_Publish rc = (HasHub cfg \<and> sid \<noteq> []) \<and> Bytes rc = 0) \<and>
    (ce_row env = Some i \<longrightarrow> sid = i \<and> (\<exists>row. g_rows p' i = Some row \<and> sr_server_id row = nullable serverID \<and>
       sr_user_id row = nullable userID \<and> sr_reason row = nullable reason \<and> sr_ended_at row = None)) \<and>
    (\<not> insert_fails (ce_start_append env) \<longrightarrow>
       map content (g_audit p') = map content (g_audit p) @ [(EventSessionStart, reason)])"
  using assms
  by (auto simp: start_session_def createSession_def newManagedSession_def set_ms_def NewRecorder_def Let_def
      rec_audit_def audit_append_def Append_def content_def Bytes_def split: if_splits option.splits prod.splits)

text \<open>C16: Opening a session accounts for it before the user can type: the session row names the
  server, the user and the reason, a \<^verbatim>\<open>session_start\<close> row is in the audit log, the
  session is in the store and in the hub under its id, an administrator's kill would
  end exactly this session, the browser has been sent the id, and the watchdog runs
  when a limit is configured.\<close>

theorem opened_session_accounted:
  assumes "ServeHTTP sha c cfg env (Some k) serverID reason resumeID w p = (Opened a, q)"
    and "ce_row env = Some sid" and "sid \<noteq> []" and "HasHub cfg" and "\<not> insert_fails (ce_start_append env)"
  shows "(\<exists>m. p_ms q a = Some m \<and> m_id m = sid \<and> m_userID m = cl_UserID k \<and> m_ws m = Some w \<and>
            (MaxDuration cfg > 0 \<or> IdleTimeout cfg > 0 \<longrightarrow> m_watchdog m \<noteq> None)) \<and>
    store_get sid q = Some a \<and> sid \<in> Active (g_hub q) \<and> Kill sid (g_hub q) = Some (Some a) \<and>
    (\<exists>row. g_rows q sid = Some row \<and> sr_server_id row = nullable serverID \<and>
       sr_user_id row = nullable (cl_UserID k) \<and> sr_reason row = nullable reason \<and> sr_ended_at row = None) \<and>
    map content (g_audit q) = map content (g_audit p) @ [(EventSessionStart, reason)] \<and>
    map_option ws_sent (p_ws q w) = Some [SessionF sid, BinaryF []]"
proof -
  obtain srv sid' p2 p3 where
      cl: "newSSHClient cfg env (decrypted c srv) (ws_upgrade w p) = (None, p2)"
    and st: "start_session sha cfg env w serverID (cl_UserID k) reason (decrypted c srv) p2 = (Some a, sid', p3)"
    and q: "q = track_session cfg (ce_now env) w a sid' (cl_UserID k) serverID p3"
    using ServeHTTP_opened [OF assms(1)] by blast
  note fr = newSSHClient_frame [OF cl]
  note ok = start_session_ok [OF st, of sid]
  have "sid' = sid"
    using ok assms(2) by simp
  moreover obtain rc where "p_ms p3 = (p_ms p2)(a \<mapsto> new_managed sid' (cl_UserID k) (sv_Name (decrypted c srv)) rc)"
    using ok by blast
  moreover have "p_ws p3 w = Some \<lparr>ws_up = True, ws_sent = []\<rparr>"
    using ok fr by (simp add: ws_upgrade_def)
  ultimately show ?thesis
    using ok fr assms(2-5)
    by (auto simp: q track_session_def start_watchdog_def attach_def set_ms_def ws_write_def store_add_def store_get_def
        Register_def Active_def Kill_def new_managed_def newRing_def ring_snapshot_def ws_upgrade_def Let_def)
qed


lemma demo_opens:
  "\<exists>q. ServeHTTP id toy_aead demo_cfg demo_connect (Some (sample_claims ''bob'' RoleOperator)) ''h1'' ''ticket'' [] 9 demo_proxy
     = (Opened 1, q)"
proof -
  have "DecryptPtr toy_aead (sv_SSHPassword sample_server) = Some ''hunter2''"
    using DecryptPtr_coalesce(1) [OF toy_aead_ok, of "Some ''p1''" "Some ''hunter2''"]
    by (simp add: sample_server_def nonce_ok_def sample_senv_def sample_req_def) (simp add: toy_aead_def)
  moreover have "sv_SSHHostKey sample_server = None"
    by (simp add: sample_server_def server_row_def)
  ultimately show ?thesis
    by (simp add: ServeHTTP_def jit_refuses_def demo_cfg_def demo_connect_def loadServer_def demo_proxy_def demo_def
        newSSHClient_def auth_methods_def nonempty_def decrypted_def hostKeyCallback_def Let_def ws_upgrade_def
        start_session_def createSession_def rec_audit_def audit_append_def Append_def NewRecorder_def
        newManagedSession_def set_ms_def)
qed

theorem opened_session_accounted_witness:
  "\<exists>q. ServeHTTP id toy_aead demo_cfg demo_connect (Some (sample_claims ''bob'' RoleOperator)) ''h1'' ''ticket'' [] 9 demo_proxy
     = (Opened 1, q) \<and> ''s2'' \<in> Active (g_hub q) \<and> Kill ''s2'' (g_hub q) = Some (Some 1)"
proof -
  obtain q where q: "ServeHTTP id toy_aead demo_cfg demo_connect (Some (sample_claims ''bob'' RoleOperator)) ''h1'' ''ticket'' [] 9 demo_proxy
      = (Opened 1, q)"
    using demo_opens by blast
  from opened_session_accounted [OF q, of "''s2''"] q show ?thesis
    by (simp add: demo_connect_def demo_cfg_def sample_env_def)
qed

text \<open>The limits do not survive a reconnect: the handler that opened a session stops its
  watchdog when its browser goes away, and resuming does not start another, so from
  the first drop on no tick of a watchdog ever ends the session, however long it lasts
  or idles.\<close>

theorem resumed_session_unwatched:
  assumes "p_ms p a = Some m"
    and "ServeHTTP sha c cfg env cl serverID reason resumeID w' (serve_close now (Opened a) w p) = (Resumed a, q)"
  shows "watchdog_tick sha cfg eenv now' a q = q"
proof -
  have "q = attach a w' (ws_upgrade w' (serve_close now (Opened a) w p))"
    using ServeHTTP_resumed [OF assms(2)] by blast
  moreover have "\<exists>m'. p_ms (serve_close now (Opened a) w p) a = Some m' \<and> m_watchdog m' = None"
    using assms(1) by (simp add: serve_close_def detach_def set_ms_def ws_shut_def split: option.split)
  ultimately obtain m' where "p_ms q a = Some m'" "m_watchdog m' = None"
    by (auto simp: attach_def ws_upgrade_def set_ms_def Let_def)
  then show ?thesis by (simp add: watchdog_tick_def)
qed

theorem resumed_session_unwatched_witness:
  "let p = start_watchdog demo_cfg 0 0 (attach 0 7 demo_proxy);
       q = snd (ServeHTTP id toy_aead demo_cfg demo_connect (Some (sample_claims ''u1'' RoleOperator)) ''h1'' [] ''s1'' 9
                  (serve_close 0 (Opened 0) 7 p))
   in map_option m_watchdog (p_ms p 0) \<noteq> Some None \<and>
      watchdog_tick id demo_cfg demo_end (600 * Minute) 0 q = q"
proof -
  let ?p = "start_watchdog demo_cfg 0 0 (attach 0 7 demo_proxy)"
  let ?q = "ServeHTTP id toy_aead demo_cfg demo_connect (Some (sample_claims ''u1'' RoleOperator)) ''h1'' [] ''s1'' 9
                  (serve_close 0 (Opened 0) 7 ?p)"
  obtain m where m: "p_ms ?p 0 = Some m" "m_watchdog m \<noteq> None"
    by (simp add: start_watchdog_def attach_def demo_proxy_def demo_def demo_cfg_def set_ms_def ws_write_def Let_def)
  have "?q = (Resumed 0, snd ?q)"
    by (simp add: ServeHTTP_def jit_refuses_def demo_cfg_def demo_connect_def loadServer_def demo_proxy_def demo_def
        store_get_def ws_upgrade_def isEnded_def new_managed_def sample_claims_def Let_def serve_close_def
        start_watchdog_def attach_def set_ms_def ws_write_def detach_def ws_shut_def)
  from resumed_session_unwatched [OF m(1) this, of demo_end "600 * Minute"] m show ?thesis
    by (simp add: Let_def)
qed

text \<open>A shell that exits before its session is tracked is never cleaned up: when the output
  pump ends the session between \<open>newManagedSession\<close> and the tracking, the handler
  still lists it in the store and in the hub, ending it again does nothing, and no
  pass of the reaper removes it.\<close>

theorem early_exit_stays_listed:
  assumes "p_ms p a = Some m" and "m_endOnce m" and "m_id m = sid" and "sid \<noteq> []" and "HasHub cfg"
  shows "let q = track_session cfg now w a sid u s p in
    store_get sid q = Some a \<and> sid \<in> Active (g_hub q) \<and> ms_end sha cfg env a q = q \<and>
    (set order = {sid} \<longrightarrow> reap sha cfg envs now' order q = q)"
proof -
  let ?q = "track_session cfg now w a sid u s p"
  have "\<exists>m'. p_ms ?q a = Some m' \<and> m_endOnce m'"
    using assms by (simp add: track_session_def start_watchdog_def attach_def set_ms_def store_add_def Let_def)
  then obtain m' where m': "p_ms ?q a = Some m'" "m_endOnce m'" by blast
  have st: "p_store ?q sid = Some a" "sid \<in> Active (g_hub ?q)"
    using assms
    by (auto simp: track_session_def start_watchdog_def attach_def set_ms_def store_add_def Let_def
        Register_def Active_def split: option.splits)
  note once = ms_end_once [OF m']
  have "fold (\<lambda>a. ms_end sha cfg (envs a) a) as ?q = ?q" if "set as \<subseteq> {a}" for as
    using that by (induction as) (auto simp: once)
  moreover have "set (reap_expired now' order ?q) \<subseteq> {a}" if "set order = {sid}"
    using that st by (auto simp: reap_expired_def List.map_filter_def)
  ultimately show ?thesis
    using st once by (auto simp: Let_def store_get_def reap_def)
qed

theorem early_exit_stays_listed_witness:
  "let q = track_session demo_cfg 0 7 0 ''s1'' ''u1'' ''h1'' (ms_end id demo_cfg demo_end 0 demo_proxy) in
     isEnded 0 q \<and> store_get ''s1'' q = Some 0 \<and> ''s1'' \<in> Active (g_hub q)"
proof -
  let ?p = "ms_end id demo_cfg demo_end 0 demo_proxy"
  let ?m = "new_managed ''s1'' ''u1'' ''web'' demo_rec"
  have "p_ms demo_proxy 0 = Some ?m" "\<not> m_endOnce ?m"
    by (simp_all add: demo_proxy_def demo_def new_managed_def)
  from ms_end_ms [OF this] have m: "p_ms ?p 0 = Some (?m\<lparr>m_ended := True, m_shell_open := False, m_client_open := False, m_endOnce := True\<rparr>)"
    by simp
  from early_exit_stays_listed [OF m, of "''s1''" demo_cfg 0 7 "''u1''" "''h1''" id demo_end] m show ?thesis
    by (auto simp: new_managed_def demo_cfg_def Let_def isEnded_def track_session_def start_watchdog_def attach_def
        set_ms_def store_add_def)
qed

end
