(* ===== verification/Files.thy ===== *)
theory Files
  imports SshProxy
begin

text \<open>
  File transfer (\<^verbatim>\<open>internal/api/sftp.go\<close>), the session endpoints
  (\<^verbatim>\<open>internal/api/sessions.go\<close>) and the static files (\<^verbatim>\<open>internal/api/static.go\<close>).
  The SFTP client (\<^verbatim>\<open>github.com/pkg/sftp\<close>), the file system and \<^verbatim>\<open>http.ServeFile\<close>'s
  content handling are parameters; the paths the handlers build, the checks before
  them and what they leave behind are the model.
\<close>

section \<open>SFTP\<close>

record file_info =
  fi_Name :: string
  fi_Size :: int
  fi_Mode :: string
  fi_IsDir :: bool
  fi_ModTime :: gotime

record fileEntry =
  fe_Name :: string
  fe_Size :: int
  fe_Mode :: string
  fe_IsDir :: bool
  fe_ModTime :: string

text \<open>The files of the target by the path they are addressed with, and how many SSH
  clients the gateway holds open.\<close>

record target =
  tg_files :: "string \<rightharpoonup> string"
  tg_clients :: nat

record sftp_env =
  sf_connect :: connect_env
  sf_client :: "string option" \<comment> \<open>error of \<^verbatim>\<open>sftp.NewClient\<close>\<close>
  sf_readdir :: "string \<Rightarrow> string + file_info list"
  sf_open :: "string \<Rightarrow> string option" \<comment> \<open>error of \<^verbatim>\<open>Open\<close>\<close>
  sf_create :: "string \<Rightarrow> string option" \<comment> \<open>error of \<^verbatim>\<open>Create\<close>\<close>
  sf_copy :: "(nat \<times> string) option" \<comment> \<open>\<^verbatim>\<open>io.Copy\<close> fails after so many bytes\<close>
  sf_format :: "gotime \<Rightarrow> string"

text \<open>The client of the answer is open until the closer runs.\<close>

definition sftpClient ::
  "aead \<Rightarrow> proxy_cfg \<Rightarrow> sftp_env \<Rightarrow> string \<Rightarrow> ('a tables_scheme) \<times> target \<Rightarrow> string option \<times> ('a tables_scheme) \<times> target" where
  "sftpClient c cfg env serverID s =
     (case Connect c cfg (sf_connect env) serverID (fst s) of
        (Some e, t) \<Rightarrow> (Some e, t, snd s)
      | (None, t) \<Rightarrow>
          (let g = (snd s)\<lparr>tg_clients := tg_clients (snd s) + 1\<rparr>
           in case sf_client env of
                Some e \<Rightarrow> (Some e, t, g\<lparr>tg_clients := tg_clients g - 1\<rparr>)
              | None \<Rightarrow> (None, t, g)))"

definition sftp_close :: "target \<Rightarrow> target" where
  "sftp_close g = g\<lparr>tg_clients := tg_clients g - 1\<rparr>"

abbreviation sftp_jit :: "proxy_cfg \<Rightarrow> sftp_env \<Rightarrow> claims option \<Rightarrow> string \<Rightarrow> ('a tables_scheme) \<Rightarrow> bool" where
  "sftp_jit cfg env cl serverID t \<equiv>
     jitOK (JITRequired cfg) (ce_jit_fails (sf_connect env)) (ce_now (sf_connect env)) cl serverID t"

definition file_entry :: "(gotime \<Rightarrow> string) \<Rightarrow> file_info \<Rightarrow> fileEntry" where
  "file_entry fmt fi = \<lparr>fe_Name = fi_Name fi, fe_Size = fi_Size fi, fe_Mode = fi_Mode fi, fe_IsDir = fi_IsDir fi,
     fe_ModTime = fmt (fi_ModTime fi)\<rparr>"

definition dir_or_dot :: "string \<Rightarrow> string" where
  "dir_or_dot dir = (if dir = [] then ''.'' else dir)"

definition SFTPList ::
  "aead \<Rightarrow> proxy_cfg \<Rightarrow> sftp_env \<Rightarrow> claims option \<Rightarrow> string \<Rightarrow> string \<Rightarrow> ('a tables_scheme) \<times> target \<Rightarrow>
   (string \<times> fileEntry list) response \<times> ('a tables_scheme) \<times> target" where
  "SFTPList c cfg env cl serverID dir s =
     (if \<not> sftp_jit cfg env cl serverID (fst s) then (writeErr StatusForbidden ''access not approved (JIT)'', s)
      else let d = dir_or_dot dir
           in case sftpClient c cfg env serverID s of
                (Some e, s1) \<Rightarrow> (writeErr StatusBadGateway (''sftp connect failed: '' @ e), s1)
              | (None, t, g) \<Rightarrow>
                  (case sf_readdir env d of
                     Inl e \<Rightarrow> (writeErr StatusBadRequest (''read dir failed: '' @ e), t, sftp_close g)
                   | Inr infos \<Rightarrow> (writeJSON StatusOK (d, map (file_entry (sf_format env)) infos), t, sftp_close g)))"

text \<open>A download: the \<^verbatim>\<open>Content-Disposition\<close> header and the bytes that were copied before the copy ended.\<close>

definition copied :: "sftp_env \<Rightarrow> string \<Rightarrow> string" where
  "copied env d = (case sf_copy env of None \<Rightarrow> d | Some (k, e) \<Rightarrow> if k < length d then take k d else d)"

definition disposition :: "string \<Rightarrow> string" where
  "disposition fpath = ''attachment; filename='' @ [CHR 0x22] @ path_base fpath @ [CHR 0x22]"

definition SFTPDownload ::
  "aead \<Rightarrow> proxy_cfg \<Rightarrow> sftp_env \<Rightarrow> claims option \<Rightarrow> string \<Rightarrow> string \<Rightarrow> ('a tables_scheme) \<times> target \<Rightarrow>
   (string \<times> string) response \<times> ('a tables_scheme) \<times> target" where
  "SFTPDownload c cfg env cl serverID fpath s =
     (if \<not> sftp_jit cfg env cl serverID (fst s) then (writeErr StatusForbidden ''access not approved (JIT)'', s)
      else if fpath = [] then (writeErr StatusBadRequest ''path required'', s)
      else case sftpClient c cfg env serverID s of
             (Some e, s1) \<Rightarrow> (writeErr StatusBadGateway ''sftp connect failed'', s1)
           | (None, t, g) \<Rightarrow>
               (case (sf_open env fpath, tg_files g fpath) of
                  (None, Some d) \<Rightarrow> (JSON StatusOK (disposition fpath, copied env d), t, sftp_close g)
                | (Some e, _) \<Rightarrow> (writeErr StatusBadRequest (''open failed: '' @ e), t, sftp_close g)
                | (None, None) \<Rightarrow> (writeErr StatusBadRequest ''open failed: file does not exist'', t, sftp_close g)))"

text \<open>
  An upload.  The form is what \<^verbatim>\<open>ParseMultipartForm\<close> and \<^verbatim>\<open>FormFile\<close> make of the body:
  \<open>None\<close> when it is not a form, \<open>Some None\<close> without the field, else the file name and
  the bytes.  \<open>Create\<close> empties the file before the copy starts.
\<close>

definition upload_path :: "string \<Rightarrow> string \<Rightarrow> string" where
  "upload_path dir filename = path_join (dir_or_dot dir) (path_base filename)"

definition SFTPUpload ::
  "aead \<Rightarrow> proxy_cfg \<Rightarrow> sftp_env \<Rightarrow> claims option \<Rightarrow> string \<Rightarrow> string \<Rightarrow> (string \<times> string) option option \<Rightarrow>
   ('a tables_scheme) \<times> target \<Rightarrow> (string \<times> nat) response \<times> ('a tables_scheme) \<times> target" where
  "SFTPUpload c cfg env cl serverID dir form s =
     (if \<not> sftp_jit cfg env cl serverID (fst s) then (writeErr StatusForbidden ''access not approved (JIT)'', s)
      else case form of
        None \<Rightarrow> (writeErr StatusBadRequest ''invalid multipart form'', s)
      | Some None \<Rightarrow> (writeErr StatusBadRequest ''file field required'', s)
      | Some (Some (filename, d)) \<Rightarrow>
          (case sftpClient c cfg env serverID s of
             (Some e, s1) \<Rightarrow> (writeErr StatusBadGateway ''sftp connect failed'', s1)
           | (None, t, g) \<Rightarrow>
               (let dst = upload_path dir filename
                in case sf_create env dst of
                     Some e \<Rightarrow> (writeErr StatusBadRequest (''create failed: '' @ e), t, sftp_close g)
                   | None \<Rightarrow>
                       (let g1 = g\<lparr>tg_files := (tg_files g)(dst \<mapsto> copied env d)\<rparr>
                        in case sf_copy env of
                             Some (k, e) \<Rightarrow>
                               if k < length d then (writeErr StatusInternalServerError (''write failed: '' @ e), t, sftp_close g1)
                               else (writeJSON StatusOK (dst, length d), t, sftp_close g1)
                           | None \<Rightarrow> (writeJSON StatusOK (dst, length d), t, sftp_close g1)))))"

section \<open>Sessions\<close>

definition ListSessions :: "session_row rows \<Rightarrow> session_row list response" where
  "ListSessions q =
     (case q of
        QueryErr \<Rightarrow> writeErr StatusInternalServerError ''db error''
      | Rows rs _ \<Rightarrow>
          (case collect (\<lambda>r. r) rs of
             None \<Rightarrow> writeErr StatusInternalServerError ''scan error''
           | Some xs \<Rightarrow> writeJSON StatusOK xs))"

definition GetSession :: "bool \<Rightarrow> string \<Rightarrow> ('a gateway_scheme) \<Rightarrow> session_row response" where
  "GetSession fails i g =
     (if fails then writeErr StatusInternalServerError ''db error''
      else case g_rows g i of
        None \<Rightarrow> writeErr StatusNotFound ''not found''
      | Some s \<Rightarrow> writeJSON StatusOK s)"

text \<open>The closure the hub holds for a session ends its managed session.\<close>

definition TerminateSession ::
  "(string \<Rightarrow> string) \<Rightarrow> proxy_cfg \<Rightarrow> end_env \<Rightarrow> string \<Rightarrow> proxy \<Rightarrow> string response \<times> proxy" where
  "TerminateSession sha cfg env i p =
     (if \<not> HasHub cfg then (writeErr StatusNotFound ''session not live'', p)
      else case Kill i (g_hub p) of
        None \<Rightarrow> (writeErr StatusNotFound ''session not live'', p)
      | Some None \<Rightarrow> (writeJSON StatusOK ''terminated'', p)
      | Some (Some a) \<Rightarrow> (writeJSON StatusOK ''terminated'', ms_end sha cfg env a p))"

text \<open>\<^verbatim>\<open>http.ServeFile\<close> refuses a request whose URL has a \<^verbatim>\<open>..\<close> element and redirects one that ends in
  \<^verbatim>\<open>/index.html\<close>; a missing file is 404.\<close>

definition url_dotdot :: "string \<Rightarrow> bool" where
  "url_dotdot url \<longleftrightarrow> ''..'' \<in> set (concat (map (split_on (CHR 0x5C)) (split_on (CHR ''/'') url)))"

definition ServeFile :: "(string \<rightharpoonup> 'f) \<Rightarrow> string \<Rightarrow> string \<Rightarrow> 'f response" where
  "ServeFile files url path =
     (if url_dotdot url then Failed StatusBadRequest ''invalid URL path''
      else if suffix ''/index.html'' url then NoBody 301
      else case files path of None \<Rightarrow> Failed StatusNotFound ''404 page not found'' | Some f \<Rightarrow> JSON StatusOK f)"

definition cast_path :: "string \<Rightarrow> string \<Rightarrow> string" where
  "cast_path dir i = path_join dir (i @ ''.cast'')"

definition GetSessionCast :: "string \<Rightarrow> string \<Rightarrow> string \<Rightarrow> ('a gateway_scheme) \<Rightarrow> cast_line list response" where
  "GetSessionCast dir url i g = ServeFile (g_files g) url (cast_path dir i)"

section \<open>Static files\<close>

text \<open>The files of the host: a directory or a file with its content.\<close>

datatype inode = IsDir | IsFile string

definition regular :: "(string \<rightharpoonup> inode) \<Rightarrow> string \<rightharpoonup> string" where
  "regular fs p = (case fs p of Some (IsFile d) \<Rightarrow> Some d | _ \<Rightarrow> None)"

definition serveInstall :: "(string \<rightharpoonup> inode) \<Rightarrow> string \<Rightarrow> string response" where
  "serveInstall fs url = ServeFile (regular fs) url (path_join ''scripts'' ''install.sh'')"

definition serveAgentBinary :: "string \<Rightarrow> (string \<rightharpoonup> inode) \<Rightarrow> string \<Rightarrow> string \<Rightarrow> string response" where
  "serveAgentBinary agentsPath fs url arch =
     (if arch \<noteq> ''amd64'' \<and> arch \<noteq> ''arm64'' then Failed StatusNotFound ''unsupported arch''
      else let path = path_join agentsPath (''linux/'' @ arch @ ''/shellwarden-agent'')
           in if fs path = None then Failed StatusNotFound ''agent binary not found''
              else ServeFile (regular fs) url path)"

text \<open>\<^verbatim>\<open>http.FileServer\<close> on a file: the path is made absolute and cleaned before it is opened below the root.\<close>

definition FileServer :: "string \<Rightarrow> (string \<rightharpoonup> inode) \<Rightarrow> string \<Rightarrow> string response" where
  "FileServer root fs url =
     (if suffix ''/index.html'' url then NoBody 301
      else case regular fs (path_join root (path_clean (CHR ''/'' # url))) of
        None \<Rightarrow> Failed StatusNotFound ''404 page not found''
      | Some d \<Rightarrow> if suffix ''/'' url then NoBody 301 else JSON StatusOK d)"

text \<open>
  The handler of the single-page application: a path that names a file below the
  root is left to the file server; any other gets the index page.
\<close>

definition spaHandler :: "string \<Rightarrow> (string \<rightharpoonup> inode) \<Rightarrow> string \<Rightarrow> string response" where
  "spaHandler root fs url =
     (let full = path_join root (path_clean url);
          index = path_join root ''index.html''
      in case fs full of
           Some (IsFile d) \<Rightarrow> FileServer root fs url
         | _ \<Rightarrow> if fs index = None then Failed StatusNotFound ''404 page not found''
                 else ServeFile (regular fs) url index)"

section \<open>Paths stay where they are meant to\<close>

lemma split_on_append: "split_on s (a @ s # b) = split_on s a @ split_on s b"
proof (induction a)
  case (Cons c a)
  then show ?case
    by (cases "split_on s a") (auto dest: split_on_not_Nil [THEN notE])
qed simp

definition clean_stack :: "string \<Rightarrow> string list" where
  "clean_stack p = foldl (clean_elem (HasPrefix p ''/'')) [] (split_on (CHR ''/'') p)"

lemma path_clean_stack:
  "path_clean p = (if HasPrefix p ''/'' then CHR ''/'' # join_with ''/'' (rev (clean_stack p))
     else if join_with ''/'' (rev (clean_stack p)) = [] then ''.'' else join_with ''/'' (rev (clean_stack p)))"
  by (simp add: path_clean_def clean_stack_def Let_def)

lemma clean_elems_set: "set (foldl (clean_elem r) st es) \<subseteq> set st \<union> {e \<in> set es. e \<noteq> [] \<and> e \<noteq> ''.''}"
proof (induction es arbitrary: st)
  case (Cons e es)
  have "set (clean_elem r st e) \<subseteq> set st \<union> {x. x = e \<and> x \<noteq> [] \<and> x \<noteq> ''.''}"
    by (cases st) auto
  with Cons [of "clean_elem r st e"] show ?case
    by (auto simp del: clean_elem.simps)
qed simp

lemma clean_stack_elems: "e \<in> set (clean_stack p) \<Longrightarrow> e \<noteq> [] \<and> e \<noteq> ''.'' \<and> CHR ''/'' \<notin> set e"
  using clean_elems_set [of "HasPrefix p ''/''" "[]" "split_on (CHR ''/'') p"] split_on_sep_free
  by (fastforce simp: clean_stack_def)

lemma join_with_snoc: "ws \<noteq> [] \<Longrightarrow> join_with sep (ws @ [w]) = join_with sep ws @ sep @ w"
  by (induction sep ws rule: join_with.induct) auto

lemma join_with_empty: "(\<And>w. w \<in> set ws \<Longrightarrow> w \<noteq> []) \<Longrightarrow> join_with sep ws = [] \<longleftrightarrow> ws = []"
  by (cases "(sep, ws)" rule: join_with.cases) auto

lemma join_with_dot:
  assumes "\<And>w. w \<in> set ws \<Longrightarrow> w \<noteq> [] \<and> w \<noteq> ''.'' \<and> CHR ''/'' \<notin> set w"
  shows "join_with ''/'' ws \<noteq> ''.''" "join_with ''/'' ws \<noteq> ''/''"
proof -
  have "ws = [] \<or> (\<exists>w. ws = [w]) \<or> (\<exists>w v vs. ws = w # v # vs)" by (metis list.exhaust)
  moreover have "w @ ''/'' @ x \<noteq> ''.'' \<and> w @ ''/'' @ x \<noteq> ''/''" if "w \<in> set ws" for w x
    using assms [OF that] by (cases w) auto
  ultimately show "join_with ''/'' ws \<noteq> ''.''" "join_with ''/'' ws \<noteq> ''/''" using assms by auto
qed

lemma path_clean_join:
  assumes "dir \<noteq> []" and "CHR ''/'' \<notin> set b" and "b \<notin> {[], ''.'', ''..''}"
  shows "path_clean (dir @ ''/'' @ b) =
    (if path_clean dir = ''/'' then CHR ''/'' # b else if path_clean dir = ''.'' then b else path_clean dir @ ''/'' @ b)"
proof -
  let ?st = "clean_stack dir"
  have r: "HasPrefix (dir @ CHR ''/'' # b) ''/'' = HasPrefix dir ''/''"
    using assms(1) by (cases dir) (simp_all add: HasPrefix_def)
  have st: "clean_stack (dir @ ''/'' @ b) = b # ?st"
    using assms(2,3) by (simp add: clean_stack_def r split_on_append split_on_free)
  have e: "join_with ''/'' (rev ?st) = [] \<longleftrightarrow> ?st = []" "join_with ''/'' (rev ?st) \<noteq> ''.''" "join_with ''/'' (rev ?st) \<noteq> ''/''"
    using join_with_empty [of "rev ?st"] join_with_dot [of "rev ?st"] clean_stack_elems by auto
  have j: "join_with ''/'' (rev (b # ?st)) = (if ?st = [] then b else join_with ''/'' (rev ?st) @ ''/'' @ b)"
    by (simp add: join_with_snoc)
  show ?thesis
    unfolding path_clean_stack [of dir] path_clean_stack [of "dir @ ''/'' @ b"] st j
    using e assms(3) r by (auto simp: join_with_snoc)
qed

lemma path_clean_join_self:
  assumes "dir \<noteq> []" and "b = ''.'' \<or> b = ''/''"
  shows "path_clean (dir @ ''/'' @ b) = path_clean dir"
proof -
  have r: "HasPrefix (dir @ CHR ''/'' # b) ''/'' = HasPrefix dir ''/''"
    using assms(1) by (cases dir) (simp_all add: HasPrefix_def)
  have "clean_stack (dir @ ''/'' @ b) = clean_stack dir"
    using assms(2) by (auto simp: clean_stack_def r split_on_append)
  then show ?thesis
    unfolding path_clean_stack [of dir] path_clean_stack [of "dir @ ''/'' @ b"] using r by simp
qed

text \<open>A path directly below a directory, as the cleaned directory and the last element.\<close>

definition below :: "string \<Rightarrow> string \<Rightarrow> string" where
  "below dir b = (if path_clean dir = ''/'' then CHR ''/'' # b else if path_clean dir = ''.'' then b else path_clean dir @ ''/'' @ b)"

lemma path_join_below:
  "dir \<noteq> [] \<Longrightarrow> CHR ''/'' \<notin> set b \<Longrightarrow> b \<notin> {[], ''.'', ''..''} \<Longrightarrow> path_join dir b = below dir b"
  using path_clean_join [of dir b] by (simp add: path_join_def below_def)

lemma path_base_slash: "CHR ''/'' \<in> set (path_base p) \<Longrightarrow> path_base p = ''/''"
  using split_on_sep_free [OF last_in_set [OF split_on_not_Nil]] by (auto simp: path_base_def Let_def split: if_splits)


lemma path_base_nonempty: "path_base p \<noteq> []"
proof -
  have "last (split_on c (a @ [x])) \<noteq> []" if "x \<noteq> c" for a x c
  proof (induction a)
    case Nil
    show ?case using that by simp
  next
    case (Cons y a)
    then show ?case by (cases "split_on c (a @ [x])") (auto split: if_splits)
  qed
  moreover have "rev q = rev (tl q) @ [hd q]" if "q \<noteq> []" for q :: string
    using that by (cases q) simp_all
  moreover have "hd q \<noteq> CHR ''/''" if "q = dropWhile (\<lambda>c. c = CHR ''/'') (rev p)" "q \<noteq> []" for q
    using hd_dropWhile [of "\<lambda>c. c = CHR ''/''" "rev p"] that by simp
  ultimately have "last (split_on (CHR ''/'') (rev q)) \<noteq> []" if "q = dropWhile (\<lambda>c. c = CHR ''/'') (rev p)" "q \<noteq> []" for q
    using that by metis
  then show ?thesis by (simp add: path_base_def Let_def del: dropWhile_eq_Nil_conv)
qed

section \<open>Transfers\<close>

lemma Connect_clients:
  "sftpClient c cfg env i s = (e, t, g) \<Longrightarrow>
     g = (if e = None then (snd s)\<lparr>tg_clients := tg_clients (snd s) + 1\<rparr> else snd s)"
  by (auto simp: sftpClient_def Let_def split: prod.splits option.splits)

text \<open>C18: An upload changes one path: it is refused, touching nothing, unless just-in-time access allows it;
  whatever happens, no SSH client stays open and no other file of the target changes; an upload that is
  reported successful left exactly the uploaded bytes at the reported path.  Of the file name the browser sent only the last element
  counts, and the path is directly below the requested directory, with three exceptions: for a last element \<^verbatim>\<open>.\<close> or \<^verbatim>\<open>/\<close> it
  is the requested path itself, and for \<^verbatim>\<open>..\<close> its parent.\<close>

theorem upload_confined:
  assumes "SFTPUpload c cfg env cl serverID dir (Some (Some (filename, d))) (t, g) = (r, t', g')"
  shows "let dst = upload_path dir filename; b = path_base filename in
    (\<not> sftp_jit cfg env cl serverID t \<longrightarrow> r = Failed 403 ''access not approved (JIT)'' \<and> t' = t \<and> g' = g) \<and>
    tg_clients g' = tg_clients g \<and> (\<forall>p. p \<noteq> dst \<longrightarrow> tg_files g' p = tg_files g p) \<and>
    (\<forall>q n. r = JSON 200 (q, n) \<longrightarrow> sftp_jit cfg env cl serverID t \<and> q = dst \<and> tg_files g' dst = Some d \<and> n = length d) \<and>
    (b \<notin> {''.'', ''..'', ''/''} \<longrightarrow> dst = below (dir_or_dot dir) b \<and> CHR ''/'' \<notin> set b) \<and>
    (b = ''.'' \<or> b = ''/'' \<longrightarrow> dst = path_clean (dir_or_dot dir)) \<and>
    (b = ''..'' \<longrightarrow> dst = path_clean (dir_or_dot dir @ ''/..''))"
proof -
  have d: "dir_or_dot dir \<noteq> []" by (simp add: dir_or_dot_def)
  have self: "upload_path dir filename = path_clean (dir_or_dot dir)" if "path_base filename = ''.'' \<or> path_base filename = ''/''"
    using path_clean_join_self [OF d that] d that by (auto simp: upload_path_def path_join_def)
  have up: "upload_path dir filename = path_clean (dir_or_dot dir @ ''/..'')" if "path_base filename = ''..''"
    using d that by (simp add: upload_path_def path_join_def)
  have b: "upload_path dir filename = below (dir_or_dot dir) (path_base filename) \<and> CHR ''/'' \<notin> set (path_base filename)"
    if "path_base filename \<notin> {''.'', ''..'', ''/''}"
  proof -
    have s: "CHR ''/'' \<notin> set (path_base filename)" using path_base_slash that by auto
    moreover have "path_base filename \<noteq> []" by (rule path_base_nonempty)
    ultimately show ?thesis
      using that unfolding upload_path_def by (intro conjI path_join_below) (auto simp: dir_or_dot_def)
  qed
  obtain e t1 g1 where 1: "sftpClient c cfg env serverID (t, g) = (e, t1, g1)" by (metis prod_cases3)
  then have "g1 = (if e = None then g\<lparr>tg_clients := tg_clients g + 1\<rparr> else g)"
    using Connect_clients [of c cfg env serverID "(t, g)"] by simp
  with 1 assms b self up show ?thesis
    by (cases e) (auto simp: SFTPUpload_def Let_def sftp_close_def copied_def writeJSON_def writeErr_def
      split: if_splits option.splits)
qed


definition demo_sftp :: sftp_env where
  "demo_sftp = \<lparr>sf_connect = demo_connect, sf_client = None, sf_readdir = (\<lambda>d. Inr []), sf_open = (\<lambda>p. None),
     sf_create = (\<lambda>p. None), sf_copy = None, sf_format = (\<lambda>t. [])\<rparr>"

definition demo_target :: target where
  "demo_target = \<lparr>tg_files = [''/tmp/a'' \<mapsto> ''old'', ''/etc/passwd'' \<mapsto> ''root''], tg_clients = 0\<rparr>"

theorem upload_confined_witness:
  "let r = SFTPUpload toy_aead demo_cfg demo_sftp None ''h1'' ''/tmp/'' (Some (Some (''../../etc/passwd'', ''new'')))
             (demo_proxy, demo_target)
   in tg_files (snd (snd r)) ''/etc/passwd'' = Some ''root'' \<and> upload_path ''/tmp/'' ''../../etc/passwd'' = ''/tmp/passwd''"
proof -
  obtain r t' g' where r: "SFTPUpload toy_aead demo_cfg demo_sftp None ''h1'' ''/tmp/'' (Some (Some (''../../etc/passwd'', ''new'')))
      (demo_proxy, demo_target) = (r, t', g')"
    by (metis prod_cases3)
  have b: "path_base ''../../etc/passwd'' = ''passwd''" by code_simp
  have "path_clean ''/tmp/'' = ''/tmp''" by code_simp
  then have d: "below ''/tmp/'' ''passwd'' = ''/tmp/passwd''" by (simp add: below_def)
  have 1: "upload_path ''/tmp/'' ''../../etc/passwd'' = ''/tmp/passwd''"
    using upload_confined [OF r] unfolding Let_def b dir_or_dot_def by (simp add: d)
  have "tg_files g' ''/etc/passwd'' = tg_files demo_target ''/etc/passwd''"
    using upload_confined [OF r] unfolding Let_def 1 by simp
  with r 1 show ?thesis by (simp add: demo_target_def)
qed

text \<open>The file name \<^verbatim>\<open>..\<close> leaves the requested directory, and where the requested path goes through a file the upload
  overwrites that file.\<close>

lemma dotdot_names_parent: "upload_path ''/etc/passwd/x'' ''..'' = ''/etc/passwd''"
  by code_simp

text \<open>Listing and downloading leave the target's files and the open clients as they were, and need access too.\<close>

lemma reads_leave_target:
  "snd (snd (SFTPList c cfg env cl i dir (t, g))) = g" "snd (snd (SFTPDownload c cfg env cl i fpath (t, g))) = g"
proof -
  obtain e t1 g1 where 1: "sftpClient c cfg env i (t, g) = (e, t1, g1)" by (metis prod_cases3)
  then have "g1 = (if e = None then g\<lparr>tg_clients := tg_clients g + 1\<rparr> else g)"
    using Connect_clients [of c cfg env i "(t, g)"] by simp
  with 1 show "snd (snd (SFTPList c cfg env cl i dir (t, g))) = g" "snd (snd (SFTPDownload c cfg env cl i fpath (t, g))) = g"
    by (cases e; auto simp: SFTPList_def SFTPDownload_def Let_def sftp_close_def split: if_splits option.splits sum.splits)+
qed

text \<open>A download that breaks off is still answered with status 200.\<close>

lemma broken_download_is_ok:
  assumes "sftpClient c cfg env i (t, g) = (None, t1, g1)" and "sftp_jit cfg env cl i t" and "fpath \<noteq> []"
    and "sf_open env fpath = None" and "tg_files g fpath = Some d" and "sf_copy env = Some (k, e)" and "k < length d"
  shows "fst (SFTPDownload c cfg env cl i fpath (t, g)) = JSON 200 (disposition fpath, take k d)"
  using assms Connect_clients [OF assms(1)] by (simp add: SFTPDownload_def copied_def)

section \<open>Replaying a session\<close>

lemma cast_path_below: "dir \<noteq> [] \<Longrightarrow> CHR ''/'' \<notin> set i \<Longrightarrow> cast_path dir i = below dir (i @ ''.cast'')"
  unfolding cast_path_def by (rule path_join_below) auto


text \<open>C17: Terminating a live session through the API ends it everywhere and keeps its recording: the answer
  is 200, the shell is closed, neither the store nor the hub knows the session any more, a second request gets 404, and
  replaying the session serves exactly the lines recorded up to then, from a file directly in the recording directory.\<close>

theorem terminated_session_replays:
  assumes "HasHub cfg" and "Kill i (g_hub p) = Some (Some a)" and "hub_inv (g_hub p)"
    and "p_ms p a = Some m" and "\<not> m_endOnce m" and "m_id m = i" and "rec_sessionID (m_rec m) = i"
    and "flush_ok (ee_flush env)"
    and "RecordingPath cfg \<noteq> []" and "CHR ''/'' \<notin> set i"
    and "\<not> url_dotdot url" and "\<not> suffix ''/index.html'' url"
  shows "\<exists>q. TerminateSession sha cfg env i p = (JSON 200 ''terminated'', q) \<and>
    isEnded a q \<and> map_option (\<lambda>m. (m_shell_open m, m_client_open m)) (p_ms q a) = Some (False, False) \<and>
    store_get i q = None \<and> i \<notin> Active (g_hub q) \<and>
    TerminateSession sha cfg env' i q = (Failed 404 ''session not live'', q) \<and>
    GetSessionCast (RecordingPath cfg) url i q = JSON 200 (rec_lines (m_rec m)) \<and>
    cast_path (RecordingPath cfg) i = below (RecordingPath cfg) (i @ ''.cast'')"
proof -
  let ?q = "ms_end sha cfg env a p"
  obtain h where h: "Unregister i (g_hub p) = Some h" "sessions h i = None"
    using Unregister_ok [OF assms(3)] by blast
  have "g_hub ?q = h" using ms_end_hub [OF assms(4,5,1)] h(1) assms(6) by simp
  then have "sessions (g_hub ?q) i = None" using h(2) by simp
  moreover have "isEnded a ?q" "map_option (\<lambda>m. (m_shell_open m, m_client_open m)) (p_ms ?q a) = Some (False, False)"
      "store_get i ?q = None"
    using ms_end_ms [OF assms(4,5)] ms_end_store [OF assms(4,5)] assms(6) by (simp_all add: isEnded_def store_get_def)
  moreover have "g_files ?q (cast_path (RecordingPath cfg) i) = Some (rec_lines (m_rec m))"
    using assms(7,8) by (simp add: ms_end_eq(2) [OF assms(4,5)] endSession_def Flush_def flush_ok_def cast_path_def Let_def
        split: option.split)
  moreover have "cast_path (RecordingPath cfg) i = below (RecordingPath cfg) (i @ ''.cast'')"
    using cast_path_below assms(9,10) by blast
  ultimately show ?thesis
    using assms(1,2,11,12)
    by (simp add: TerminateSession_def writeJSON_def writeErr_def Active_def domIff Kill_def GetSessionCast_def ServeFile_def)
qed


theorem terminated_session_replays_witness:
  "\<exists>q. TerminateSession id demo_cfg demo_end ''s1'' (demo\<lparr>g_hub := Register ''s1'' ''u1'' ''h1'' 0 (Some 0) NewHub\<rparr>)
       = (JSON 200 ''terminated'', q) \<and>
     GetSessionCast ''rec'' ''/api/sessions/s1/cast'' ''s1'' q = JSON 200 (rec_lines demo_rec)"
proof -
  let ?p = "demo\<lparr>g_hub := Register ''s1'' ''u1'' ''h1'' 0 (Some 0) NewHub\<rparr>"
  let ?m = "new_managed ''s1'' ''u1'' ''web'' demo_rec"
  have m: "p_ms ?p 0 = Some ?m" by (simp add: demo_def)
  have "Kill ''s1'' (g_hub ?p) = Some (Some 0)" by (simp add: Kill_def Register_def NewHub_def)
  moreover have "hub_inv (g_hub ?p)" using hub_inv_Register [OF hub_inv_NewHub] by simp
  moreover have "\<not> url_dotdot ''/api/sessions/s1/cast''" by code_simp
  ultimately show ?thesis
    using terminated_session_replays [of demo_cfg "''s1''" ?p 0 ?m demo_end "''/api/sessions/s1/cast''" id] m
    by (simp add: demo_cfg_def new_managed_def demo_rec_def NewRecorder_def demo_end_def flush_ok_def suffix_def) blast
qed

text \<open>No path of a request leaves the static root: the file server opens a file named by a rooted path without
  \<^verbatim>\<open>..\<close> elements.\<close>

lemma rooted_no_dotdot: "''..'' \<notin> set st \<Longrightarrow> ''..'' \<notin> set (foldl (clean_elem True) st es)"
proof (induction es arbitrary: st)
  case (Cons e es)
  have "''..'' \<notin> set (clean_elem True st e)" using Cons.prems by (cases st) auto
  with Cons.IH show ?case by (simp del: clean_elem.simps)
qed simp

lemma static_path_rooted: "''..'' \<notin> set (clean_stack (CHR ''/'' # url))"
  unfolding clean_stack_def HasPrefix_def by (simp add: rooted_no_dotdot)

text \<open>Only the two builds of the agent are served.\<close>

lemma agent_binary_arch:
  "status (serveAgentBinary ap fs url arch) = 200 \<Longrightarrow> arch \<in> {''amd64'', ''arm64''}"
  by (auto simp: serveAgentBinary_def split: if_splits)

end
