(* ===== verification/Boot.thy ===== *)
theory Boot
  imports Startup
begin

text \<open>
  The start of the gateway from end to end: \<^verbatim>\<open>main\<close> of \<^verbatim>\<open>cmd/gateway/main.go\<close> up to \<^verbatim>\<open>ListenAndServe\<close>, with \<^verbatim>\<open>db.Open\<close>, the
  key derivation of \<^verbatim>\<open>internal/crypto/secrets.go\<close> and the authority of \<^verbatim>\<open>internal/sshca/sshca.go\<close>.  The database driver,
  AES-GCM, SHA-256 and the SSH library are parameters; their errors are arguments.
\<close>

section \<open>The pieces main puts together\<close>

text \<open>\<open>db.Open\<close>: the errors of \<^verbatim>\<open>sql.Open\<close> and of the ping; the answer is the error, if any.\<close>

definition db_Open :: "string option \<Rightarrow> string option \<Rightarrow> string option" where
  "db_Open open_err ping_err =
     (case open_err of
        Some e \<Rightarrow> Some (''open db: '' @ e)
      | None \<Rightarrow> (case ping_err of Some e \<Rightarrow> Some (''ping db: '' @ e) | None \<Rightarrow> None))"

text \<open>\<open>crypto.New\<close>: \<^verbatim>\<open>aes.NewCipher\<close> accepts the three key sizes of AES, \<open>gcm\<close> is the AEAD of a key; \<open>None\<close> is the panic.\<close>

definition aes_key_ok :: "string \<Rightarrow> bool" where
  "aes_key_ok k \<longleftrightarrow> length k = 16 \<or> length k = 24 \<or> length k = 32"

definition cipher_New :: "(string \<Rightarrow> string) \<Rightarrow> (string \<Rightarrow> aead) \<Rightarrow> string \<Rightarrow> aead option" where
  "cipher_New sha gcm secret = (let key = sha secret in if aes_key_ok key then Some (gcm key) else None)"

text \<open>\<open>Generate\<close>, \<open>Load\<close> and \<open>PublicKey\<close> of the authority: making a key pair, its PEM form, parsing it, and the line for
  \<^verbatim>\<open>TrustedUserCAKeys\<close>.\<close>

record ssh_lib =
  sl_marshal :: "string \<Rightarrow> string option" \<comment> \<open>the PEM text of a private key\<close>
  sl_parse :: "string \<Rightarrow> string option" \<comment> \<open>the private key in a PEM text\<close>
  sl_authorized :: "string \<Rightarrow> string" \<comment> \<open>the public key's line\<close>

definition ca_Generate :: "ssh_lib \<Rightarrow> string option \<Rightarrow> string option" where
  "ca_Generate L key = (case key of None \<Rightarrow> None | Some k \<Rightarrow> sl_marshal L k)"

definition ca_Load :: "ssh_lib \<Rightarrow> string \<Rightarrow> string option" where
  "ca_Load L pem = sl_parse L pem"

definition ca_PublicKey :: "ssh_lib \<Rightarrow> string \<Rightarrow> string" where
  "ca_PublicKey L signer = sl_authorized L signer"

section \<open>The start\<close>

record 'd deployment =
  dp_schema :: 'd
  dp_accounts :: accounts
  dp_settings :: settings

record 'd boot_env =
  be_open_err :: "string option"
  be_ping_err :: "string option"
  be_entries :: "(string \<times> bool) list option"
  be_readfile :: "string \<Rightarrow> string option"
  be_exec :: "string \<Rightarrow> 'd \<Rightarrow> 'd option"
  be_count_fails :: bool
  be_user_id :: string
  be_now :: gotime
  be_seed_fails :: bool
  be_ca_read_fails :: bool
  be_ca_random :: "string option" \<comment> \<open>a fresh private key\<close>
  be_ca_store_fails :: bool

record running =
  rn_addr :: string
  rn_cipher :: aead
  rn_proxy :: proxy_cfg
  rn_CAPubKey :: string
  rn_notifier :: notifier
  rn_siem :: notifier

datatype boot = Fatal string | Panic | Listening running

definition gateway_main ::
  "crypto \<Rightarrow> (string \<Rightarrow> aead) \<Rightarrow> ssh_lib \<Rightarrow> config \<Rightarrow> 'd boot_env \<Rightarrow> 'd deployment \<Rightarrow> boot \<times> 'd deployment" where
  "gateway_main cr gcm L cfg env d =
     (case db_Open (be_open_err env) (be_ping_err env) of
        Some e \<Rightarrow> (Fatal (''database: '' @ e), d)
      | None \<Rightarrow>
          (case Migrate (be_entries env) (be_readfile env) (be_exec env) (dp_schema d) of
             (Some e, sch) \<Rightarrow> (Fatal (''migrate: '' @ e), d\<lparr>dp_schema := sch\<rparr>)
           | (None, sch) \<Rightarrow>
               (let acc = seedAdminIfEmpty cr (be_count_fails env) (be_user_id env) (be_now env) (be_seed_fails env) (dp_accounts d);
                    d1 = d\<lparr>dp_schema := sch, dp_accounts := acc\<rparr>
                in case cipher_New (cr_sha cr) gcm (cf_SecretKey cfg) of
                     None \<Rightarrow> (Panic, d1)
                   | Some c \<Rightarrow>
                       (case main_ca (\<lambda>pem. ca_Load L pem \<noteq> None) cfg (be_ca_read_fails env)
                               (ca_Generate L (be_ca_random env)) (be_ca_store_fails env) (dp_settings d1) of
                          (ca, st) \<Rightarrow>
                            (Listening
                               \<lparr>rn_addr = '':'' @ cf_GatewayPort cfg, rn_cipher = c, rn_proxy = main_proxy cfg (ca \<noteq> None),
                                rn_CAPubKey = (case ca of
                                                 None \<Rightarrow> []
                                               | Some pem \<Rightarrow> (case ca_Load L pem of None \<Rightarrow> [] | Some k \<Rightarrow> ca_PublicKey L k)),
                                rn_notifier = New_notifier [cf_WebhookURL cfg], rn_siem = New_notifier [cf_SIEMWebhookURL cfg]\<rparr>,
                             d1\<lparr>dp_settings := st\<rparr>)))))"

section \<open>What a start guarantees\<close>

lemma cipher_New_total: "digest_32 sha \<Longrightarrow> cipher_New sha gcm secret = Some (gcm (sha secret))"
  by (simp add: cipher_New_def aes_key_ok_def digest_32_def)

text \<open>A start never panics over the key it derives.  It serves requests only on a database that answered and whose
  migrations all ran, in order; when it gives up instead, no account and no setting has been touched.\<close>

theorem boot_outcome:
  assumes "digest_32 (cr_sha cr)" and "gateway_main cr gcm L cfg env d = (r, d')" and "be_entries env = Some es"
  shows "r \<noteq> Panic \<and>
    (\<forall>e. r = Fatal e \<longrightarrow> dp_accounts d' = dp_accounts d \<and> dp_settings d' = dp_settings d) \<and>
    (\<forall>run. r = Listening run \<longrightarrow>
       db_Open (be_open_err env) (be_ping_err env) = None \<and>
       (\<exists>qs. map (\<lambda>n. be_readfile env (''migrations/'' @ n)) (sort (map fst (filter (\<lambda>e. \<not> snd e) es))) = map Some qs \<and>
          apply_scripts (be_exec env) qs (dp_schema d) = Some (dp_schema d')) \<and>
       rn_cipher run = gcm (cr_sha cr (cf_SecretKey cfg)) \<and> (ac_users (dp_accounts d) \<noteq> [] \<longrightarrow> dp_accounts d' = dp_accounts d))"
proof (cases "db_Open (be_open_err env) (be_ping_err env)")
  case None
  obtain k qs where qs:
      "map (\<lambda>n. be_readfile env (''migrations/'' @ n)) (take k (sort (map fst (filter (\<lambda>e. \<not> snd e) es)))) = map Some qs"
      "apply_scripts (be_exec env) qs (dp_schema d) = Some (snd (Migrate (Some es) (be_readfile env) (be_exec env) (dp_schema d)))"
      "fst (Migrate (Some es) (be_readfile env) (be_exec env) (dp_schema d)) = None \<longrightarrow>
         k = length (sort (map fst (filter (\<lambda>e. \<not> snd e) es)))"
    using migrations_in_order [of es "be_readfile env" "be_exec env" "dp_schema d"] by (elim exE conjE) (simp add: that)
  obtain me sch where m: "Migrate (be_entries env) (be_readfile env) (be_exec env) (dp_schema d) = (me, sch)" by fastforce
  show ?thesis
  proof (cases me)
    case (Some e)
    with assms(2) None m show ?thesis by (auto simp: gateway_main_def)
  next
    case no: None
    have "map (\<lambda>n. be_readfile env (''migrations/'' @ n)) (sort (map fst (filter (\<lambda>e. \<not> snd e) es))) = map Some qs"
      "apply_scripts (be_exec env) qs (dp_schema d) = Some sch"
      using qs m no assms(3) by simp_all
    with assms(2) None m no cipher_New_total [OF assms(1)] show ?thesis
      by (auto simp: gateway_main_def Let_def case_prod_beta seed_only_when_empty)
  qed
qed (use assms(2) in \<open>auto simp: gateway_main_def\<close>)

text \<open>A restart with the same \<^verbatim>\<open>SECRET_KEY\<close> reads what was stored before it.  Without \<^verbatim>\<open>SECRET_KEY\<close> the credentials are
  encrypted under \<^verbatim>\<open>JWT_SECRET\<close>, so replacing that one replaces the key of the stored credentials too.\<close>

lemma restart_reads_credentials:
  assumes "gateway_main cr gcm L cfg env d = (Listening r1, d1)" and "gateway_main cr gcm L cfg env2 d2 = (Listening r2, d3)"
    and "aead_ok (rn_cipher r1)" and "nonce_ok (rn_cipher r1) (Some nonce)"
  shows "Decrypt (rn_cipher r2) (Encrypt (rn_cipher r1) (Some nonce) s) = s"
proof -
  have "Some (rn_cipher r) = cipher_New (cr_sha cr) gcm (cf_SecretKey cfg)" if "gateway_main cr gcm L cfg e x = (Listening r, y)" for e x r y
    using that by (auto simp: gateway_main_def Let_def split: option.splits prod.splits)
  from this [OF assms(1)] this [OF assms(2)] have "rn_cipher r2 = rn_cipher r1" by (metis option.inject)
  then show ?thesis using Decrypt_Encrypt [OF assms(3,4)] by simp
qed

lemma credentials_follow_jwt_secret:
  "e ''SECRET_KEY'' = [] \<Longrightarrow> cf_SecretKey (Load rf e) = cf_JWTSecret (Load rf e)"
  by (simp add: Load_def getenv_def)

text \<open>A gateway started on an empty database hands an administrator's token to whoever knows the default password.\<close>

theorem first_start_default_admin:
  assumes "gateway_main cr gcm L cfg env d = (Listening run, d')" and "ac_users (dp_accounts d) = []"
    and "\<not> be_count_fails env" and "\<not> be_seed_fails env"
    and "cr_hash cr ''changeme'' = Some h" and "cr_compare cr h ''changeme''"
    and "Issue (cr_jwt cr) (cr_secret cr) (le_now le) (be_user_id env) ''admin'' RoleAdmin = Some tok" and "\<not> le_query_fails le"
  shows "\<exists>j. fst (Login cr le (Some \<lparr>lr_Username = ''admin'', lr_Password = ''changeme'', lr_Code = []\<rparr>) (dp_accounts d')) =
    JSON 200 (tok, j)"
proof -
  have "dp_accounts d' =
      seedAdminIfEmpty cr (be_count_fails env) (be_user_id env) (be_now env) (be_seed_fails env) (dp_accounts d)"
    using assms(1) by (auto simp: gateway_main_def Let_def split: option.splits prod.splits)
  then show ?thesis
    using assms by (auto simp: seedAdminIfEmpty_def insert_user_def users_constraints_def Let_def find_user_def Login_def writeJSON_def
        RoleAdmin_def)
qed

end
