(* ===== verification/VulnScan.thy ===== *)
theory VulnScan
  imports Complex_Main GoStd
begin

text \<open>
  Vulnerability scanning: the agent's reading of the distributions' own tools
  (\<^verbatim>\<open>cmd/agent/vulnscan.go\<close>) and the gateway's CVSS scores (\<^verbatim>\<open>internal/cve/cve.go\<close>).  What a command
  prints, which commands exist, the file \<^verbatim>\<open>/etc/os-release\<close> and the answers of OSV.dev are arguments.
  Scores are \<^verbatim>\<open>float64\<close> in the code and exact rationals here.
\<close>

section \<open>Reading the tools\<close>

record vulnFinding =
  vf_ID :: string
  vf_Package :: string
  vf_Severity :: string

record vulnScan =
  vs_Tool :: string
  vs_Distro :: string
  vs_Upgradable :: nat
  vs_SecurityUpdates :: nat
  vs_Findings :: "vulnFinding list"
  vs_ScannedAt :: string
  vs_Note :: string

record scan_host =
  sh_run :: "string list \<Rightarrow> string option" \<comment> \<open>standard output, \<open>None\<close> when the command fails\<close>
  sh_has :: "string \<Rightarrow> bool"
  sh_os_release :: "string option"
  sh_now :: string

definition normSeverity :: "string \<Rightarrow> string" where
  "normSeverity s0 =
     (let s = ToLower (TrimSpace s0)
      in if Contains s ''critical'' then ''critical''
         else if Contains s ''important'' \<or> Contains s ''high'' then ''high''
         else if Contains s ''moderate'' \<or> Contains s ''medium'' then ''medium''
         else if Contains s ''low'' then ''low''
         else ''unknown'')"

definition countLines :: "string \<Rightarrow> nat" where
  "countLines s = length (filter (\<lambda>l. TrimSpace l \<noteq> []) (split_on (CHR 10) (TrimSpace s)))"

definition apt_line :: "string \<Rightarrow> vulnScan \<Rightarrow> vulnScan" where
  "apt_line line s =
     (if HasPrefix line ''Inst '' then
        (let s1 = s\<lparr>vs_Upgradable := Suc (vs_Upgradable s)\<rparr>
         in if Contains (ToLower line) ''security'' then s1\<lparr>vs_SecurityUpdates := Suc (vs_SecurityUpdates s1)\<rparr> else s1)
      else s)"

definition debsecan_line :: "string \<Rightarrow> vulnScan \<Rightarrow> vulnScan" where
  "debsecan_line line s =
     (case Fields line of
        i # p # _ \<Rightarrow>
          if HasPrefix i ''CVE-'' then
            (let sev = (case Index line ''urgency'' of
                          Some k \<Rightarrow> if 0 < k then normSeverity (take k line) else ''unknown''
                        | None \<Rightarrow> ''unknown'')
             in s\<lparr>vs_Findings := vs_Findings s @ [\<lparr>vf_ID = i, vf_Package = p, vf_Severity = sev\<rparr>]\<rparr>)
          else s
      | _ \<Rightarrow> s)"

definition over_lines :: "(string \<Rightarrow> vulnScan \<Rightarrow> vulnScan) \<Rightarrow> string option \<Rightarrow> vulnScan \<Rightarrow> vulnScan" where
  "over_lines f out s = (case out of None \<Rightarrow> s | Some txt \<Rightarrow> fold f (split_on (CHR 10) txt) s)"

definition scanDebian :: "scan_host \<Rightarrow> vulnScan \<Rightarrow> vulnScan" where
  "scanDebian h s =
     (let s1 = over_lines apt_line (sh_run h [''apt-get'', ''-s'', ''upgrade'']) s
      in if sh_has h ''debsecan''
         then over_lines debsecan_line (sh_run h [''debsecan'']) (s1\<lparr>vs_Tool := ''debsecan''\<rparr>)
         else s1\<lparr>vs_Tool := ''apt'', vs_Note := ''install '' @ [CHR 39] @ ''debsecan'' @ [CHR 39] @ '' for CVE-level detail''\<rparr>)"

definition dnf_line :: "string \<Rightarrow> vulnScan \<Rightarrow> vulnScan" where
  "dnf_line line s =
     (let f = Fields line
      in if length f < 3 then s
         else s\<lparr>vs_SecurityUpdates := Suc (vs_SecurityUpdates s),
                vs_Findings := vs_Findings s @ [\<lparr>vf_ID = f ! 0, vf_Package = last f, vf_Severity = normSeverity (f ! 1)\<rparr>]\<rparr>)"

definition scanRHEL :: "scan_host \<Rightarrow> vulnScan \<Rightarrow> vulnScan" where
  "scanRHEL h s =
     (let mgr = (if sh_has h ''dnf'' then ''dnf'' else ''yum'')
      in over_lines dnf_line (sh_run h [mgr, ''-q'', ''updateinfo'', ''list'', ''security'']) (s\<lparr>vs_Tool := mgr\<rparr>))"

definition arch_line :: "string \<Rightarrow> vulnScan \<Rightarrow> vulnScan" where
  "arch_line line s =
     (let p = split_on (CHR ''|'') line
      in if length p < 3 then s
         else s\<lparr>vs_SecurityUpdates := Suc (vs_SecurityUpdates s),
                vs_Findings := vs_Findings s @ [\<lparr>vf_ID = p ! 1, vf_Package = p ! 0, vf_Severity = normSeverity (p ! 2)\<rparr>]\<rparr>)"

definition scanArch :: "scan_host \<Rightarrow> vulnScan \<Rightarrow> vulnScan" where
  "scanArch h s =
     (let s1 = (case sh_run h [''pacman'', ''-Qu''] of None \<Rightarrow> s | Some u \<Rightarrow> s\<lparr>vs_Upgradable := countLines u\<rparr>)
      in if sh_has h ''arch-audit''
         then over_lines arch_line (sh_run h [''arch-audit'', ''-uf'', ''%n|%c|%s'']) (s1\<lparr>vs_Tool := ''arch-audit''\<rparr>)
         else s1\<lparr>vs_Tool := ''pacman'', vs_Note := ''install '' @ [CHR 39] @ ''arch-audit'' @ [CHR 39] @ '' for CVE-level detail''\<rparr>)"

text \<open>The value of a line of \<^verbatim>\<open>os-release\<close>: what follows the first \<^verbatim>\<open>=\<close>, without surrounding quotes.\<close>

definition os_value :: "string \<Rightarrow> string" where
  "os_value line = trim_char (CHR 34) (TrimPrefix line (hd (split2 (CHR ''='') line) @ ''=''))"

definition os_line :: "string \<Rightarrow> string \<times> string \<Rightarrow> string \<times> string" where
  "os_line line il =
     (case il of (i, like) \<Rightarrow>
        if HasPrefix line ''ID='' then (os_value line, like)
        else if HasPrefix line ''ID_LIKE='' then (i, os_value line)
        else (i, like))"

definition osID :: "string option \<Rightarrow> string \<times> string" where
  "osID f = (case f of None \<Rightarrow> ([], []) | Some b \<Rightarrow> fold os_line (split_on (CHR 10) b) ([], []))"

definition contains_any :: "string \<Rightarrow> string \<Rightarrow> string list \<Rightarrow> bool" where
  "contains_any i like names = list_ex (Contains (i @ '' '' @ like)) names"

definition scanHost :: "scan_host \<Rightarrow> vulnScan" where
  "scanHost h =
     (let s = \<lparr>vs_Tool = [], vs_Distro = [], vs_Upgradable = 0, vs_SecurityUpdates = 0, vs_Findings = [],
               vs_ScannedAt = sh_now h, vs_Note = []\<rparr>
      in case osID (sh_os_release h) of (i, like) \<Rightarrow>
           if contains_any i like [''debian'', ''ubuntu''] then scanDebian h (s\<lparr>vs_Distro := ''debian''\<rparr>)
           else if contains_any i like [''rhel'', ''centos'', ''fedora'', ''rocky'', ''almalinux''] then
             scanRHEL h (s\<lparr>vs_Distro := ''rhel''\<rparr>)
           else if contains_any i like [''arch''] then scanArch h (s\<lparr>vs_Distro := ''arch''\<rparr>)
           else s\<lparr>vs_Distro := i, vs_Note := ''no vulnerability scanner for this distro''\<rparr>)"

section \<open>CVSS\<close>

definition bucket :: "rat \<Rightarrow> string" where
  "bucket score =
     (if 9 \<le> score then ''critical'' else if 7 \<le> score then ''high'' else if 4 \<le> score then ''medium''
      else if 0 < score then ''low'' else [])"

definition vector_part :: "string \<Rightarrow> (string \<rightharpoonup> string) \<Rightarrow> (string \<rightharpoonup> string)" where
  "vector_part p m = (case split2 (CHR '':'') p of [k, v] \<Rightarrow> m(k \<mapsto> v) | _ \<Rightarrow> m)"

definition parseVector :: "string \<Rightarrow> (string \<rightharpoonup> string)" where
  "parseVector v = fold vector_part (split_on (CHR ''/'') v) Map.empty"

text \<open>A lookup in a literal map of numbers under the metric's value; a missing metric is the empty string
  and a missing entry is 0.\<close>

definition metric :: "(string \<rightharpoonup> string) \<Rightarrow> string \<Rightarrow> (string \<times> rat) list \<Rightarrow> rat" where
  "metric m k tab =
     (case map_of tab (case m k of None \<Rightarrow> [] | Some v \<Rightarrow> v) of None \<Rightarrow> 0 | Some x \<Rightarrow> x)"

definition roundup :: "rat \<Rightarrow> rat" where
  "roundup x = of_int \<lceil>x * 10\<rceil> / 10"

definition v3_iss :: "(string \<rightharpoonup> string) \<Rightarrow> rat" where
  "v3_iss m =
     (let cia = [(''H'', 56/100), (''L'', 22/100), (''N'', 0)]
      in 1 - (1 - metric m ''C'' cia) * (1 - metric m ''I'' cia) * (1 - metric m ''A'' cia))"

definition v3_expl :: "(string \<rightharpoonup> string) \<Rightarrow> bool \<Rightarrow> rat" where
  "v3_expl m changed =
     (let av = metric m ''AV'' [(''N'', 85/100), (''A'', 62/100), (''L'', 55/100), (''P'', 2/10)];
          ac = metric m ''AC'' [(''L'', 77/100), (''H'', 44/100)];
          ui = metric m ''UI'' [(''N'', 85/100), (''R'', 62/100)];
          pr = metric m ''PR'' (if changed then [(''N'', 85/100), (''L'', 68/100), (''H'', 5/10)]
                                else [(''N'', 85/100), (''L'', 62/100), (''H'', 27/100)])
      in 822/100 * av * ac * pr * ui)"

definition cvssV3Score :: "string \<Rightarrow> rat" where
  "cvssV3Score vec =
     (let m = parseVector vec;
          changed = (m ''S'' = Some ''C'');
          iss = v3_iss m;
          impact = (if changed then 752/100 * (iss - 29/1000) - 325/100 * (iss - 2/100) ^ 15 else 642/100 * iss);
          expl = v3_expl m changed
      in if impact \<le> 0 then 0
         else if changed then roundup (min (108/100 * (impact + expl)) 10)
         else roundup (min (impact + expl) 10))"

text \<open>\<^verbatim>\<open>math.Round\<close>: half away from zero.\<close>

definition round_half :: "rat \<Rightarrow> rat" where
  "round_half x = (if x < 0 then - of_int \<lfloor>- x + 1/2\<rfloor> else of_int \<lfloor>x + 1/2\<rfloor>)"

definition cvssV2Score :: "string \<Rightarrow> rat" where
  "cvssV2Score vec =
     (let m = parseVector vec;
          av = metric m ''AV'' [(''L'', 395/1000), (''A'', 646/1000), (''N'', 1)];
          ac = metric m ''AC'' [(''H'', 35/100), (''M'', 61/100), (''L'', 71/100)];
          au = metric m ''Au'' [(''M'', 45/100), (''S'', 56/100), (''N'', 704/1000)];
          cia = [(''N'', 0), (''P'', 275/1000), (''C'', 660/1000)];
          impact = 1041/100 * (1 - (1 - metric m ''C'' cia) * (1 - metric m ''I'' cia) * (1 - metric m ''A'' cia));
          expl = 20 * av * ac * au;
          f = (if impact = 0 then 0 else 1176/1000);
          score = (6/10 * impact + 4/10 * expl - 15/10) * f
      in round_half (score * 10) / 10)"

text \<open>\<open>fetchSeverity\<close>: \<open>osv\<close> is the list of score vectors OSV.dev returns, \<open>None\<close> when the request, its
  status or the decoding fails.\<close>

definition vector_score :: "string \<Rightarrow> rat" where
  "vector_score v =
     (if HasPrefix v ''CVSS:3'' then cvssV3Score v
      else if Contains v ''AV:'' \<and> Contains v ''Au:'' then cvssV2Score v else 0)"

definition best_score :: "string list \<Rightarrow> rat" where
  "best_score vs = fold (\<lambda>v best. if best < vector_score v then vector_score v else best) vs 0"

definition fetchSeverity :: "(string \<Rightarrow> string list option) \<Rightarrow> string \<Rightarrow> string" where
  "fetchSeverity osv cve =
     (if \<not> HasPrefix cve ''CVE-'' then []
      else case osv cve of None \<Rightarrow> [] | Some vs \<Rightarrow> bucket (best_score vs))"

definition Enrich :: "(string \<Rightarrow> string list option) \<Rightarrow> string list \<Rightarrow> (string \<rightharpoonup> string) \<Rightarrow> (string \<rightharpoonup> string) \<times> (string \<rightharpoonup> string)" where
  "Enrich osv ids cache =
     (let out = fold (\<lambda>i out. case cache i of Some v \<Rightarrow> out(i \<mapsto> v) | None \<Rightarrow> out) ids Map.empty;
          todo = filter (\<lambda>i. cache i = None) ids;
          results = map (fetchSeverity osv) todo
      in if todo = [] then (out, cache)
         else (fold (\<lambda>(i, r) m. m(i \<mapsto> r)) (zip todo results) out,
               fold (\<lambda>(i, r) c. c(i \<mapsto> r)) (zip todo results) cache))"

section \<open>Scores are scores\<close>

lemma metric_cases: "metric m k tab = 0 \<or> metric m k tab \<in> snd ` set tab"
  by (force simp: metric_def split: option.split dest: map_of_SomeD)

lemma metric_bounds:
  assumes "\<forall>x \<in> snd ` set tab. 0 \<le> x \<and> x \<le> b" "0 \<le> b"
  shows "0 \<le> metric m k tab" "metric m k tab \<le> b"
  using metric_cases [of m k tab] assms by auto

lemma roundup_bounds: "0 \<le> x \<Longrightarrow> 0 \<le> roundup (min x 10) \<and> roundup (min x 10) \<le> 10"
proof -
  assume "0 \<le> x"
  then have "0 \<le> \<lceil>min x 10 * 10\<rceil>" "\<lceil>min x 10 * 10\<rceil> \<le> 100"
    by (simp_all add: ceiling_le_iff less_ceiling_iff min_def zero_le_ceiling)
  then have "(0 :: rat) \<le> of_int \<lceil>min x 10 * 10\<rceil>" "(of_int \<lceil>min x 10 * 10\<rceil> :: rat) \<le> 100"
    by (simp, metis of_int_le_iff of_int_numeral)
  then show ?thesis by (simp add: roundup_def)
qed

lemma product_nonneg: "0 \<le> a \<Longrightarrow> 0 \<le> b \<Longrightarrow> 0 \<le> c \<Longrightarrow> 0 \<le> d \<Longrightarrow> 0 \<le> 822/100 * a * b * c * (d :: rat)"
  by simp

lemma v3_expl_nonneg: "0 \<le> v3_expl m c"
  unfolding v3_expl_def Let_def
  by (intro product_nonneg) (rule metric_bounds(1) [where b = 1]; simp)+

lemma cvssV3_bounds: "0 \<le> cvssV3Score v \<and> cvssV3Score v \<le> 10"
  using v3_expl_nonneg [of "parseVector v"] unfolding cvssV3Score_def Let_def
  by (auto intro!: roundup_bounds [THEN conjunct1] roundup_bounds [THEN conjunct2] simp: not_le add_pos_nonneg less_imp_le)

lemma round_half_bounds: "0 \<le> x \<Longrightarrow> x \<le> 100 \<Longrightarrow> 0 \<le> round_half x \<and> round_half x \<le> 100"
proof -
  assume x: "0 \<le> x" "x \<le> 100"
  then have "0 \<le> \<lfloor>x + 1/2\<rfloor>" by (simp add: zero_le_floor)
  moreover have "\<lfloor>x + 1/2\<rfloor> < 101" using x by (simp add: floor_less_iff)
  then have "\<lfloor>x + 1/2\<rfloor> \<le> 100" by simp
  ultimately have "(0 :: rat) \<le> of_int \<lfloor>x + 1/2\<rfloor>" "(of_int \<lfloor>x + 1/2\<rfloor> :: rat) \<le> 100"
    by (simp, metis of_int_le_iff of_int_numeral)
  with x show ?thesis by (simp add: round_half_def)
qed

definition v2_impact :: "rat \<Rightarrow> rat \<Rightarrow> rat \<Rightarrow> rat" where
  "v2_impact c i a = 1041/100 * (1 - (1 - c) * (1 - i) * (1 - a))"

lemma v2_impact_range:
  assumes "c \<in> {0, 275/1000, 660/1000}" "i \<in> {0, 275/1000, 660/1000}" "a \<in> {0, 275/1000, 660/1000}"
  shows "v2_impact c i a = 0 \<or> 286/100 \<le> v2_impact c i a \<and> v2_impact c i a \<le> 10001/1000"
  using assms unfolding v2_impact_def by (elim insertE emptyE; hypsubst; simp)

lemma v2_score_range:
  fixes im ex :: rat
  assumes "im = 0 \<or> 286/100 \<le> im \<and> im \<le> 10001/1000" "0 \<le> ex" "ex \<le> 9997/1000"
  shows "0 \<le> (6/10 * im + 4/10 * ex - 15/10) * (if im = 0 then 0 else 1176/1000) * 10"
    "(6/10 * im + 4/10 * ex - 15/10) * (if im = 0 then 0 else 1176/1000) * 10 \<le> 100"
  using assms by auto

lemma cvssV2_bounds: "0 \<le> cvssV2Score v \<and> cvssV2Score v \<le> 10"
proof -
  let ?m = "parseVector v" and ?cia = "[(''N'', 0), (''P'', 275/1000), (''C'', 660/1000)] :: (string \<times> rat) list"
  let ?av = "metric ?m ''AV'' [(''L'', 395/1000), (''A'', 646/1000), (''N'', 1)]"
  let ?ac = "metric ?m ''AC'' [(''H'', 35/100), (''M'', 61/100), (''L'', 71/100)]"
  let ?au = "metric ?m ''Au'' [(''M'', 45/100), (''S'', 56/100), (''N'', 704/1000)]"
  let ?im = "v2_impact (metric ?m ''C'' ?cia) (metric ?m ''I'' ?cia) (metric ?m ''A'' ?cia)"
  let ?ex = "20 * ?av * ?ac * ?au"
  have cia: "metric ?m k ?cia \<in> {0, 275/1000, 660/1000}" for k using metric_cases [of ?m k ?cia] by auto
  have im: "?im = 0 \<or> 286/100 \<le> ?im \<and> ?im \<le> 10001/1000" using v2_impact_range [OF cia cia cia] .
  have b: "0 \<le> ?av" "?av \<le> 1" "0 \<le> ?ac" "?ac \<le> 71/100" "0 \<le> ?au" "?au \<le> 704/1000"
    by ((rule metric_bounds(1) [where b = 1] | rule metric_bounds(2)); simp)+
  have "?av * ?ac \<le> 1 * (71/100)" using b by (intro mult_mono) auto
  then have "?av * ?ac * ?au \<le> 1 * (71/100) * (704/1000)" using b by (intro mult_mono) auto
  moreover have "0 \<le> ?av * ?ac * ?au" using b by simp
  ultimately have ex: "0 \<le> ?ex" "?ex \<le> 9997/1000" by (simp_all add: mult.assoc)
  from round_half_bounds [OF v2_score_range [OF im ex]] show ?thesis
    unfolding cvssV2Score_def Let_def v2_impact_def by simp
qed

lemma fold_max: "fold (\<lambda>v best. if best < g v then g v else best) vs b = Max (insert b (g ` set vs))"
  for g :: "'a \<Rightarrow> rat"
proof (induction vs arbitrary: b)
  case (Cons v vs)
  have "Max (insert b (insert (g v) (g ` set vs))) = Max (insert (max b (g v)) (g ` set vs))"
    by (cases "vs = []") (simp_all add: max.assoc)
  with Cons show ?case by (simp add: max_def)
qed simp

lemma best_score_Max: "best_score vs = Max (insert 0 (vector_score ` set vs))"
  unfolding best_score_def by (rule fold_max)

lemma vector_score_bounds: "0 \<le> vector_score v \<and> vector_score v \<le> 10"
  using cvssV3_bounds [of v] cvssV2_bounds [of v] by (simp add: vector_score_def)

lemma best_score_ge: "x \<le> best_score vs \<longleftrightarrow> x \<le> 0 \<or> (\<exists>v \<in> set vs. x \<le> vector_score v)"
  by (auto simp: best_score_Max Max_ge_iff)

text \<open>A CVSS score is between 0 and 10 for every vector, well-formed or not, of either version, and the
  severity of a CVE is that of its worst vector: critical exactly when some vector scores at least 9, at least high
  when some vector scores at least 7, and so on; no vector, or none with a score, is no severity.\<close>

theorem cvss_severity:
  "0 \<le> cvssV3Score v \<and> cvssV3Score v \<le> 10 \<and> 0 \<le> cvssV2Score v \<and> cvssV2Score v \<le> 10
   \<and> (bucket (best_score vs) = ''critical'' \<longleftrightarrow> (\<exists>v. v \<in> set vs \<and> 9 \<le> vector_score v))
   \<and> (bucket (best_score vs) \<in> {''critical'', ''high''} \<longleftrightarrow> (\<exists>v. v \<in> set vs \<and> 7 \<le> vector_score v))
   \<and> (bucket (best_score vs) \<in> {''critical'', ''high'', ''medium''} \<longleftrightarrow> (\<exists>v. v \<in> set vs \<and> 4 \<le> vector_score v))
   \<and> (bucket (best_score vs) = [] \<longleftrightarrow> (\<nexists>v. v \<in> set vs \<and> vector_score v \<noteq> 0))"
proof -
  have ge: "x \<le> best_score vs \<longleftrightarrow> (\<exists>v \<in> set vs. x \<le> vector_score v)" if "0 < x" for x
    using that by (simp add: best_score_ge)
  have "0 < vector_score v \<longleftrightarrow> vector_score v \<noteq> 0" for v
    using vector_score_bounds [of v] by (metis less_le)
  then have "0 < best_score vs \<longleftrightarrow> (\<exists>v \<in> set vs. vector_score v \<noteq> 0)"
    by (simp add: best_score_Max Max_gr_iff)
  then have zero: "bucket (best_score vs) = [] \<longleftrightarrow> (\<nexists>v. v \<in> set vs \<and> vector_score v \<noteq> 0)"
    by (auto simp: bucket_def)
  have "bucket x = ''critical'' \<longleftrightarrow> 9 \<le> x" "bucket x \<in> {''critical'', ''high''} \<longleftrightarrow> 7 \<le> x"
    "bucket x \<in> {''critical'', ''high'', ''medium''} \<longleftrightarrow> 4 \<le> x" for x
    by (auto simp: bucket_def)
  note b = this [of "best_score vs"]
  show ?thesis
    unfolding b by (intro conjI zero cvssV3_bounds [THEN conjunct1] cvssV3_bounds [THEN conjunct2]
        cvssV2_bounds [THEN conjunct1] cvssV2_bounds [THEN conjunct2]; simp add: ge Bex_def)
qed

text \<open>The published score of a remotely exploitable total compromise is 9.8.\<close>

lemma cvssV3_example: "cvssV3Score ''CVSS:3.1/AV:N/AC:L/PR:N/UI:N/S:U/C:H/I:H/A:H'' = 98/10"
  by code_simp

lemma cvssV2_example: "cvssV2Score ''AV:N/AC:L/Au:N/C:P/I:P/A:P'' = 75/10"
  by code_simp

section \<open>The cache\<close>

lemma fold_upd_zip:
  "fold (\<lambda>(i, r) m. m(i \<mapsto> r)) (zip ks (map f ks)) m0 = (\<lambda>i. if i \<in> set ks then Some (f i) else m0 i)"
  by (induction ks arbitrary: m0) (auto simp: fun_eq_iff)

lemma fold_hits:
  "fold (\<lambda>i out. case cache i of Some v \<Rightarrow> out(i \<mapsto> v) | None \<Rightarrow> out) ids m0 =
     (\<lambda>i. if i \<in> set ids \<and> cache i \<noteq> None then cache i else m0 i)"
  by (induction ids arbitrary: m0) (auto simp: fun_eq_iff split: option.splits)

text \<open>Every requested id gets the cached or the fetched severity, and the answers are remembered.\<close>

lemma Enrich_eq:
  "Enrich osv ids cache =
     ((\<lambda>i. if i \<in> set ids then (case cache i of Some v \<Rightarrow> Some v | None \<Rightarrow> Some (fetchSeverity osv i)) else None),
      (\<lambda>i. if i \<in> set ids \<and> cache i = None then Some (fetchSeverity osv i) else cache i))"
proof (cases "filter (\<lambda>i. cache i = None) ids = []")
  case True
  then have "\<forall>i \<in> set ids. cache i \<noteq> None" by (simp add: filter_empty_conv)
  with True show ?thesis by (auto simp: Enrich_def fold_hits Let_def fun_eq_iff split: option.split)
next
  case False
  then show ?thesis
    unfolding Enrich_def Let_def fold_upd_zip fold_hits by (auto simp: fun_eq_iff split: option.split)
qed

text \<open>A lookup that failed is remembered as well: after an outage of OSV.dev the affected CVEs stay without a
  severity however often they are asked for.\<close>

lemma outage_is_cached:
  assumes "HasPrefix i ''CVE-''" "osv i = None" "cache i = None" "i \<in> set ids"
  shows "fst (Enrich osv' [i] (snd (Enrich osv ids cache))) i = Some []"
  using assms by (simp add: Enrich_eq fetchSeverity_def)

text \<open>The severity of a \<^verbatim>\<open>debsecan\<close> line is looked for in the whole line, the package name included.\<close>

lemma package_name_sets_severity:
  "map vf_Severity (vs_Findings (debsecan_line ''CVE-2023-1 highlight (low urgency)'' (undefined\<lparr>vs_Findings := []\<rparr>))) = [''high'']"
proof -
  have t1: "trim_left utf8_spaces ''CVE-2023-1 highlight (low urgency)'' = ''CVE-2023-1 highlight (low urgency)''" by code_simp
  have s1: "span_word ''CVE-2023-1 highlight (low urgency)'' = (''CVE-2023-1'', '' highlight (low urgency)'')" by code_simp
  have t2: "trim_left utf8_spaces '' highlight (low urgency)'' = ''highlight (low urgency)''" by code_simp
  have s2: "span_word ''highlight (low urgency)'' = (''highlight'', '' (low urgency)'')" by code_simp
  have f: "Fields ''CVE-2023-1 highlight (low urgency)'' = ''CVE-2023-1'' # ''highlight'' # Fields '' (low urgency)''"
    using Fields_step [OF t1 _ s1] Fields_step [OF t2 _ s2] by simp
  have i: "Index ''CVE-2023-1 highlight (low urgency)'' ''urgency'' = Some 26" by code_simp
  have t: "TrimSpace (take 26 ''CVE-2023-1 highlight (low urgency)'') = ''CVE-2023-1 highlight (low''" by code_simp
  have l: "ToLower ''CVE-2023-1 highlight (low'' = ''cve-2023-1 highlight (low''" by code_simp
  have "\<not> Contains ''cve-2023-1 highlight (low'' ''critical''" "Contains ''cve-2023-1 highlight (low'' ''high''" by code_simp+
  then have n: "normSeverity (take 26 ''CVE-2023-1 highlight (low urgency)'') = ''high''"
    unfolding normSeverity_def Let_def t l by simp
  show ?thesis using n by (simp add: debsecan_line_def f i HasPrefix_def)
qed

end
