(* ===== verification/Tunnel.thy ===== *)
theory Tunnel
  imports Codec
begin

text \<open>
  The reverse tunnel between gateway and agent (\<^verbatim>\<open>internal/agent/registry.go\<close>): the
  frame format, the registry of agents, one agent connection with its multiplexed
  streams, and the stream as a \<^verbatim>\<open>net.Conn\<close>.

  Connections and streams are shared between goroutines, so they live in a heap
  (\<open>net\<close>) and are referred to by address; \<^verbatim>\<open>ReadLoop\<close> is one step per message.  The
  \<^verbatim>\<open>io.Pipe\<close> inside a stream is synchronous: a write blocks its goroutine until a
  reader has taken every byte or an end is closed.  The blocked write is
  \<open>pi_pending\<close>, and the read loop that performs it is held in \<open>ac_waits\<close>.  The
  WebSocket is a parameter: whether a write succeeds is an argument, what was
  written is recorded in \<open>ac_out\<close>.
\<close>

section \<open>Frames\<close>

definition FrameOpen :: byte where "FrameOpen = 0x01"
definition FrameData :: byte where "FrameData = 0x02"
definition FrameClose :: byte where "FrameClose = 0x03"
definition FrameLog :: byte where "FrameLog = 0x04"
definition FrameTelemetry :: byte where "FrameTelemetry = 0x05"
definition FrameScan :: byte where "FrameScan = 0x06"

lemmas frame_types = FrameOpen_def FrameData_def FrameClose_def FrameLog_def FrameTelemetry_def FrameScan_def

definition frameHeaderLen :: nat where "frameHeaderLen = 1 + 16"

text \<open>A \<^verbatim>\<open>uuid.UUID\<close> is an array of 16 bytes; \<open>to_uuid\<close> is Go's \<^verbatim>\<open>copy\<close> into a zeroed one.\<close>

typedef uuid = "{b :: bytes. length b = 16}"
  morphisms uuid_bytes Abs_uuid
  by (rule exI [of _ "replicate 16 0"]) simp

setup_lifting type_definition_uuid

lift_definition to_uuid :: "bytes \<Rightarrow> uuid" is "\<lambda>b :: bytes. take 16 (b @ replicate 16 (0 :: byte))"
  by simp

instantiation uuid :: equal
begin

definition equal_uuid :: "uuid \<Rightarrow> uuid \<Rightarrow> bool" where
  "equal_uuid u v = (uuid_bytes u = uuid_bytes v)"

instance
  by standard (simp add: equal_uuid_def uuid_bytes_inject)

end

definition uuid_Nil :: uuid where "uuid_Nil = to_uuid []"

lemma length_uuid_bytes [simp]: "length (uuid_bytes u) = 16"
  using uuid_bytes [of u] by simp

lemma uuid_bytes_to_uuid [simp, code abstract]: "uuid_bytes (to_uuid b) = take 16 (b @ replicate 16 0)"
  by (rule to_uuid.rep_eq)

lemma to_uuid_bytes [simp]: "to_uuid (uuid_bytes u) = u"
  by (simp flip: uuid_bytes_inject)

definition EncodeFrame :: "byte \<Rightarrow> uuid \<Rightarrow> bytes \<Rightarrow> bytes" where
  "EncodeFrame typ streamID payload = typ # uuid_bytes streamID @ payload"

definition DecodeFrame :: "bytes \<Rightarrow> (byte \<times> uuid \<times> bytes) option" where
  "DecodeFrame b =
     (if length b < frameHeaderLen then None
      else Some (b ! 0, to_uuid (take 16 (drop 1 b)), drop frameHeaderLen b))"

definition encode_frame :: "byte \<times> uuid \<times> bytes \<Rightarrow> bytes" where
  "encode_frame f = (case f of (t, i, p) \<Rightarrow> EncodeFrame t i p)"

interpretation frames: codec "\<lambda>f. True" encode_frame DecodeFrame
  by unfold_locales (auto simp: encode_frame_def EncodeFrame_def DecodeFrame_def frameHeaderLen_def)

lemma Decode_EncodeFrame [simp]: "DecodeFrame (EncodeFrame t i p) = Some (t, i, p)"
  using frames.dec_enc [of "(t, i, p)"] by (simp add: encode_frame_def)

lemma DecodeFrame_Some: "DecodeFrame b = Some (t, i, p) \<Longrightarrow> b = EncodeFrame t i p"
  by (cases b) (auto simp: DecodeFrame_def EncodeFrame_def frameHeaderLen_def split: if_splits)

lemma DecodeFrame_None: "DecodeFrame b = None \<longleftrightarrow> length b < 17"
  by (simp add: DecodeFrame_def frameHeaderLen_def)

text \<open>The frame format is a bijection between frames and messages of at least 17
  bytes: a decoded frame is exactly the one that was encoded, re-encoding what was
  decoded gives the message back, and the only messages refused are the short ones.\<close>

theorem frame_roundtrip:
  "DecodeFrame (EncodeFrame t i p) = Some (t, i, p)
   \<and> (DecodeFrame b = Some (t, i, p) \<longleftrightarrow> b = EncodeFrame t i p)
   \<and> (DecodeFrame b = None \<longleftrightarrow> length b < 17)"
  by (auto simp: DecodeFrame_None dest: DecodeFrame_Some)

section \<open>State\<close>

record pipe =
  pi_pending :: "bytes option" \<comment> \<open>what is left of the write in progress\<close>
  pi_werr :: bool \<comment> \<open>the write end is closed\<close>
  pi_rerr :: bool \<comment> \<open>the read end is closed\<close>

definition pipe_done :: "pipe \<Rightarrow> bool" where
  "pipe_done p \<longleftrightarrow> pi_werr p \<or> pi_rerr p"

definition new_pipe :: pipe where
  "new_pipe = \<lparr>pi_pending = None, pi_werr = False, pi_rerr = False\<rparr>"

record stream =
  st_ac :: nat
  st_id :: uuid
  st_pipe :: pipe
  st_closed :: bool \<comment> \<open>\<^verbatim>\<open>closeOnce\<close> has run\<close>

record agent_conn =
  ac_ServerID :: string
  ac_ws_open :: bool
  ac_out :: "bytes list" \<comment> \<open>messages written to the WebSocket\<close>
  ac_streams :: "(uuid \<times> nat) list" \<comment> \<open>the map \<^verbatim>\<open>streams\<close>\<close>
  ac_closed :: bool
  ac_onOpen :: bool \<comment> \<open>\<^verbatim>\<open>ReadLoop\<close> was given a callback (agent side)\<close>
  ac_hooks :: bool \<comment> \<open>\<^verbatim>\<open>OnLog\<close>, \<^verbatim>\<open>OnTelemetry\<close> and \<^verbatim>\<open>OnScan\<close> are set (gateway side)\<close>
  ac_waits :: "nat option" \<comment> \<open>the stream whose pipe \<^verbatim>\<open>ReadLoop\<close> is writing to\<close>
  ac_reading :: bool \<comment> \<open>\<^verbatim>\<open>ReadLoop\<close> has not returned\<close>

record net =
  n_conns :: "nat \<Rightarrow> agent_conn option"
  n_streams :: "nat \<Rightarrow> stream option"
  n_agents :: "(string \<times> nat) list" \<comment> \<open>the map \<^verbatim>\<open>Registry.agents\<close>\<close>
  n_next :: nat

datatype callback =
    CbOpen nat | CbLog bytes | CbTelemetry bytes | CbScan bytes

definition no_net :: net where
  "no_net = \<lparr>n_conns = Map.empty, n_streams = Map.empty, n_agents = [], n_next = 0\<rparr>"

text \<open>Maps of the source as association lists without duplicate keys.\<close>

definition map_put :: "'k \<Rightarrow> 'v \<Rightarrow> ('k \<times> 'v) list \<Rightarrow> ('k \<times> 'v) list" where
  "map_put k v m = (k, v) # filter (\<lambda>e. fst e \<noteq> k) m"

definition map_del :: "'k \<Rightarrow> ('k \<times> 'v) list \<Rightarrow> ('k \<times> 'v) list" where
  "map_del k m = filter (\<lambda>e. fst e \<noteq> k) m"

lemma map_of_del [simp]: "map_of (map_del k m) a = (if a = k then None else map_of m a)"
  by (induction m) (auto simp: map_del_def)

lemma map_of_put [simp]: "map_of (map_put k v m) a = (if a = k then Some v else map_of m a)"
  using map_of_del [of k m a] by (simp add: map_put_def map_del_def)

lemma map_del_nil [simp]: "map_del k [] = []"
  by (simp add: map_del_def)

lemma set_map_del: "e \<in> set (map_del k m) \<longleftrightarrow> e \<in> set m \<and> fst e \<noteq> k"
  by (auto simp: map_del_def)

lemma set_map_put: "e \<in> set (map_put k v m) \<longleftrightarrow> e = (k, v) \<or> e \<in> set m \<and> fst e \<noteq> k"
  by (auto simp: map_put_def)

lemma distinct_map_put [simp]: "distinct (map fst m) \<Longrightarrow> distinct (map fst (map_put k v m))"
  by (auto simp: map_put_def distinct_map_filter)

lemma distinct_map_del [simp]: "distinct (map fst m) \<Longrightarrow> distinct (map fst (map_del k m))"
  by (auto simp: map_del_def distinct_map_filter)

definition upd_conn :: "nat \<Rightarrow> (agent_conn \<Rightarrow> agent_conn) \<Rightarrow> net \<Rightarrow> net" where
  "upd_conn c f n = n\<lparr>n_conns := (n_conns n)(c := map_option f (n_conns n c))\<rparr>"

definition upd_pipe :: "(pipe \<Rightarrow> pipe) \<Rightarrow> nat \<Rightarrow> net \<Rightarrow> net" where
  "upd_pipe f s n = n\<lparr>n_streams := (n_streams n)(s := map_option (st_pipe_update f) (n_streams n s))\<rparr>"

section \<open>Pipes\<close>

text \<open>\<^verbatim>\<open>io.Pipe\<close>: a write to a pipe with a closed end returns at once; closing wakes the blocked
  writer, so its remaining bytes are gone.\<close>

definition pipe_write :: "bytes \<Rightarrow> pipe \<Rightarrow> pipe" where
  "pipe_write b p = (if pipe_done p then p else p\<lparr>pi_pending := Some b\<rparr>)"

datatype read_result = RData bytes | REOF | RClosedPipe | RBlocks

definition pipe_read :: "nat \<Rightarrow> pipe \<Rightarrow> read_result \<times> pipe" where
  "pipe_read k p =
     (if pipe_done p then (if pi_rerr p then RClosedPipe else REOF, p)
      else case pi_pending p of
             None \<Rightarrow> (RBlocks, p)
           | Some b \<Rightarrow> (RData (take k b), p\<lparr>pi_pending := if drop k b = [] then None else Some (drop k b)\<rparr>))"

definition pipe_close_w :: "pipe \<Rightarrow> pipe" where
  "pipe_close_w p = p\<lparr>pi_werr := True, pi_pending := None\<rparr>"

definition pipe_close_r :: "pipe \<Rightarrow> pipe" where
  "pipe_close_r p = p\<lparr>pi_rerr := True, pi_pending := None\<rparr>"

lemmas pipe_defs = pipe_write_def pipe_read_def pipe_close_w_def pipe_close_r_def pipe_done_def

section \<open>Connections\<close>

definition NewAgentConn :: "string \<Rightarrow> bool \<Rightarrow> bool \<Rightarrow> net \<Rightarrow> nat \<times> net" where
  "NewAgentConn serverID onOpen hooks n =
     (n_next n,
      n\<lparr>n_conns := (n_conns n)(n_next n \<mapsto>
          \<lparr>ac_ServerID = serverID, ac_ws_open = True, ac_out = [], ac_streams = [], ac_closed = False,
           ac_onOpen = onOpen, ac_hooks = hooks, ac_waits = None, ac_reading = True\<rparr>),
        n_next := Suc (n_next n)\<rparr>)"

text \<open>\<open>ws_ok\<close>: the WebSocket library accepts the message; it never does after \<^verbatim>\<open>Close\<close>.\<close>

definition writeFrame :: "bool \<Rightarrow> byte \<Rightarrow> uuid \<Rightarrow> bytes \<Rightarrow> nat \<Rightarrow> net \<Rightarrow> bool \<times> net" where
  "writeFrame ws_ok typ i payload c n =
     (case n_conns n c of
        None \<Rightarrow> (False, n)
      | Some ac \<Rightarrow>
          if ac_ws_open ac \<and> ws_ok
          then (True, upd_conn c (ac_out_update (\<lambda>out. out @ [EncodeFrame typ i payload])) n)
          else (False, n))"

definition SendLog :: "bool \<Rightarrow> bytes \<Rightarrow> nat \<Rightarrow> net \<Rightarrow> bool \<times> net" where
  "SendLog ws_ok payload = writeFrame ws_ok FrameLog uuid_Nil payload"

definition SendTelemetry :: "bool \<Rightarrow> bytes \<Rightarrow> nat \<Rightarrow> net \<Rightarrow> bool \<times> net" where
  "SendTelemetry ws_ok payload = writeFrame ws_ok FrameTelemetry uuid_Nil payload"

definition SendScan :: "bool \<Rightarrow> bytes \<Rightarrow> nat \<Rightarrow> net \<Rightarrow> bool \<times> net" where
  "SendScan ws_ok payload = writeFrame ws_ok FrameScan uuid_Nil payload"

definition newStream :: "nat \<Rightarrow> uuid \<Rightarrow> net \<Rightarrow> nat \<times> net" where
  "newStream c i n =
     (n_next n,
      n\<lparr>n_streams := (n_streams n)(n_next n \<mapsto> \<lparr>st_ac = c, st_id = i, st_pipe = new_pipe, st_closed = False\<rparr>),
        n_next := Suc (n_next n)\<rparr>)"

definition removeStream :: "uuid \<Rightarrow> nat \<Rightarrow> net \<Rightarrow> net" where
  "removeStream i c = upd_conn c (ac_streams_update (map_del i))"

definition put_stream :: "uuid \<Rightarrow> nat \<Rightarrow> nat \<Rightarrow> net \<Rightarrow> net" where
  "put_stream i s c = upd_conn c (ac_streams_update (map_put i s))"

text \<open>\<open>rand\<close>: the random id, \<open>None\<close> when the system's randomness fails.\<close>

definition openStream :: "uuid option \<Rightarrow> bool \<Rightarrow> nat \<Rightarrow> net \<Rightarrow> nat option \<times> net" where
  "openStream rand ws_ok c n =
     (case rand of
        None \<Rightarrow> (None, n)
      | Some i \<Rightarrow>
          (case newStream c i n of (s, n1) \<Rightarrow>
             (case n_conns n1 c of
                None \<Rightarrow> (None, n1)
              | Some ac \<Rightarrow>
                  if ac_closed ac then (None, n1)
                  else let n2 = put_stream i s c n1
                       in case writeFrame ws_ok FrameOpen i [] c n2 of
                            (False, n3) \<Rightarrow> (None, removeStream i c n3)
                          | (True, n3) \<Rightarrow> (Some s, n3))))"

definition deliver :: "bytes \<Rightarrow> nat \<Rightarrow> net \<Rightarrow> net" where
  "deliver b = upd_pipe (pipe_write b)"

definition closeRemote :: "nat \<Rightarrow> net \<Rightarrow> net" where
  "closeRemote = upd_pipe pipe_close_w"

definition conn_Close :: "nat \<Rightarrow> net \<Rightarrow> net" where
  "conn_Close c n =
     (case n_conns n c of
        None \<Rightarrow> n
      | Some ac \<Rightarrow>
          if ac_closed ac then n
          else let n1 = upd_conn c (\<lambda>ac. ac\<lparr>ac_closed := True, ac_streams := []\<rparr>) n;
                   n2 = fold closeRemote (map snd (ac_streams ac)) n1
               in upd_conn c (ac_ws_open_update (\<lambda>_. False)) n2)"

text \<open>One turn of \<^verbatim>\<open>ReadLoop\<close>: what \<^verbatim>\<open>ReadMessage\<close> returns, and what the turn does.\<close>

datatype ws_message = WsBinary bytes | WsOther | WsErr

definition dispatch :: "byte \<Rightarrow> uuid \<Rightarrow> bytes \<Rightarrow> nat \<Rightarrow> agent_conn \<Rightarrow> net \<Rightarrow> callback list \<times> net" where
  "dispatch typ i payload c ac n =
     (if typ = FrameOpen then
        (if \<not> ac_onOpen ac then ([], n)
         else case newStream c i n of (s, n1) \<Rightarrow> ([CbOpen s], put_stream i s c n1))
      else if typ = FrameData then
        (case map_of (ac_streams ac) i of
           None \<Rightarrow> ([], n)
         | Some s \<Rightarrow> ([], deliver payload s (upd_conn c (ac_waits_update (\<lambda>_. Some s)) n)))
      else if typ = FrameClose then
        (case map_of (ac_streams ac) i of
           None \<Rightarrow> ([], removeStream i c n)
         | Some s \<Rightarrow> ([], closeRemote s (removeStream i c n)))
      else if typ = FrameLog then (if ac_hooks ac then [CbLog payload] else [], n)
      else if typ = FrameTelemetry then (if ac_hooks ac then [CbTelemetry payload] else [], n)
      else if typ = FrameScan then (if ac_hooks ac then [CbScan payload] else [], n)
      else ([], n))"

definition ReadLoop :: "ws_message \<Rightarrow> nat \<Rightarrow> net \<Rightarrow> callback list \<times> net" where
  "ReadLoop m c n =
     (case n_conns n c of
        None \<Rightarrow> ([], n)
      | Some ac \<Rightarrow>
          (case m of
             WsErr \<Rightarrow> ([], conn_Close c (upd_conn c (ac_reading_update (\<lambda>_. False)) n))
           | WsOther \<Rightarrow> ([], n)
           | WsBinary msg \<Rightarrow>
               (case DecodeFrame msg of
                  None \<Rightarrow> ([], n)
                | Some (typ, i, payload) \<Rightarrow> dispatch typ i payload c ac n)))"

section \<open>Streams\<close>

definition stream_Read :: "nat \<Rightarrow> nat \<Rightarrow> net \<Rightarrow> read_result \<times> net" where
  "stream_Read k s n =
     (case n_streams n s of
        None \<Rightarrow> (RClosedPipe, n)
      | Some st \<Rightarrow>
          (case pipe_read k (st_pipe st) of
             (r, p) \<Rightarrow> (r, upd_pipe (\<lambda>_. p) s n)))"

definition stream_Write :: "bool \<Rightarrow> bytes \<Rightarrow> nat \<Rightarrow> net \<Rightarrow> nat option \<times> net" where
  "stream_Write ws_ok p s n =
     (case n_streams n s of
        None \<Rightarrow> (None, n)
      | Some st \<Rightarrow>
          (case writeFrame ws_ok FrameData (st_id st) p (st_ac st) n of
             (False, n1) \<Rightarrow> (None, n1)
           | (True, n1) \<Rightarrow> (Some (length p), n1)))"

definition stream_Close :: "bool \<Rightarrow> nat \<Rightarrow> net \<Rightarrow> net" where
  "stream_Close ws_ok s n =
     (case n_streams n s of
        None \<Rightarrow> n
      | Some st \<Rightarrow>
          if st_closed st then n
          else let n0 = n\<lparr>n_streams := (n_streams n)(s \<mapsto> st\<lparr>st_closed := True\<rparr>)\<rparr>;
                   n1 = snd (writeFrame ws_ok FrameClose (st_id st) [] (st_ac st) n0);
                   n2 = removeStream (st_id st) (st_ac st) n1
               in upd_pipe pipe_close_r s (upd_pipe pipe_close_w s n2))"

section \<open>The registry\<close>

definition Get :: "string \<Rightarrow> net \<Rightarrow> nat option" where
  "Get serverID n = map_of (n_agents n) serverID"

definition Register :: "string \<Rightarrow> nat \<Rightarrow> net \<Rightarrow> net" where
  "Register serverID c n =
     (let n1 = (case Get serverID n of None \<Rightarrow> n | Some old \<Rightarrow> conn_Close old n)
      in n1\<lparr>n_agents := map_put serverID c (n_agents n1)\<rparr>)"

definition Unregister :: "string \<Rightarrow> nat \<Rightarrow> net \<Rightarrow> net" where
  "Unregister serverID c n =
     (if Get serverID n = Some c then n\<lparr>n_agents := map_del serverID (n_agents n)\<rparr> else n)"

definition Dial :: "uuid option \<Rightarrow> bool \<Rightarrow> string \<Rightarrow> net \<Rightarrow> nat option \<times> net" where
  "Dial rand ws_ok serverID n =
     (case Get serverID n of
        None \<Rightarrow> (None, n) \<comment> \<open>\<^verbatim>\<open>ErrAgentNotConnected\<close>\<close>
      | Some c \<Rightarrow> openStream rand ws_ok c n)"

section \<open>Runs of the tunnel\<close>

text \<open>The operations other goroutines perform, in any order; a message is received only
  when the read loop of its connection is not blocked in a pipe.\<close>

datatype tun_op =
    Recv ws_message nat
  | SRead nat nat
  | SWrite bool bytes nat
  | SClose bool nat
  | SSend bool byte bytes nat \<comment> \<open>\<open>SendLog\<close>, \<open>SendTelemetry\<close>, \<open>SendScan\<close>\<close>
  | ODial "uuid option" bool string
  | OConnect string bool bool
  | ORegister string nat
  | OUnregister string nat
  | OClose nat

fun tun_step :: "tun_op \<Rightarrow> net \<Rightarrow> net" where
  "tun_step (Recv m c) n = snd (ReadLoop m c n)"
| "tun_step (SRead k s) n = snd (stream_Read k s n)"
| "tun_step (SWrite ok p s) n = snd (stream_Write ok p s n)"
| "tun_step (SClose ok s) n = stream_Close ok s n"
| "tun_step (SSend ok t p c) n = snd (writeFrame ok t uuid_Nil p c n)"
| "tun_step (ODial rand ok sid) n = snd (Dial rand ok sid n)"
| "tun_step (OConnect sid onOpen hooks) n = snd (NewAgentConn sid onOpen hooks n)"
| "tun_step (ORegister sid c) n = Register sid c n"
| "tun_step (OUnregister sid c) n = Unregister sid c n"
| "tun_step (OClose c) n = conn_Close c n"

definition pipe_at :: "nat \<Rightarrow> net \<Rightarrow> pipe" where
  "pipe_at s n = (case n_streams n s of None \<Rightarrow> new_pipe | Some st \<Rightarrow> st_pipe st)"

definition streams_of :: "nat \<Rightarrow> net \<Rightarrow> (uuid \<times> nat) list" where
  "streams_of c n = (case n_conns n c of None \<Rightarrow> [] | Some ac \<Rightarrow> ac_streams ac)"

definition ready :: "nat \<Rightarrow> net \<Rightarrow> bool" where
  "ready c n =
     (case n_conns n c of
        None \<Rightarrow> False
      | Some ac \<Rightarrow> ac_reading ac \<and>
          (case ac_waits ac of None \<Rightarrow> True | Some s \<Rightarrow> pi_pending (pipe_at s n) = None))"

text \<open>What the tunnel's correctness depends on, observed of a state: the stream's connection and
  id, and the stream a read loop is blocked on.\<close>

definition owner :: "nat \<Rightarrow> net \<Rightarrow> (nat \<times> uuid) option" where
  "owner s n = map_option (\<lambda>st. (st_ac st, st_id st)) (n_streams n s)"

text \<open>Stream ids are random UUIDs: no id is drawn, or opened by the gateway, twice on one connection.\<close>

definition fresh_id :: "nat \<Rightarrow> uuid \<Rightarrow> net \<Rightarrow> bool" where
  "fresh_id c i n = list_all (\<lambda>s. owner s n \<noteq> Some (c, i)) [0..<n_next n]"

fun tun_ok :: "tun_op \<Rightarrow> net \<Rightarrow> bool" where
  "tun_ok (Recv m c) n =
     (ready c n \<and>
      (case m of
         WsBinary msg \<Rightarrow>
           (case DecodeFrame msg of
              Some (t, i, p) \<Rightarrow> t = FrameOpen \<longrightarrow> fresh_id c i n
            | None \<Rightarrow> True)
       | _ \<Rightarrow> True))"
| "tun_ok (ODial (Some i) ok sid) n =
     (case Get sid n of None \<Rightarrow> True | Some c \<Rightarrow> fresh_id c i n)"
| "tun_ok _ n = True"

definition waits_of :: "nat \<Rightarrow> net \<Rightarrow> nat option" where
  "waits_of c n = (case n_conns n c of None \<Rightarrow> None | Some ac \<Rightarrow> ac_waits ac)"

definition has_conn :: "nat \<Rightarrow> net \<Rightarrow> bool" where
  "has_conn c n \<longleftrightarrow> n_conns n c \<noteq> None"

definition net_wf :: "net \<Rightarrow> bool" where
  "net_wf n \<longleftrightarrow>
     (\<forall>c. distinct (map fst (streams_of c n)))
     \<and> (\<forall>c i s. map_of (streams_of c n) i = Some s \<longrightarrow> owner s n = Some (c, i))
     \<and> (\<forall>c. has_conn c n \<longrightarrow> c < n_next n)
     \<and> (\<forall>s. owner s n \<noteq> None \<longrightarrow> s < n_next n)
     \<and> (\<forall>s s' k. owner s n = Some k \<longrightarrow> owner s' n = Some k \<longrightarrow> s = s')
     \<and> (\<forall>s. pi_pending (pipe_at s n) \<noteq> None \<longrightarrow> (\<exists>c i. owner s n = Some (c, i) \<and> waits_of c n = Some s))"

subsection \<open>Observing the primitive updates\<close>

named_theorems net_obs \<open>observations of the primitive updates\<close>

lemma obs_upd_conn [net_obs]:
  "(\<And>ac. ac_streams (f ac) = ac_streams ac) \<Longrightarrow> streams_of c' (upd_conn c f n) = streams_of c' n"
  "(\<And>ac. ac_waits (f ac) = ac_waits ac) \<Longrightarrow> waits_of c' (upd_conn c f n) = waits_of c' n"
  "owner s (upd_conn c f n) = owner s n"
  "pipe_at s (upd_conn c f n) = pipe_at s n"
  "n_next (upd_conn c f n) = n_next n"
  "n_agents (upd_conn c f n) = n_agents n"
  "n_conns (upd_conn c f n) c' = (if c' = c then map_option f (n_conns n c) else n_conns n c')"
  "has_conn c' (upd_conn c f n) = has_conn c' n"
  by (auto simp: has_conn_def streams_of_def waits_of_def owner_def pipe_at_def upd_conn_def split: option.splits)

lemma obs_upd_pipe [net_obs]:
  "streams_of c (upd_pipe f s n) = streams_of c n"
  "waits_of c (upd_pipe f s n) = waits_of c n"
  "owner s' (upd_pipe f s n) = owner s' n"
  "n_next (upd_pipe f s n) = n_next n"
  "n_agents (upd_pipe f s n) = n_agents n"
  "n_conns (upd_pipe f s n) = n_conns n"
  "has_conn c (upd_pipe f s n) = has_conn c n"
  "pipe_at s' (upd_pipe f s n) = (if s' = s \<and> owner s n \<noteq> None then f (pipe_at s n) else pipe_at s' n)"
  by (auto simp: has_conn_def streams_of_def waits_of_def owner_def pipe_at_def upd_pipe_def map_option_case split: option.splits)

lemma obs_streams_update [net_obs]:
  "streams_of c' (upd_conn c (ac_streams_update g) n) =
     (if c' = c \<and> has_conn c n then g (streams_of c n) else streams_of c' n)"
  by (auto simp: has_conn_def streams_of_def upd_conn_def split: option.splits)

lemma obs_waits_update [net_obs]:
  "waits_of c' (upd_conn c (ac_waits_update (\<lambda>_. w)) n) =
     (if c' = c \<and> has_conn c n then w else waits_of c' n)"
  by (auto simp: has_conn_def waits_of_def upd_conn_def split: option.splits)

lemma obs_close_update [net_obs]:
  "streams_of c' (upd_conn c (\<lambda>ac. ac\<lparr>ac_closed := True, ac_streams := []\<rparr>) n) =
     (if c' = c then [] else streams_of c' n)"
  by (auto simp: streams_of_def upd_conn_def split: option.splits)

lemma obs_agents [net_obs]:
  "streams_of c (n\<lparr>n_agents := m\<rparr>) = streams_of c n"
  "waits_of c (n\<lparr>n_agents := m\<rparr>) = waits_of c n"
  "owner s (n\<lparr>n_agents := m\<rparr>) = owner s n"
  "pipe_at s (n\<lparr>n_agents := m\<rparr>) = pipe_at s n"
  "has_conn c (n\<lparr>n_agents := m\<rparr>) = has_conn c n"
  by (simp_all add: has_conn_def streams_of_def waits_of_def owner_def pipe_at_def)

lemma obs_newStream [net_obs]:
  "streams_of c' (snd (newStream c i n)) = streams_of c' n"
  "waits_of c' (snd (newStream c i n)) = waits_of c' n"
  "owner s' (snd (newStream c i n)) = (if s' = n_next n then Some (c, i) else owner s' n)"
  "pipe_at s' (snd (newStream c i n)) = (if s' = n_next n then new_pipe else pipe_at s' n)"
  "n_next (snd (newStream c i n)) = Suc (n_next n)"
  "n_agents (snd (newStream c i n)) = n_agents n"
  "n_conns (snd (newStream c i n)) = n_conns n"
  "fst (newStream c i n) = n_next n"
  "has_conn c' (snd (newStream c i n)) = has_conn c' n"
  by (simp_all add: has_conn_def streams_of_def waits_of_def owner_def pipe_at_def newStream_def)

lemma obs_NewAgentConn [net_obs]:
  "streams_of c (snd (NewAgentConn sid cb h n)) = (if c = n_next n then [] else streams_of c n)"
  "waits_of c (snd (NewAgentConn sid cb h n)) = (if c = n_next n then None else waits_of c n)"
  "owner s (snd (NewAgentConn sid cb h n)) = owner s n"
  "pipe_at s (snd (NewAgentConn sid cb h n)) = pipe_at s n"
  "n_next (snd (NewAgentConn sid cb h n)) = Suc (n_next n)"
  "has_conn c (snd (NewAgentConn sid cb h n)) \<longleftrightarrow> c = n_next n \<or> has_conn c n"
  by (simp_all add: has_conn_def streams_of_def waits_of_def owner_def pipe_at_def NewAgentConn_def)

lemma obs_writeFrame [net_obs]:
  "streams_of c' (snd (writeFrame ok t i p c n)) = streams_of c' n"
  "waits_of c' (snd (writeFrame ok t i p c n)) = waits_of c' n"
  "owner s (snd (writeFrame ok t i p c n)) = owner s n"
  "pipe_at s (snd (writeFrame ok t i p c n)) = pipe_at s n"
  "n_next (snd (writeFrame ok t i p c n)) = n_next n"
  "n_agents (snd (writeFrame ok t i p c n)) = n_agents n"
  "has_conn c' (snd (writeFrame ok t i p c n)) = has_conn c' n"
  by (auto simp: writeFrame_def net_obs split: option.split)

lemma obs_closeRemotes [net_obs]:
  "streams_of c (fold closeRemote ss n) = streams_of c n"
  "waits_of c (fold closeRemote ss n) = waits_of c n"
  "owner s (fold closeRemote ss n) = owner s n"
  "n_next (fold closeRemote ss n) = n_next n"
  "n_agents (fold closeRemote ss n) = n_agents n"
  "n_conns (fold closeRemote ss n) = n_conns n"
  "has_conn c (fold closeRemote ss n) = has_conn c n"
  "pipe_at s (fold closeRemote ss n) =
     (if s \<in> set ss \<and> owner s n \<noteq> None then pipe_close_w (pipe_at s n) else pipe_at s n)"
  by (induction ss arbitrary: n) (auto simp: closeRemote_def net_obs pipe_close_w_def)

lemma obs_once [net_obs]:
  assumes "n_streams n s = Some st"
  shows "streams_of c (n\<lparr>n_streams := (n_streams n)(s \<mapsto> st\<lparr>st_closed := True\<rparr>)\<rparr>) = streams_of c n"
    "waits_of c (n\<lparr>n_streams := (n_streams n)(s \<mapsto> st\<lparr>st_closed := True\<rparr>)\<rparr>) = waits_of c n"
    "owner s' (n\<lparr>n_streams := (n_streams n)(s \<mapsto> st\<lparr>st_closed := True\<rparr>)\<rparr>) = owner s' n"
    "pipe_at s' (n\<lparr>n_streams := (n_streams n)(s \<mapsto> st\<lparr>st_closed := True\<rparr>)\<rparr>) = pipe_at s' n"
    "has_conn c (n\<lparr>n_streams := (n_streams n)(s \<mapsto> st\<lparr>st_closed := True\<rparr>)\<rparr>) = has_conn c n"
  using assms by (auto simp: has_conn_def streams_of_def waits_of_def owner_def pipe_at_def)

subsection \<open>Well-formedness is kept\<close>

lemmas op_defs = openStream_def dispatch_def ReadLoop_def stream_Read_def stream_Write_def stream_Close_def
  Register_def Unregister_def Dial_def conn_Close_def deliver_def closeRemote_def removeStream_def put_stream_def

lemma obs_conn_Close [net_obs]:
  "streams_of c' (conn_Close c n) = (if c' = c \<and> \<not> (\<exists>ac. n_conns n c = Some ac \<and> ac_closed ac) then [] else streams_of c' n)"
  "waits_of c' (conn_Close c n) = waits_of c' n"
  "owner s (conn_Close c n) = owner s n"
  "n_next (conn_Close c n) = n_next n"
  "n_agents (conn_Close c n) = n_agents n"
  "has_conn c' (conn_Close c n) = has_conn c' n"
  "pipe_at s (conn_Close c n) =
     (if (\<exists>ac. n_conns n c = Some ac \<and> \<not> ac_closed ac) \<and> s \<in> snd ` set (streams_of c n) \<and> owner s n \<noteq> None
      then pipe_close_w (pipe_at s n) else pipe_at s n)"
  by (auto simp: conn_Close_def net_obs Let_def streams_of_def [of c n] split: option.split)

lemma snd_stream_Write:
  "snd (stream_Write ok p s n) =
     (case n_streams n s of None \<Rightarrow> n | Some st \<Rightarrow> snd (writeFrame ok FrameData (st_id st) p (st_ac st) n))"
  by (auto simp: stream_Write_def split: option.split prod.split bool.split)

lemma snd_openStream:
  "snd (openStream rand ok c n) =
     (case rand of
        None \<Rightarrow> n
      | Some i \<Rightarrow>
          let n1 = snd (newStream c i n); n3 = snd (writeFrame ok FrameOpen i [] c (put_stream i (n_next n) c n1))
          in if \<not> has_conn c n \<or> (\<exists>ac. n_conns n c = Some ac \<and> ac_closed ac) then n1
             else if fst (writeFrame ok FrameOpen i [] c (put_stream i (n_next n) c n1)) then n3 else removeStream i c n3)"
  by (auto simp: openStream_def newStream_def has_conn_def Let_def split: option.splits prod.splits bool.splits)

lemma snd_stream_Read: "snd (stream_Read k s n) = upd_pipe (\<lambda>p. snd (pipe_read k p)) s n"
proof (cases "n_streams n s")
  case (Some st)
  then show ?thesis
    by (cases st) (auto simp: stream_Read_def upd_pipe_def split: prod.split)
qed (simp add: stream_Read_def upd_pipe_def fun_upd_idem)

lemma pipe_read_pending: "pi_pending (snd (pipe_read k p)) \<noteq> None \<Longrightarrow> pi_pending p \<noteq> None"
  by (auto simp: pipe_read_def split: option.splits if_splits)

lemma net_wf_upd_pipe:
  "net_wf n \<Longrightarrow> (\<And>p. pi_pending (f p) \<noteq> None \<Longrightarrow> pi_pending p \<noteq> None) \<Longrightarrow> net_wf (upd_pipe f s n)"
  by (auto simp: net_wf_def net_obs)

lemma fresh_id_owner: "net_wf n \<Longrightarrow> fresh_id c i n \<Longrightarrow> owner s n \<noteq> Some (c, i)"
  unfolding net_wf_def fresh_id_def list_all_iff by (metis atLeastLessThan_iff le0 option.distinct(1) set_upt)

lemma net_wf_newStream: "net_wf n \<Longrightarrow> fresh_id c i n \<Longrightarrow> net_wf (snd (newStream c i n))"
  using fresh_id_owner [of n c i] unfolding net_wf_def
  by (auto simp: net_obs new_pipe_def less_Suc_eq split: if_splits) (metis less_irrefl)+

lemma waits_has_conn: "waits_of c n = Some s \<Longrightarrow> has_conn c n"
  by (auto simp: waits_of_def has_conn_def split: option.splits)

lemma net_wf_NewAgentConn: "net_wf n \<Longrightarrow> net_wf (snd (NewAgentConn sid a b n))"
  unfolding net_wf_def by (auto simp: net_obs less_Suc_eq) (metis waits_has_conn less_irrefl)

lemma net_wf_put_stream: "net_wf n \<Longrightarrow> owner s n = Some (c, i) \<Longrightarrow> net_wf (put_stream i s c n)"
  by (auto simp: net_wf_def net_obs put_stream_def set_map_put)

lemma net_wf_removeStream: "net_wf n \<Longrightarrow> net_wf (removeStream i c n)"
  by (auto simp: net_wf_def net_obs removeStream_def set_map_del)

lemma net_wf_writeFrame: "net_wf n \<Longrightarrow> net_wf (snd (writeFrame ok t i p c n))"
  by (simp add: net_wf_def net_obs)

lemma net_wf_conn_Close: "net_wf n \<Longrightarrow> net_wf (conn_Close c n)"
  by (auto simp: net_wf_def net_obs pipe_close_w_def)

lemma net_wf_closeRemote: "net_wf n \<Longrightarrow> net_wf (closeRemote s n)"
  unfolding closeRemote_def by (rule net_wf_upd_pipe) (simp_all add: pipe_close_w_def)

lemmas net_wf_intros = net_wf_newStream net_wf_put_stream net_wf_removeStream net_wf_writeFrame net_wf_conn_Close
  net_wf_closeRemote

lemma net_wf_openStream:
  "net_wf n \<Longrightarrow> (\<And>i. rand = Some i \<Longrightarrow> fresh_id c i n) \<Longrightarrow> net_wf (snd (openStream rand ok c n))"
  by (auto simp: snd_openStream Let_def net_obs intro!: net_wf_intros split: option.split)

lemma net_wf_deliver:
  assumes "net_wf n" "has_conn c n" "owner s n = Some (c, i)" "ready c n"
  shows "net_wf (deliver b s (upd_conn c (ac_waits_update (\<lambda>_. Some s)) n))"
proof -
  have "pi_pending (pipe_at s' n) = None" if "owner s' n = Some (c, i')" for s' i'
    using assms(1,2,4) that unfolding net_wf_def ready_def waits_of_def has_conn_def by (force split: option.splits)
  with assms show ?thesis
    unfolding net_wf_def deliver_def by (auto simp: net_obs) (metis option.distinct(1) option.inject prod.inject)+
qed

lemma net_wf_step:
  assumes "net_wf n" "tun_ok x n"
  shows "net_wf (tun_step x n)"
proof (cases x)
  case (SSend ok t p c)
  with assms show ?thesis by (simp add: net_wf_def net_obs)
next
  case (OClose c)
  with assms show ?thesis by (auto simp: net_wf_def net_obs pipe_close_w_def)
next
  case (SRead k s)
  with assms show ?thesis
    by (simp add: snd_stream_Read) (rule net_wf_upd_pipe, simp, rule pipe_read_pending)
next
  case (SWrite ok p s)
  with assms show ?thesis
    by (auto simp: snd_stream_Write net_wf_def net_obs split: option.split)
next
  case (SClose ok s)
  with assms show ?thesis
    by (auto simp: net_wf_def net_obs op_defs pipe_defs Let_def set_map_del split: option.splits)
next
  case (OUnregister sid c)
  with assms show ?thesis by (auto simp: net_wf_def net_obs op_defs)
next
  case (ORegister sid c)
  with assms show ?thesis
    by (auto simp: net_wf_def net_obs Register_def Let_def pipe_close_w_def split: option.splits)
next
  case (OConnect sid a b)
  with assms show ?thesis by (simp add: net_wf_NewAgentConn)
next
  case (ODial rand ok sid)
  with assms show ?thesis
    by (cases rand) (auto simp: Dial_def intro!: net_wf_openStream split: option.splits)
next
  case (Recv m c)
  have "net_wf (snd (dispatch t i p c ac n))"
    if "n_conns n c = Some ac" "ready c n" "t = FrameOpen \<Longrightarrow> fresh_id c i n" for t i p ac
  proof -
    have "owner s n = Some (c, i)" if "map_of (ac_streams ac) i = Some s" for s
      using assms(1) that \<open>n_conns n c = Some ac\<close> by (auto simp: net_wf_def streams_of_def split: option.splits)
    with that assms(1) show ?thesis
      by (auto simp: dispatch_def case_prod_beta net_obs has_conn_def
          intro!: net_wf_intros net_wf_deliver split: option.split)
  qed
  moreover have "net_wf (upd_conn c (ac_reading_update (\<lambda>_. False)) n)"
    using assms(1) by (simp add: net_wf_def net_obs)
  ultimately show ?thesis
    using assms Recv by (auto simp: ReadLoop_def intro!: net_wf_conn_Close split: option.split ws_message.split)
qed

interpretation tunnel: invariant_ops tun_step tun_ok net_wf
  by unfold_locales (rule net_wf_step)

section \<open>The registry is a keyed store\<close>

definition register_conn :: "string \<times> nat \<Rightarrow> net \<Rightarrow> net" where
  "register_conn e = Register (fst e) (snd e)"

definition drop_current :: "string \<Rightarrow> net \<Rightarrow> net" where
  "drop_current sid n = (case Get sid n of None \<Rightarrow> n | Some c \<Rightarrow> Unregister sid c n)"

lemma Get_Register [simp]: "Get k (Register sid c n) = (if k = sid then Some c else Get k n)"
  by (auto simp: Register_def Get_def Let_def net_obs split: option.split)

lemma Get_Unregister: "Get k (Unregister sid c n) = (if k = sid \<and> Get sid n = Some c then None else Get k n)"
  by (auto simp: Unregister_def Get_def)

interpretation registry: keyed_store fst snd register_conn Get drop_current
  by unfold_locales (auto simp: register_conn_def drop_current_def Get_Unregister split: option.split)

section \<open>Streams are independent pipes\<close>

text \<open>The specification: a stream is a pipe of its own.  \<open>stream_view\<close> reads off a tunnel operation what
  it does to one stream.\<close>

datatype pipe_op = PWrite bytes | PRead nat | PShut | PClose

fun pipe_do :: "pipe_op \<Rightarrow> pipe \<Rightarrow> pipe" where
  "pipe_do (PWrite b) p = pipe_write b p"
| "pipe_do (PRead k) p = snd (pipe_read k p)"
| "pipe_do PShut p = pipe_close_w p"
| "pipe_do PClose p = pipe_close_r (pipe_close_w p)"

definition shut_by_close :: "nat \<Rightarrow> nat \<Rightarrow> net \<Rightarrow> pipe_op option" where
  "shut_by_close s c n =
     (case n_conns n c of
        None \<Rightarrow> None
      | Some ac \<Rightarrow> if \<not> ac_closed ac \<and> s \<in> snd ` set (ac_streams ac) then Some PShut else None)"

fun stream_view :: "nat \<Rightarrow> tun_op \<Rightarrow> net \<Rightarrow> pipe_op option" where
  "stream_view s (Recv (WsBinary msg) c) n =
     (case DecodeFrame msg of
        None \<Rightarrow> None
      | Some (t, i, p) \<Rightarrow>
          if map_of (streams_of c n) i \<noteq> Some s then None
          else if t = FrameData then Some (PWrite p)
          else if t = FrameClose then Some PShut
          else None)"
| "stream_view s (Recv WsErr c) n = shut_by_close s c n"
| "stream_view s (SRead k s') n = (if s' = s then Some (PRead k) else None)"
| "stream_view s (SClose ok s') n =
     (if s' = s \<and> (case n_streams n s of None \<Rightarrow> False | Some st \<Rightarrow> \<not> st_closed st) then Some PClose else None)"
| "stream_view s (ORegister sid c) n = (case Get sid n of None \<Rightarrow> None | Some old \<Rightarrow> shut_by_close s old n)"
| "stream_view s (OClose c) n = shut_by_close s c n"
| "stream_view s _ n = None"

definition apply_view :: "pipe_op option \<Rightarrow> pipe \<Rightarrow> pipe" where
  "apply_view v p = (case v of None \<Rightarrow> p | Some x \<Rightarrow> pipe_do x p)"

lemma pipe_conn_Close: "owner s n \<noteq> None \<Longrightarrow> pipe_at s (conn_Close c n) = apply_view (shut_by_close s c n) (pipe_at s n)"
  by (auto simp: net_obs apply_view_def shut_by_close_def streams_of_def split: option.split)

lemma owner_fresh: "net_wf n \<Longrightarrow> owner s n \<noteq> None \<Longrightarrow> s \<noteq> n_next n"
  unfolding net_wf_def by (metis less_irrefl)

lemma pipe_openStream: "net_wf n \<Longrightarrow> owner s n \<noteq> None \<Longrightarrow> pipe_at s (snd (openStream rand ok c n)) = pipe_at s n"
  using owner_fresh [of n s] by (auto simp: snd_openStream net_obs put_stream_def removeStream_def Let_def split: option.split)

lemma pipe_dispatch:
  assumes "net_wf n" "owner s n \<noteq> None" "n_conns n c = Some ac"
  shows "pipe_at s (snd (dispatch t i p c ac n)) =
     apply_view (stream_view s (Recv (WsBinary (EncodeFrame t i p)) c) n) (pipe_at s n)"
proof -
  have "streams_of c n = ac_streams ac" using assms(3) by (simp add: streams_of_def)
  with assms owner_fresh [OF assms(1,2)] show ?thesis
    by (auto simp: dispatch_def case_prod_beta net_obs apply_view_def put_stream_def removeStream_def deliver_def
        closeRemote_def frame_types split: option.split)
qed

lemma tunnel_step_refines:
  assumes "net_wf n" "owner s n \<noteq> None"
  shows "pipe_at s (tun_step x n) = apply_view (stream_view s x n) (pipe_at s n)"
proof (cases x)
  case (Recv m c)
  show ?thesis
  proof (cases "n_conns n c")
    case None
    with Recv show ?thesis
      by (cases m) (auto simp: ReadLoop_def apply_view_def streams_of_def shut_by_close_def split: option.split)
  next
    case (Some ac)
    show ?thesis
    proof (cases m)
      case (WsBinary msg)
      with Some Recv assms pipe_dispatch [OF assms Some] show ?thesis
        by (auto simp: ReadLoop_def apply_view_def dest!: DecodeFrame_Some split: option.split)
    next
      case WsErr
      then show ?thesis
        using Some Recv assms
        by (auto simp: ReadLoop_def net_obs shut_by_close_def apply_view_def streams_of_def [of c n])
    qed (use Some Recv in \<open>simp add: ReadLoop_def apply_view_def\<close>)
  qed
next
  case (SClose ok s')
  with assms show ?thesis
    by (auto simp: stream_Close_def apply_view_def net_obs removeStream_def Let_def split: option.split)
next
  case (ORegister sid c)
  with assms show ?thesis
    by (auto simp: Register_def Let_def pipe_conn_Close obs_agents split: option.split) (simp add: apply_view_def)
next
  case (OClose c)
  with assms show ?thesis by (simp add: pipe_conn_Close)
qed (use assms in \<open>auto simp: snd_stream_Read snd_stream_Write net_obs apply_view_def Dial_def pipe_openStream
    Unregister_def split: option.split\<close>)

lemma owner_step:
  assumes "net_wf n" "owner s n = Some k"
  shows "owner s (tun_step x n) = Some k"
proof -
  have open_ok: "owner s (snd (openStream rand ok c n)) = Some k" for rand ok c
    using assms owner_fresh [of n s]
    by (auto simp: snd_openStream net_obs put_stream_def removeStream_def Let_def split: option.split)
  have disp: "owner s (snd (dispatch t i p c ac n)) = Some k" for t i p c ac
    using assms owner_fresh [of n s]
    by (auto simp: dispatch_def case_prod_beta net_obs put_stream_def removeStream_def deliver_def closeRemote_def
        split: option.split)
  show ?thesis
    using assms open_ok disp
    by (cases x) (auto simp: snd_stream_Read snd_stream_Write stream_Close_def Register_def Unregister_def Dial_def
        ReadLoop_def net_obs removeStream_def Let_def split: option.split ws_message.split)
qed

fun stream_views :: "nat \<Rightarrow> tun_op list \<Rightarrow> net \<Rightarrow> pipe_op list" where
  "stream_views s [] n = []"
| "stream_views s (x # xs) n =
     (case stream_view s x n of None \<Rightarrow> [] | Some v \<Rightarrow> [v]) @ stream_views s xs (tun_step x n)"

text \<open>C26: Multiplexing is invisible.  Whatever the goroutines of gateway and agent do on any of the
  connections and streams, each stream behaves as a pipe of its own that sees exactly the
  data frames, reads and closes addressed to it: a frame never reaches another stream.\<close>

theorem tunnel_refines_pipes:
  assumes "net_wf n" "owner s n = Some (c, i)" "run_ok tun_ok tun_step xs n"
  shows "pipe_at s (fold tun_step xs n) = fold pipe_do (stream_views s xs n) (pipe_at s n)
    \<and> owner s (fold tun_step xs n) = Some (c, i)"
  using assms
proof (induction xs arbitrary: n)
  case (Cons x xs)
  then have "net_wf (tun_step x n)" "owner s (tun_step x n) = Some (c, i)"
    by (auto intro: net_wf_step owner_step)
  with Cons show ?case
    by (simp add: tunnel_step_refines apply_view_def split: option.split)
qed simp

section \<open>Bytes arrive once, in order\<close>

definition pend :: "pipe \<Rightarrow> bytes" where
  "pend p = (case pi_pending p of None \<Rightarrow> [] | Some b \<Rightarrow> b)"

text \<open>The payload an operation brings for stream \<open>i\<close> of connection \<open>c\<close>, and the bytes a read of stream
  \<open>s\<close> returns.\<close>

fun payload_for :: "nat \<Rightarrow> uuid \<Rightarrow> tun_op \<Rightarrow> bytes" where
  "payload_for c i (Recv (WsBinary msg) c') =
     (case DecodeFrame msg of
        None \<Rightarrow> []
      | Some (t, j, p) \<Rightarrow> if c' = c \<and> j = i \<and> t = FrameData then p else [])"
| "payload_for c i _ = []"

fun bytes_read :: "nat \<Rightarrow> tun_op \<Rightarrow> net \<Rightarrow> bytes" where
  "bytes_read s (SRead k s') n =
     (if s' = s then (case fst (stream_Read k s n) of RData b \<Rightarrow> b | _ \<Rightarrow> []) else [])"
| "bytes_read s _ n = []"

fun all_read :: "nat \<Rightarrow> tun_op list \<Rightarrow> net \<Rightarrow> bytes" where
  "all_read s [] n = []"
| "all_read s (x # xs) n = bytes_read s x n @ all_read s xs (tun_step x n)"

definition all_sent :: "nat \<Rightarrow> uuid \<Rightarrow> tun_op list \<Rightarrow> bytes" where
  "all_sent c i xs = concat (map (payload_for c i) xs)"

definition live :: "nat \<Rightarrow> uuid \<Rightarrow> nat \<Rightarrow> net \<Rightarrow> bool" where
  "live c i s n \<longleftrightarrow> map_of (streams_of c n) i = Some s"

lemma live_owner: "net_wf n \<Longrightarrow> live c i s n \<Longrightarrow> owner s n = Some (c, i)"
  unfolding net_wf_def live_def by blast

lemma live_has_conn: "live c i s n \<Longrightarrow> has_conn c n"
  by (auto simp: live_def streams_of_def has_conn_def split: option.splits)

lemma live_closed:
  assumes "live c i s n" "c' = c \<Longrightarrow> \<exists>ac. n_conns n c = Some ac \<and> ac_closed ac"
  shows "live c i s (conn_Close c' n)"
  using assms by (auto simp: live_def net_obs)

lemma shut_live: "live c i s n \<Longrightarrow> shut_by_close s c' n = None \<Longrightarrow> live c i s (conn_Close c' n)"
  by (rule live_closed)
     (force simp: live_def shut_by_close_def streams_of_def split: option.splits if_splits dest: map_of_SomeD)+

lemma shut_by_close_cases: "shut_by_close s c n \<noteq> Some PShut \<Longrightarrow> shut_by_close s c n = None"
  by (auto simp: shut_by_close_def split: option.splits if_splits)

lemma stop_reading_obs:
  "live c i s (upd_conn c' (ac_reading_update f) n) = live c i s n"
  "shut_by_close s c (upd_conn c' (ac_reading_update f) n) = shut_by_close s c n"
  by (auto simp: live_def net_obs shut_by_close_def split: option.split)

lemma pipe_closes [simp]: "pipe_done (pipe_close_w p)" "pipe_done (pipe_close_r p)"
  by (simp_all add: pipe_defs)

lemma live_step:
  assumes wf: "net_wf n" and ok: "tun_ok x n" and live: "live c i s n"
    and open_after: "\<not> pipe_done (pipe_at s (tun_step x n))"
  shows "live c i s (tun_step x n)"
proof -
  have own: "owner s n = Some (c, i)" using live_owner [OF wf live] .
  have old: "c \<noteq> n_next n" using wf live_has_conn [OF live] unfolding net_wf_def by (metis less_irrefl)
  have no_shut: "stream_view s x n \<noteq> Some PShut" "stream_view s x n \<noteq> Some PClose"
    using open_after tunnel_step_refines [OF wf, of s x] own by (auto simp: apply_view_def)
  have opens: "live c i s (snd (openStream rand ok c' n))" if "\<And>j. rand = Some j \<Longrightarrow> fresh_id c' j n" for rand ok c'
    using that live own fresh_id_owner [OF wf, of c' i s]
    by (auto simp: live_def snd_openStream net_obs put_stream_def removeStream_def Let_def split: option.split)
  have disp: "live c i s (snd (dispatch t j p c' ac n))"
    if "n_conns n c' = Some ac" "t = FrameOpen \<Longrightarrow> fresh_id c' j n" "t = FrameClose \<Longrightarrow> (c', j) \<noteq> (c, i)" for t j p c' ac
    using that live own fresh_id_owner [OF wf, of c' i s]
    by (auto simp: live_def dispatch_def case_prod_beta net_obs put_stream_def removeStream_def deliver_def closeRemote_def
        split: option.split)
  show ?thesis
  proof (cases x)
    case (Recv m c')
    show ?thesis
    proof (cases "n_conns n c'")
      case (Some ac)
      have "(c', j) \<noteq> (c, i)" if "m = WsBinary msg" "DecodeFrame msg = Some (FrameClose, j, p)" for msg j p
        using no_shut(1) Recv that live by (auto simp: live_def frame_types)
      with Some Recv ok disp no_shut live show ?thesis
        by (auto simp: ReadLoop_def stop_reading_obs intro!: shut_live dest: shut_by_close_cases
            split: ws_message.splits option.split)
    qed (use Recv live in \<open>simp add: ReadLoop_def\<close>)
  next
    case (SClose b s')
    show ?thesis
    proof (cases "\<exists>st. n_streams n s' = Some st \<and> \<not> st_closed st")
      case True
      then obtain st where st: "n_streams n s' = Some st" "\<not> st_closed st" by blast
      then have "owner s' n = Some (st_ac st, st_id st)" by (simp add: owner_def)
      moreover have "s' \<noteq> s" using no_shut(2) SClose st by auto
      ultimately have "(st_ac st, st_id st) \<noteq> (c, i)" using wf own unfolding net_wf_def by metis
      with SClose st live show ?thesis by (auto simp: live_def stream_Close_def net_obs removeStream_def Let_def)
    qed (use SClose live in \<open>auto simp: stream_Close_def split: option.split\<close>)
  next
    case (ODial rand b sid)
    with ok live show ?thesis by (cases rand) (auto simp: Dial_def intro!: opens split: option.splits)
  next
    case (ORegister sid c')
    then show ?thesis
      using no_shut live shut_live [OF live]
      by (auto simp: Register_def Let_def live_def obs_agents dest: shut_by_close_cases split: option.splits)
  next
    case (OClose c')
    with no_shut live show ?thesis by (auto intro!: shut_live dest: shut_by_close_cases)
  qed (use live old in \<open>auto simp: live_def snd_stream_Read snd_stream_Write net_obs Unregister_def split: option.split\<close>)
qed

lemma ready_pending:
  assumes "net_wf n" "ready c n" "owner s n = Some (c, i)"
  shows "pi_pending (pipe_at s n) = None"
  using assms unfolding net_wf_def ready_def waits_of_def by (force split: option.splits)

lemma bytes_read_done: "pipe_done (pipe_at s n) \<Longrightarrow> bytes_read s x n = []"
  by (cases x) (auto simp: stream_Read_def pipe_at_def pipe_read_def split: option.split)

lemma done_do: "pipe_done p \<Longrightarrow> pipe_done (pipe_do v p)"
  by (cases v) (auto simp: pipe_write_def pipe_read_def)

lemma done_step: "net_wf n \<Longrightarrow> owner s n \<noteq> None \<Longrightarrow> pipe_done (pipe_at s n) \<Longrightarrow> pipe_done (pipe_at s (tun_step x n))"
  by (auto simp: tunnel_step_refines apply_view_def done_do split: option.split)

lemma pend_read:
  "\<not> pipe_done p \<Longrightarrow> (case fst (pipe_read k p) of RData b \<Rightarrow> b | _ \<Rightarrow> []) @ pend (snd (pipe_read k p)) = pend p
    \<and> \<not> pipe_done (snd (pipe_read k p))"
  by (auto simp: pipe_read_def pend_def pipe_done_def split: option.split)

lemma pend_write: "\<not> pipe_done p \<Longrightarrow> pend (pipe_write b p) = b \<and> \<not> pipe_done (pipe_write b p)"
  by (simp add: pipe_write_def pend_def pipe_done_def)

lemma fifo_step:
  assumes wf: "net_wf n" and ok: "tun_ok x n" and live: "live c i s n" and op: "\<not> pipe_done (pipe_at s n)"
  shows "\<not> pipe_done (pipe_at s (tun_step x n)) \<Longrightarrow>
      bytes_read s x n @ pend (pipe_at s (tun_step x n)) = pend (pipe_at s n) @ payload_for c i x"
    and "pipe_done (pipe_at s (tun_step x n)) \<Longrightarrow> bytes_read s x n = []"
proof -
  have own: "owner s n = Some (c, i)" using live_owner [OF wf live] .
  have lk: "map_of (streams_of c' n) j = Some s \<longleftrightarrow> (c', j) = (c, i)" for c' j
    using live_owner [OF wf, of c' j s] own live by (auto simp: live_def)
  note ref = tunnel_step_refines [OF wf, of s x]
  have "(\<not> pipe_done (pipe_at s (tun_step x n)) \<longrightarrow>
      bytes_read s x n @ pend (pipe_at s (tun_step x n)) = pend (pipe_at s n) @ payload_for c i x)
    \<and> (pipe_done (pipe_at s (tun_step x n)) \<longrightarrow> bytes_read s x n = [])"
  proof (cases x)
    case (Recv m c')
    have "pend (pipe_at s n) = []" if "c' = c"
      using ready_pending [OF wf _ own] Recv ok that by (simp add: pend_def)
    then show ?thesis
      using Recv ref own op lk
      by (cases m) (auto simp: apply_view_def pend_write frame_types shut_by_close_def split: option.splits)
  next
    case (SRead k s')
    obtain st where "n_streams n s = Some st" using own by (auto simp: owner_def)
    then have "fst (stream_Read k s n) = fst (pipe_read k (pipe_at s n))"
      by (simp add: stream_Read_def pipe_at_def split: prod.split)
    with SRead ref own pend_read [OF op, of k] show ?thesis by (auto simp: apply_view_def)
  qed (use ref own in \<open>auto simp: apply_view_def pend_def shut_by_close_def split: option.splits if_splits\<close>)
  then show "\<not> pipe_done (pipe_at s (tun_step x n)) \<Longrightarrow>
      bytes_read s x n @ pend (pipe_at s (tun_step x n)) = pend (pipe_at s n) @ payload_for c i x"
    and "pipe_done (pipe_at s (tun_step x n)) \<Longrightarrow> bytes_read s x n = []"
    by blast+
qed

lemma all_read_done: "net_wf n \<Longrightarrow> owner s n \<noteq> None \<Longrightarrow> run_ok tun_ok tun_step xs n \<Longrightarrow> pipe_done (pipe_at s n) \<Longrightarrow>
   all_read s xs n = [] \<and> pipe_done (pipe_at s (fold tun_step xs n))"
proof (induction xs arbitrary: n)
  case (Cons x xs)
  then show ?case
    using net_wf_step [of n x] done_step [of n s x] owner_step [of n s _ x] by (auto simp: bytes_read_done)
qed simp

lemma fifo_run:
  assumes "net_wf n" "live c i s n" "\<not> pipe_done (pipe_at s n)" "run_ok tun_ok tun_step xs n"
  shows "prefix (all_read s xs n) (pend (pipe_at s n) @ all_sent c i xs)
    \<and> (\<not> pipe_done (pipe_at s (fold tun_step xs n)) \<longrightarrow>
         all_read s xs n @ pend (pipe_at s (fold tun_step xs n)) = pend (pipe_at s n) @ all_sent c i xs)"
  using assms
proof (induction xs arbitrary: n)
  case (Cons x xs)
  let ?n = "tun_step x n"
  have own: "owner s n = Some (c, i)" and wf: "net_wf ?n" and own': "owner s ?n = Some (c, i)"
    using Cons.prems live_owner by (auto intro: net_wf_step owner_step)
  show ?case
  proof (cases "pipe_done (pipe_at s ?n)")
    case True
    with Cons.prems fifo_step(2) [of n x c i s] all_read_done [OF wf _ _ True] own' show ?thesis by simp
  next
    case False
    have "live c i s ?n" by (rule live_step) (use Cons.prems False in simp_all)
    with Cons.IH [OF wf] Cons.prems False
    have ih: "prefix (all_read s xs ?n) (pend (pipe_at s ?n) @ all_sent c i xs)"
      "\<not> pipe_done (pipe_at s (fold tun_step xs ?n)) \<Longrightarrow>
         all_read s xs ?n @ pend (pipe_at s (fold tun_step xs ?n)) = pend (pipe_at s ?n) @ all_sent c i xs"
      by simp_all
    have eq: "bytes_read s x n @ pend (pipe_at s ?n) = pend (pipe_at s n) @ payload_for c i x"
      using fifo_step(1) [of n x c i s] Cons.prems False by simp
    have "all_sent c i (x # xs) = payload_for c i x @ all_sent c i xs" by (simp add: all_sent_def)
    with eq have "pend (pipe_at s n) @ all_sent c i (x # xs) = bytes_read s x n @ pend (pipe_at s ?n) @ all_sent c i xs"
      by (metis append.assoc)
    with ih show ?thesis by simp
  qed
qed (simp add: all_sent_def)

text \<open>C27: What is read from a stream is, in order and without loss or duplication, a prefix of the
  payloads of the data frames the peer sent for it; while the stream is open only the frame
  being delivered is missing.  This holds whatever else happens on the connection: other streams,
  malformed or unknown frames, a reader that is slower than the network, the end of the tunnel.\<close>

theorem tunnel_stream_fifo:
  assumes "net_wf n" "live c i s n" "pipe_at s n = new_pipe" "run_ok tun_ok tun_step xs n"
  shows "prefix (all_read s xs n) (all_sent c i xs)
    \<and> (\<not> pipe_done (pipe_at s (fold tun_step xs n)) \<longrightarrow>
         all_read s xs n @ pend (pipe_at s (fold tun_step xs n)) = all_sent c i xs)"
  using fifo_run [OF assms(1,2) _ assms(4)] assms(3) by (simp_all add: new_pipe_def pipe_done_def pend_def)

section \<open>Ending a connection\<close>

lemma writeFrame_closed: "n_conns n c = Some ac \<Longrightarrow> \<not> ac_ws_open ac \<Longrightarrow> writeFrame ok t i p c n = (False, n)"
  by (simp add: writeFrame_def)

lemma conn_Close_conn:
  "n_conns n c = Some ac \<Longrightarrow> \<not> ac_closed ac \<Longrightarrow>
   n_conns (conn_Close c n) c = Some (ac\<lparr>ac_closed := True, ac_streams := [], ac_ws_open := False\<rparr>)"
  by (simp add: conn_Close_def net_obs Let_def)

lemma live_done:
  assumes "net_wf n" "n_conns n c = Some ac" "\<not> ac_closed ac" "live c i s n"
  shows "pipe_done (pipe_at s (conn_Close c n))"
proof -
  have "s \<in> snd ` set (streams_of c n)"
    using assms(4) by (force simp: live_def dest: map_of_SomeD)
  with assms live_owner [OF assms(1,4)] show ?thesis
    by (auto simp: net_obs)
qed

lemma read_done: "pipe_done (pipe_at s n) \<Longrightarrow> fst (stream_Read k s n) \<in> {REOF, RClosedPipe}"
  by (auto simp: stream_Read_def pipe_at_def pipe_read_def split: option.split)

text \<open>C28: An agent that reconnects replaces its old connection.  Every reader blocked on a stream of the
  old connection is released with an end-of-file or closed-pipe result, nothing can be written to or opened
  on the old connection any more, the registry answers with the new connection, also after the
  handler of the old one has unregistered itself, and no other server or stream is affected.\<close>

theorem reconnect_replaces:
  assumes "net_wf n" "Get sid n = Some c" "n_conns n c = Some ac" "\<not> ac_closed ac" "c' \<noteq> c"
  shows "Get sid (Unregister sid c (Register sid c' n)) = Some c'
    \<and> (\<forall>sid'. sid' \<noteq> sid \<longrightarrow> Get sid' (Register sid c' n) = Get sid' n)
    \<and> (\<forall>i s k. live c i s n \<longrightarrow> fst (stream_Read k s (Register sid c' n)) \<in> {REOF, RClosedPipe})
    \<and> (\<forall>s. owner s n \<noteq> None \<longrightarrow> (\<forall>i. \<not> live c i s n) \<longrightarrow> pipe_at s (Register sid c' n) = pipe_at s n)
    \<and> (\<forall>rand ok t i p. fst (openStream rand ok c (Register sid c' n)) = None
         \<and> \<not> fst (writeFrame ok t i p c (Register sid c' n)))"
proof (intro conjI allI impI)
  let ?n = "Register sid c' n"
  have R: "?n = (conn_Close c n)\<lparr>n_agents := map_put sid c' (n_agents (conn_Close c n))\<rparr>"
    using assms(2) by (simp add: Register_def Let_def)
  have conn: "n_conns ?n c = Some (ac\<lparr>ac_closed := True, ac_streams := [], ac_ws_open := False\<rparr>)"
    using conn_Close_conn [OF assms(3,4)] by (simp add: R)
  show "Get sid (Unregister sid c ?n) = Some c'" using assms(5) by (simp add: Get_Unregister)
  show "Get sid' ?n = Get sid' n" if "sid' \<noteq> sid" for sid' using that by simp
  show "fst (stream_Read k s ?n) \<in> {REOF, RClosedPipe}" if "live c i s n" for i s k
    using live_done [OF assms(1,3,4) that] by (intro read_done) (simp add: R obs_agents)
  show "pipe_at s ?n = pipe_at s n" if "owner s n \<noteq> None" "\<forall>i. \<not> live c i s n" for s
  proof -
    have "s \<notin> snd ` set (streams_of c n)"
      using that(2) assms(1) by (auto simp: live_def net_wf_def)
    then show ?thesis by (simp add: R obs_agents) (auto simp: net_obs)
  qed
  show "fst (openStream rand ok c ?n) = None" for rand ok
    using conn by (auto simp: openStream_def newStream_def split: option.split)
  show "\<not> fst (writeFrame ok t i p c ?n)" for ok t i p
    using conn by (simp add: writeFrame_closed)
qed

text \<open>One reader that stops reading holds up every other stream of its agent: until it reads or
  closes, no message of the connection is dispatched.\<close>

lemma slow_reader_blocks_connection:
  assumes "n_conns n c = Some ac" "ac_waits ac = Some s" "pi_pending (pipe_at s n) = Some b"
  shows "\<not> tun_ok (Recv m c) n"
  using assms by (simp add: ready_def)

section \<open>Examples\<close>

definition demo_id :: uuid where "demo_id = to_uuid [1]"

definition demo_net :: net where
  "demo_net = snd (Dial (Some demo_id) True ''s1'' (Register ''s1'' 0 (snd (NewAgentConn ''s1'' False True no_net))))"

definition demo_ops :: "tun_op list" where
  "demo_ops =
     [Recv (WsBinary (EncodeFrame FrameData demo_id [104, 105])) 0, SRead 1 1, SRead 8 1,
      Recv (WsBinary (EncodeFrame FrameData (to_uuid [2]) [33])) 0,
      Recv (WsBinary [1, 2, 3]) 0,
      Recv (WsBinary (EncodeFrame FrameData demo_id [33, 34])) 0, SRead 1 1]"

lemma no_net_wf: "net_wf no_net"
  by (simp add: net_wf_def no_net_def streams_of_def owner_def has_conn_def pipe_at_def new_pipe_def)

lemma demo_net_wf: "net_wf demo_net"
proof -
  have "demo_net = fold tun_step [OConnect ''s1'' False True, ORegister ''s1'' 0, ODial (Some demo_id) True ''s1''] no_net"
    by (simp add: demo_net_def)
  moreover have "run_ok tun_ok tun_step [OConnect ''s1'' False True, ORegister ''s1'' 0, ODial (Some demo_id) True ''s1''] no_net"
    by code_simp
  ultimately show ?thesis using tunnel.inv_run [OF no_net_wf] by metis
qed

lemma demo_live: "live 0 demo_id 1 demo_net"
  by code_simp

lemma demo_runs: "run_ok tun_ok tun_step demo_ops demo_net"
  by code_simp

lemma demo_owner: "owner 1 demo_net = Some (0, demo_id)"
  by code_simp

lemma demo_pipe: "pipe_at 1 demo_net = new_pipe"
  by code_simp

theorem tunnel_refines_pipes_witness:
  "pipe_at 1 (fold tun_step demo_ops demo_net) =
     fold pipe_do [PWrite [104, 105], PRead 1, PRead 8, PWrite [33, 34], PRead 1] new_pipe"
proof -
  have "stream_views 1 demo_ops demo_net = [PWrite [104, 105], PRead 1, PRead 8, PWrite [33, 34], PRead 1]"
    by code_simp
  with tunnel_refines_pipes [OF demo_net_wf demo_owner demo_runs] demo_pipe show ?thesis by simp
qed

theorem tunnel_stream_fifo_witness:
  "all_read 1 demo_ops demo_net @ pend (pipe_at 1 (fold tun_step demo_ops demo_net)) = [104, 105, 33, 34]"
proof -
  have "\<not> pipe_done (pipe_at 1 (fold tun_step demo_ops demo_net))" by code_simp
  moreover have "all_sent 0 demo_id demo_ops = [104, 105, 33, 34]" by code_simp
  ultimately show ?thesis
    using tunnel_stream_fifo [OF demo_net_wf demo_live demo_pipe demo_runs] by simp
qed

theorem reconnect_replaces_witness:
  "fst (stream_Read 8 1 (Register ''s1'' 5 demo_net)) \<in> {REOF, RClosedPipe}
   \<and> Get ''s1'' (Unregister ''s1'' 0 (Register ''s1'' 5 demo_net)) = Some 5"
proof -
  obtain ac where ac: "n_conns demo_net 0 = Some ac" "\<not> ac_closed ac"
    by (rule that [of "the (n_conns demo_net 0)"]) code_simp+
  have "Get ''s1'' demo_net = Some 0" by code_simp
  from reconnect_replaces [OF demo_net_wf this ac, of 5] demo_live show ?thesis by auto
qed

end
