(* ===== verification/AgentGateway.thy ===== *)
theory AgentGateway
  imports VulnScan Recorder Auth Tunnel
begin

text \<open>
  Serving an agent: the gateway's handler for \<^verbatim>\<open>/agent/connect\<close> (\<^verbatim>\<open>internal/agent/tunnel.go\<close>) with what it does
  to the database, and the agent's side of the connection (\<^verbatim>\<open>cmd/agent/main.go\<close>): its event queues, the goroutine that
  forwards them and the bridge to the local SSH server.  The order in which the database scans a table, the decoding of JSON
  payloads and whether the database refuses a statement are arguments.
\<close>

section \<open>State\<close>

record telemetrySample =
  tm_CPUPct :: rat
  tm_Load1 :: rat
  tm_MemTotalMB :: "64 word"
  tm_MemAvailMB :: "64 word"
  tm_DiskTotalGB :: rat
  tm_DiskFreeGB :: rat
  tm_NetRxKBs :: rat
  tm_NetTxKBs :: rat

record scanFull =
  sf_Tool :: string
  sf_Distro :: string
  sf_Upgradable :: int
  sf_SecurityUpdates :: int
  sf_Findings :: "vulnFinding list"
  sf_ScannedAt :: string
  sf_Note :: string

text \<open>A row of \<^verbatim>\<open>server_metrics\<close>.\<close>

record metric_row =
  mr_server :: string
  mr_cpu :: rat
  mr_mem_used :: rat
  mr_disk_used :: rat
  mr_rx :: rat
  mr_tx :: rat
  mr_load1 :: rat

record agent_gateway = gateway +
  ag_net :: net
  ag_metrics :: "metric_row list"
  ag_scans :: "string \<rightharpoonup> scanFull" \<comment> \<open>the column \<^verbatim>\<open>vuln_scan\<close>\<close>
  ag_cve :: "string \<rightharpoonup> string" \<comment> \<open>the cache of \<^verbatim>\<open>internal/cve\<close>\<close>

definition bytes_string :: "bytes \<Rightarrow> string" where
  "bytes_string b = map (\<lambda>x. char_of (unat x)) b"

definition upd_server :: "string \<Rightarrow> (server \<Rightarrow> server) \<Rightarrow> agent_gateway \<Rightarrow> agent_gateway" where
  "upd_server i f g = g\<lparr>t_servers := (t_servers g)(i := map_option f (t_servers g i))\<rparr>"

section \<open>The handler\<close>

definition bearer :: "http_request \<Rightarrow> string" where
  "bearer r =
     (let h = hr_Authorization r
      in if 7 < length h \<and> take 7 h = ''Bearer '' then drop 7 h else hr_token r)"

definition markOnline :: "bool \<Rightarrow> gotime \<Rightarrow> string \<Rightarrow> agent_gateway \<Rightarrow> agent_gateway" where
  "markOnline fails now i g =
     (if fails then g else upd_server i (\<lambda>s. s\<lparr>sv_Status := ''online'', sv_AgentConnectedAt := Some now\<rparr>) g)"

definition markOffline :: "bool \<Rightarrow> string \<Rightarrow> agent_gateway \<Rightarrow> agent_gateway" where
  "markOffline fails i g = (if fails then g else upd_server i (\<lambda>s. s\<lparr>sv_Status := ''offline''\<rparr>) g)"

definition touch :: "bool \<Rightarrow> gotime \<Rightarrow> string \<Rightarrow> agent_gateway \<Rightarrow> agent_gateway" where
  "touch fails now i g = (if fails then g else upd_server i (\<lambda>s. s\<lparr>sv_AgentConnectedAt := Some now\<rparr>) g)"

text \<open>The handler up to the read loop: a refusal (status and text, or nothing when the upgrade
  failed), or the connection it serves.\<close>

datatype agent_answer = Refused nat string | NoUpgrade | Serving string nat

text \<open>\<^verbatim>\<open>SELECT id FROM servers WHERE agent_token = $1\<close>: the first match in the order the rows are scanned; a row without a
  token matches nothing.  \<open>None\<close> is a query that fails.\<close>

definition agent_token_row :: "string list option \<Rightarrow> string \<Rightarrow> agent_gateway \<Rightarrow> string row_result" where
  "agent_token_row scan token g =
     (case scan of
        None \<Rightarrow> RowErr
      | Some ids \<Rightarrow>
          (case find (\<lambda>i. Option.bind (t_servers g i) sv_AgentToken = Some token) ids of
             None \<Rightarrow> NoRows
           | Some i \<Rightarrow> Row i))"

definition agent_connect ::
  "string list option \<Rightarrow> bool \<Rightarrow> bool \<Rightarrow> gotime \<Rightarrow> http_request \<Rightarrow> agent_gateway \<Rightarrow> agent_answer \<times> agent_gateway" where
  "agent_connect scan upgrade_ok db_fails now r g =
     (let token = bearer r
      in if token = [] then (Refused StatusUnauthorized ''missing agent token'', g)
         else case agent_token_row scan token g of
                NoRows \<Rightarrow> (Refused StatusUnauthorized ''unknown agent token'', g)
              | RowErr \<Rightarrow> (Refused StatusInternalServerError ''db error'', g)
              | Row serverID \<Rightarrow>
                  if \<not> upgrade_ok then (NoUpgrade, g)
                  else case NewAgentConn serverID False True (ag_net g) of (c, n) \<Rightarrow>
                         (Serving serverID c,
                          markOnline db_fails now serverID (g\<lparr>ag_net := Tunnel.Register serverID c n\<rparr>)))"

text \<open>What the three callbacks do with a payload.\<close>

definition mem_used :: "telemetrySample \<Rightarrow> rat" where
  "mem_used t =
     (if 0 < tm_MemTotalMB t
      then of_nat (unat (tm_MemTotalMB t - tm_MemAvailMB t)) / of_nat (unat (tm_MemTotalMB t)) * 100 else 0)"

definition disk_used :: "telemetrySample \<Rightarrow> rat" where
  "disk_used t =
     (if 0 < tm_DiskTotalGB t then (tm_DiskTotalGB t - tm_DiskFreeGB t) / tm_DiskTotalGB t * 100 else 0)"

record frame_env =
  fe_sha :: "string \<Rightarrow> string"
  fe_audit :: append_env
  fe_now :: gotime
  fe_update_fails :: bool
  fe_insert_fails :: bool
  fe_telemetry :: "string \<Rightarrow> telemetrySample option"
  fe_scan :: "string \<Rightarrow> scanFull option"
  fe_osv :: "string \<Rightarrow> string list option"

definition OnLog :: "frame_env \<Rightarrow> string \<Rightarrow> bytes \<Rightarrow> agent_gateway \<Rightarrow> agent_gateway" where
  "OnLog e serverID payload g =
     audit_append (fe_sha e) (fe_audit e) [] serverID [] ''host_exec'' (bytes_string payload) g"

definition OnTelemetry :: "frame_env \<Rightarrow> string \<Rightarrow> bytes \<Rightarrow> agent_gateway \<Rightarrow> agent_gateway" where
  "OnTelemetry e serverID payload g =
     (let g1 = (if fe_update_fails e then g
                else upd_server serverID
                       (\<lambda>s. s\<lparr>sv_Metrics := Some (bytes_string payload), sv_MetricsAt := Some (fe_now e)\<rparr>) g)
      in case fe_telemetry e (bytes_string payload) of
           None \<Rightarrow> g1
         | Some t \<Rightarrow>
             if fe_insert_fails e then g1
             else g1\<lparr>ag_metrics := ag_metrics g1 @
                      [\<lparr>mr_server = serverID, mr_cpu = tm_CPUPct t, mr_mem_used = mem_used t, mr_disk_used = disk_used t,
                        mr_rx = tm_NetRxKBs t, mr_tx = tm_NetTxKBs t, mr_load1 = tm_Load1 t\<rparr>]\<rparr>)"

definition enrich_finding :: "(string \<rightharpoonup> string) \<Rightarrow> vulnFinding \<Rightarrow> vulnFinding" where
  "enrich_finding sevMap f =
     (case sevMap (vf_ID f) of
        None \<Rightarrow> f
      | Some s \<Rightarrow> if s = [] then f else f\<lparr>vf_Severity := s\<rparr>)"

definition is_severe :: "vulnFinding \<Rightarrow> bool" where
  "is_severe f \<longleftrightarrow> vf_Severity f = ''critical'' \<or> vf_Severity f = ''high''"

definition scan_summary :: "nat \<Rightarrow> nat \<Rightarrow> int \<Rightarrow> string" where
  "scan_summary found crit upd =
     Itoa (int found) @ '' findings ('' @ Itoa (int crit) @ '' high/critical), '' @ Itoa upd @ '' security updates''"

definition OnScan :: "frame_env \<Rightarrow> string \<Rightarrow> bytes \<Rightarrow> agent_gateway \<Rightarrow> agent_gateway" where
  "OnScan e serverID payload g =
     (case fe_scan e (bytes_string payload) of
        None \<Rightarrow> g
      | Some s \<Rightarrow>
          (case Enrich (fe_osv e) (map vf_ID (sf_Findings s)) (ag_cve g) of (sevMap, cache) \<Rightarrow>
             let fs = map (enrich_finding sevMap) (sf_Findings s);
                 crit = length (filter is_severe fs);
                 g1 = g\<lparr>ag_cve := cache\<rparr>;
                 g2 = (if fe_update_fails e then g1
                       else upd_server serverID
                              (\<lambda>sv. sv\<lparr>sv_VulnScannedAt := Some (fe_now e), sv_VulnCount := int (length fs),
                                       sv_VulnCritical := int crit\<rparr>)
                              (if t_servers g1 serverID = None then g1
                               else g1\<lparr>ag_scans := (ag_scans g1)(serverID \<mapsto> s\<lparr>sf_Findings := fs\<rparr>)\<rparr>))
             in audit_append (fe_sha e) (fe_audit e) [] serverID [] ''vuln_scan''
                  (scan_summary (length fs) crit (sf_SecurityUpdates s)) g2))"

text \<open>\<open>ServerVulns\<close> (\<^verbatim>\<open>internal/api/metrics.go\<close>): the stored scan, or that there is none.\<close>

definition ServerVulns :: "bool \<Rightarrow> string \<Rightarrow> agent_gateway \<Rightarrow> scanFull option response" where
  "ServerVulns fails i g =
     (if fails \<or> t_servers g i = None then writeErr StatusNotFound ''not found''
      else writeJSON StatusOK (ag_scans g i))"

definition on_callback :: "frame_env \<Rightarrow> string \<Rightarrow> callback \<Rightarrow> agent_gateway \<Rightarrow> agent_gateway" where
  "on_callback e serverID cb g =
     (case cb of
        CbLog p \<Rightarrow> OnLog e serverID p g
      | CbTelemetry p \<Rightarrow> OnTelemetry e serverID p g
      | CbScan p \<Rightarrow> OnScan e serverID p g
      | CbOpen s \<Rightarrow> g)"

text \<open>One message from the agent, and the end of the handler.\<close>

definition agent_message :: "frame_env \<Rightarrow> string \<Rightarrow> nat \<Rightarrow> ws_message \<Rightarrow> agent_gateway \<Rightarrow> agent_gateway" where
  "agent_message e serverID c m g =
     (case ReadLoop m c (ag_net g) of
        (cbs, n) \<Rightarrow> fold (on_callback e serverID) cbs (g\<lparr>ag_net := n\<rparr>))"

definition agent_disconnect :: "bool \<Rightarrow> string \<Rightarrow> nat \<Rightarrow> agent_gateway \<Rightarrow> agent_gateway" where
  "agent_disconnect db_fails serverID c g =
     markOffline db_fails serverID (g\<lparr>ag_net := Tunnel.Unregister serverID c (snd (ReadLoop WsErr c (ag_net g)))\<rparr>)"

section \<open>Heartbeats\<close>

definition heartbeatTimeout :: duration where
  "heartbeatTimeout = 90 * Second"

definition heartbeatTick :: duration where
  "heartbeatTick = 30 * Second"

text \<open>
  The read deadline of the connection, set at the start and by every ping or pong.
  A ping is answered with a pong; an error of that write ends the connection unless
  it is \<^verbatim>\<open>ErrCloseSent\<close>.
\<close>

datatype control = Ping | Pong

datatype pong_write = PongSent | PongCloseSent | PongFailed

record heartbeat =
  hb_deadline :: gotime
  hb_alive :: bool

definition hb_start :: "gotime \<Rightarrow> heartbeat" where
  "hb_start now = \<lparr>hb_deadline = now + heartbeatTimeout, hb_alive = True\<rparr>"

text \<open>A control message read at \<open>now\<close>; past the deadline the read fails instead.\<close>

definition on_control ::
  "string \<Rightarrow> gotime \<times> control \<times> bool \<times> pong_write \<Rightarrow> heartbeat \<times> agent_gateway \<Rightarrow> heartbeat \<times> agent_gateway" where
  "on_control serverID = (\<lambda>(now, m, db_fails, wr) (hb, g).
     if \<not> hb_alive hb then (hb, g)
     else if hb_deadline hb \<le> now then (hb\<lparr>hb_alive := False\<rparr>, g)
     else let hb1 = hb\<lparr>hb_deadline := now + heartbeatTimeout\<rparr>;
              g1 = touch db_fails now serverID g
          in (case m of
                Pong \<Rightarrow> (hb1, g1)
              | Ping \<Rightarrow> (hb1\<lparr>hb_alive := (wr \<noteq> PongFailed)\<rparr>, g1)))"

text \<open>Any other message: it is read only before the deadline, which it does not move.\<close>

definition on_data :: "gotime \<Rightarrow> heartbeat \<Rightarrow> heartbeat" where
  "on_data now hb = (if hb_deadline hb \<le> now then hb\<lparr>hb_alive := False\<rparr> else hb)"

section \<open>The agent\<close>

text \<open>The request \<open>connectAndServe\<close> dials the gateway with.\<close>

definition agent_request :: "string \<Rightarrow> http_request" where
  "agent_request token = \<lparr>hr_method = ''GET'', hr_Authorization = ''Bearer '' @ token, hr_token = []\<rparr>"

text \<open>\<open>main\<close> refuses to start without the address of the gateway and a token.\<close>

definition agent_starts :: "(string \<Rightarrow> string) \<Rightarrow> bool" where
  "agent_starts env \<longleftrightarrow> \<not> (env ''GATEWAY_URL'' = [] \<or> env ''AGENT_TOKEN'' = [])"

record agent_queues =
  aq_exec :: "bytes chan"
  aq_telemetry :: "bytes chan"
  aq_scan :: "bytes chan"

definition new_queues :: agent_queues where
  "new_queues = \<lparr>aq_exec = make_chan 1024, aq_telemetry = make_chan 16, aq_scan = make_chan 4\<rparr>"

datatype queue = QExec | QTelemetry | QScan

fun enqueue :: "queue \<Rightarrow> bytes \<Rightarrow> agent_queues \<Rightarrow> agent_queues" where
  "enqueue QExec b q = q\<lparr>aq_exec := offer b (aq_exec q)\<rparr>"
| "enqueue QTelemetry b q = q\<lparr>aq_telemetry := offer b (aq_telemetry q)\<rparr>"
| "enqueue QScan b q = q\<lparr>aq_scan := offer b (aq_scan q)\<rparr>"

fun take_event :: "queue \<Rightarrow> agent_queues \<Rightarrow> bytes option \<times> agent_queues" where
  "take_event QExec q = (case recv_chan (aq_exec q) of (Got b, c) \<Rightarrow> (Some b, q\<lparr>aq_exec := c\<rparr>) | _ \<Rightarrow> (None, q))"
| "take_event QTelemetry q = (case recv_chan (aq_telemetry q) of (Got b, c) \<Rightarrow> (Some b, q\<lparr>aq_telemetry := c\<rparr>) | _ \<Rightarrow> (None, q))"
| "take_event QScan q = (case recv_chan (aq_scan q) of (Got b, c) \<Rightarrow> (Some b, q\<lparr>aq_scan := c\<rparr>) | _ \<Rightarrow> (None, q))"

fun send_event :: "queue \<Rightarrow> bool \<Rightarrow> bytes \<Rightarrow> nat \<Rightarrow> net \<Rightarrow> bool \<times> net" where
  "send_event QExec = SendLog"
| "send_event QTelemetry = SendTelemetry"
| "send_event QScan = SendScan"

text \<open>One turn of the forwarding goroutine: the queue the \<^verbatim>\<open>select\<close> picks; the first result is
  whether the goroutine goes on.\<close>

definition forward :: "queue \<Rightarrow> bool \<Rightarrow> nat \<Rightarrow> agent_queues \<times> net \<Rightarrow> bool \<times> agent_queues \<times> net" where
  "forward w ws_ok c qn =
     (case qn of (q, n) \<Rightarrow>
        (case take_event w q of
           (None, q') \<Rightarrow> (True, q', n)
         | (Some b, q') \<Rightarrow> (case send_event w ws_ok b c n of (ok, n') \<Rightarrow> (ok, q', n'))))"

text \<open>\<open>bridge\<close>: when the local SSH server cannot be reached the stream is closed at once; otherwise what
  the server sends is written to the stream until one direction ends, and then the stream is closed.\<close>

fun copy_out :: "(bytes \<times> bool) list \<Rightarrow> nat \<Rightarrow> net \<Rightarrow> net" where
  "copy_out [] s n = n"
| "copy_out ((b, ok) # bs) s n =
     (case stream_Write ok b s n of (None, n') \<Rightarrow> n' | (Some _, n') \<Rightarrow> copy_out bs s n')"

definition bridge :: "bool \<Rightarrow> (bytes \<times> bool) list \<Rightarrow> bool \<Rightarrow> nat \<Rightarrow> net \<Rightarrow> net" where
  "bridge dial_ok chunks ws_ok s n =
     (if \<not> dial_ok then stream_Close ws_ok s n
      else stream_Close ws_ok s (copy_out chunks s n))"

section \<open>Only an agent with the server's token is served\<close>

lemma agent_token_row_Row:
  assumes "agent_token_row scan token g = Row i"
  shows "\<exists>s. t_servers g i = Some s \<and> sv_AgentToken s = Some token"
  using assms
  by (auto simp: agent_token_row_def find_Some_iff bind_eq_Some_conv split: option.splits)

lemma agent_token_row_finds:
  assumes "i \<in> set ids" "t_servers g i = Some s" "sv_AgentToken s = Some token"
  shows "\<exists>j. agent_token_row (Some ids) token g = Row j"
  using assms by (auto simp: agent_token_row_def find_None_iff split: option.split)

lemma audit_append_frame [simp]:
  fixes g :: agent_gateway
  shows "t_servers (audit_append sha env a b c d e g) = t_servers g" "ag_net (audit_append sha env a b c d e g) = ag_net g"
    "ag_metrics (audit_append sha env a b c d e g) = ag_metrics g" "ag_scans (audit_append sha env a b c d e g) = ag_scans g"
    "ag_cve (audit_append sha env a b c d e g) = ag_cve g"
  by (simp_all add: audit_append_def split: prod.split)

text \<open>C29: A tunnel is served exactly to the holder of a server's token, under that server: whoever is served presented a token that is
  not empty and is the one stored for the server; the connection then is the one the registry answers with, the server is
  marked online, and no other server is touched.  A request that is refused changes nothing.  A holder of a stored token is
  served when the query goes through all rows and the upgrade succeeds.\<close>

theorem agent_needs_token:
  assumes "agent_connect scan upgrade_ok db_fails now r g = (a, g')"
  shows "((\<exists>i c s. a = Serving i c \<and> bearer r \<noteq> [] \<and> t_servers g i = Some s \<and> sv_AgentToken s = Some (bearer r)
            \<and> Get i (ag_net g') = Some c
            \<and> (db_fails \<or> map_option sv_Status (t_servers g' i) = Some ''online'')
            \<and> (\<forall>j. j \<noteq> i \<longrightarrow> t_servers g' j = t_servers g j \<and> Get j (ag_net g') = Get j (ag_net g)))
    \<or> (\<nexists>i c. a = Serving i c) \<and> g' = g)
    \<and> ((\<exists>ids i s. scan = Some ids \<and> i \<in> set ids \<and> t_servers g i = Some s \<and> sv_AgentToken s = Some (bearer r))
         \<and> bearer r \<noteq> [] \<and> upgrade_ok \<longrightarrow> (\<exists>i c. a = Serving i c))"
proof (cases "agent_token_row scan (bearer r) g")
  case (Row i)
  then obtain s where s: "t_servers g i = Some s" "sv_AgentToken s = Some (bearer r)" using agent_token_row_Row by blast
  have "Get j (snd (NewAgentConn i False True n)) = Get j n" for j n
    by (simp add: Get_def NewAgentConn_def)
  with Row s assms show ?thesis
    by (auto simp: agent_connect_def Let_def case_prod_beta markOnline_def upd_server_def split: if_splits)
qed (use assms agent_token_row_finds in \<open>fastforce simp: agent_connect_def Let_def split: if_splits\<close>)+

definition demo_gateway :: agent_gateway where
  "demo_gateway =
     \<lparr>t_servers = [''h1'' \<mapsto> sample_server\<lparr>sv_AgentToken := Some ''tok''\<rparr>], t_groups = [], t_members = {}, t_requests = [],
      g_audit = [], g_sink = [], g_hub = NewHub, g_notifier = None, g_rows = Map.empty, g_files = Map.empty, g_panic = False,
      ag_net = no_net, ag_metrics = [], ag_scans = Map.empty, ag_cve = Map.empty\<rparr>"

definition demo_agent_request :: http_request where
  "demo_agent_request = \<lparr>hr_method = ''GET'', hr_Authorization = ''Bearer tok'', hr_token = []\<rparr>"

theorem agent_needs_token_witness:
  "\<exists>g'. agent_connect (Some [''h1'']) True False 5 demo_agent_request demo_gateway = (Serving ''h1'' 0, g')
     \<and> Get ''h1'' (ag_net g') = Some 0 \<and> map_option sv_Status (t_servers g' ''h1'') = Some ''online''"
proof -
  let ?r = "agent_connect (Some [''h1'']) True False 5 demo_agent_request demo_gateway"
  have "fst ?r = Serving ''h1'' 0"
    by (simp add: agent_connect_def agent_token_row_def bearer_def demo_agent_request_def demo_gateway_def NewAgentConn_def no_net_def)
  then obtain g' where "?r = (Serving ''h1'' 0, g')" by (cases ?r) auto
  with agent_needs_token [OF this] show ?thesis by auto
qed

section \<open>Reports are recorded as reported\<close>

lemma log_frame_recorded:
  assumes "\<not> insert_fails (fe_audit e)"
  shows "\<exists>row. g_audit (OnLog e i p g) = g_audit g @ [row] \<and> server_id row = ns i \<and> event_type row = ''host_exec''
      \<and> data row = ns (bytes_string p)"
  using assms by (simp add: OnLog_def audit_append_def Append_def Let_def)

lemma enrich_keeps_id [simp]: "vf_ID (enrich_finding m f) = vf_ID f"
  by (simp add: enrich_finding_def split: option.split)

lemma scan_recorded:
  assumes "fe_scan e (bytes_string p) = Some s" "\<not> fe_update_fails e" "t_servers g i = Some sv"
  shows "\<exists>sv' fs. t_servers (OnScan e i p g) i = Some sv' \<and> ag_scans (OnScan e i p g) i = Some (s\<lparr>sf_Findings := fs\<rparr>)
    \<and> map vf_ID fs = map vf_ID (sf_Findings s)
    \<and> sv_VulnCount sv' = int (length fs) \<and> sv_VulnCritical sv' = int (length (filter is_severe fs))
    \<and> sv_VulnCritical sv' \<le> sv_VulnCount sv'"
  using assms by (auto simp: OnScan_def upd_server_def Let_def case_prod_beta)

lemma scan_served:
  assumes "fe_scan e (bytes_string p) = Some s" "\<not> fe_update_fails e" "t_servers g i \<noteq> None"
  shows "\<exists>fs. ServerVulns False i (OnScan e i p g) = JSON 200 (Some (s\<lparr>sf_Findings := fs\<rparr>)) \<and>
    map vf_ID fs = map vf_ID (sf_Findings s)"
proof -
  obtain sv where "t_servers g i = Some sv" using assms(3) by blast
  from scan_recorded [OF assms(1,2) this] show ?thesis by (auto simp: ServerVulns_def writeJSON_def)
qed

text \<open>A finding keeps the agent's severity exactly when no CVSS severity is known.\<close>

lemma severity_enriched:
  assumes "vf_ID f \<in> set ids" "sevMap = fst (Enrich osv ids Map.empty)"
  shows "vf_Severity (enrich_finding sevMap f) =
    (if fetchSeverity osv (vf_ID f) = [] then vf_Severity f else fetchSeverity osv (vf_ID f))"
  using assms by (simp add: enrich_finding_def Enrich_eq)

text \<open>The handler of a replaced connection marks the server offline when it ends, although the new
  connection is the registered one.\<close>

lemma stale_handler_marks_offline:
  assumes "Get i (ag_net g) = Some c'" "c' \<noteq> c" "t_servers g i = Some s"
  shows "Get i (ag_net (agent_disconnect False i c g)) = Some c'
    \<and> map_option sv_Status (t_servers (agent_disconnect False i c g) i) = Some ''offline''"
proof -
  have "Get i (snd (ReadLoop WsErr c (ag_net g))) = Some c'"
    using assms(1) by (auto simp: Get_def ReadLoop_def net_obs split: option.split)
  with assms show ?thesis
    by (simp add: agent_disconnect_def markOffline_def upd_server_def Get_Unregister)
qed

text \<open>Memory in use is a percentage when the available memory does not exceed the total; otherwise the
  unsigned difference wraps around.\<close>

lemma percent: "a \<le> b \<Longrightarrow> 0 < b \<Longrightarrow> 0 \<le> (of_nat a :: rat) / of_nat b * 100 \<and> (of_nat a :: rat) / of_nat b * 100 \<le> 100"
proof -
  assume "a \<le> b" "0 < b"
  then have "(of_nat a :: rat) / of_nat b \<le> 1" "0 \<le> (of_nat a :: rat) / of_nat b" by simp_all
  moreover have "0 \<le> x * 100 \<and> x * 100 \<le> 100" if "x \<le> 1" "0 \<le> x" for x :: rat using that by simp
  ultimately show ?thesis by blast
qed

lemma mem_used_percentage:
  assumes "tm_MemAvailMB t \<le> tm_MemTotalMB t"
  shows "0 \<le> mem_used t \<and> mem_used t \<le> 100"
proof (cases "0 < tm_MemTotalMB t")
  case True
  then have "0 < unat (tm_MemTotalMB t)" by (simp add: word_less_nat_alt)
  moreover have "unat (tm_MemTotalMB t - tm_MemAvailMB t) \<le> unat (tm_MemTotalMB t)"
    using assms by (simp add: unat_sub)
  ultimately show ?thesis using True by (simp only: mem_used_def if_True percent)
qed (simp add: mem_used_def)

lemma mem_used_wraps:
  "mem_used \<lparr>tm_CPUPct = 0, tm_Load1 = 0, tm_MemTotalMB = 1000, tm_MemAvailMB = 1001, tm_DiskTotalGB = 0, tm_DiskFreeGB = 0,
     tm_NetRxKBs = 0, tm_NetTxKBs = 0\<rparr> = of_nat (2 ^ 64 - 1) / 10"
  by (simp add: mem_used_def unsigned_minus_1_eq_mask mask_eq_exp_minus_1)

text \<open>An event taken from its queue when the tunnel is down is gone: the send fails and the goroutine
  ends without putting it back.\<close>

lemma failed_send_loses_event:
  assumes "n_conns n c = Some ac" "\<not> ac_ws_open ac" "cbuf (aq_exec q) = b # bs"
  shows "forward QExec ok c (q, n) = (False, q\<lparr>aq_exec := (aq_exec q)\<lparr>cbuf := bs\<rparr>\<rparr>, n)"
  using assms by (simp add: forward_def recv_chan_def SendLog_def writeFrame_def)

text \<open>While the tunnel is up an event is sent as one frame of its kind.\<close>

lemma forwarded_event:
  assumes "n_conns n c = Some ac" "ac_ws_open ac" "cbuf (aq_exec q) = b # bs" "forward QExec True c (q, n) = (ok, q', n')"
  shows "ok \<and> cbuf (aq_exec q') = bs
    \<and> map_option (DecodeFrame \<circ> last \<circ> ac_out) (n_conns n' c) = Some (Some (FrameLog, uuid_Nil, b))"
  using assms by (auto simp: forward_def recv_chan_def SendLog_def writeFrame_def upd_conn_def)


section \<open>A healthy agent stays connected\<close>

lemma bearer_agent_request: "token \<noteq> [] \<Longrightarrow> bearer (agent_request token) = token"
  by (cases token) (simp_all add: bearer_def agent_request_def)

text \<open>Pings that arrive at most a timeout apart, the first one counted from the connection.\<close>

fun in_time :: "gotime \<Rightarrow> gotime list \<Rightarrow> bool" where
  "in_time t [] \<longleftrightarrow> True"
| "in_time t (u # us) \<longleftrightarrow> t \<le> u \<and> u < t + heartbeatTimeout \<and> in_time u us"

definition pings :: "gotime list \<Rightarrow> (gotime \<times> control \<times> bool \<times> pong_write) list" where
  "pings ts = map (\<lambda>t. (t, Ping, False, PongSent)) ts"

lemma in_time_ticks: "in_time t0 (map (\<lambda>k. t0 + int (Suc k) * heartbeatTick) [0..<n])"
proof -
  have "in_time (t0 + int m * heartbeatTick) (map (\<lambda>k. t0 + int (Suc k) * heartbeatTick) [m..<m + n])" for m
  proof (induction n arbitrary: m)
    case (Suc n)
    have "[m..<m + Suc n] = m # [Suc m..<Suc m + n]" by (simp add: upt_conv_Cons)
    then show ?case using Suc [of "Suc m"] by (simp add: heartbeatTick_def heartbeatTimeout_def algebra_simps)
  qed simp
  from this [of 0] show ?thesis by simp
qed

lemma pings_keep_alive:
  "in_time t0 ts \<Longrightarrow> hb_alive hb \<Longrightarrow> hb_deadline hb = t0 + heartbeatTimeout \<Longrightarrow> t_servers g i = Some s \<Longrightarrow>
   \<exists>hb' g'. fold (on_control i) (pings ts) (hb, g) = (hb', g') \<and> hb_alive hb' \<and>
     hb_deadline hb' = last (t0 # ts) + heartbeatTimeout \<and>
     (ts \<noteq> [] \<longrightarrow> map_option sv_AgentConnectedAt (t_servers g' i) = Some (Some (last ts)))"
proof (induction ts arbitrary: t0 hb g s)
  case Nil
  then show ?case by (simp add: pings_def)
next
  case (Cons t ts)
  let ?hb = "hb\<lparr>hb_deadline := t + heartbeatTimeout, hb_alive := True\<rparr>" and ?g = "touch False t i g"
  have step: "on_control i (t, Ping, False, PongSent) (hb, g) = (?hb, ?g)"
    using Cons.prems by (simp add: on_control_def Let_def)
  have s: "t_servers ?g i = Some (s\<lparr>sv_AgentConnectedAt := Some t\<rparr>)"
    using Cons.prems(4) by (simp add: touch_def upd_server_def)
  from Cons.IH [OF _ _ _ s, of t ?hb] Cons.prems(1)
  obtain hb' g' where "fold (on_control i) (pings ts) (?hb, ?g) = (hb', g')" "hb_alive hb'"
      "hb_deadline hb' = last (t # ts) + heartbeatTimeout"
      "ts \<noteq> [] \<longrightarrow> map_option sv_AgentConnectedAt (t_servers g' i) = Some (Some (last ts))" by auto
  with step s show ?case by (cases ts) (auto simp: pings_def)
qed

text \<open>C30: A healthy agent is never dropped: if its pings reach the gateway less than ninety seconds apart, starting from the
  moment it connected, the connection is alive after every one of them, its deadline is ninety seconds after the
  last, and the inventory shows that ping as the last contact; the agent's own schedule of thirty seconds meets that
  condition, and the deadline is three of its ticks.\<close>

theorem healthy_agent_stays_connected:
  assumes "in_time t0 ts" and "t_servers g i = Some s" and "ts \<noteq> []"
  shows "(\<exists>hb' g'. fold (on_control i) (pings ts) (hb_start t0, g) = (hb', g') \<and> hb_alive hb' \<and>
     hb_deadline hb' = last ts + heartbeatTimeout \<and>
     map_option sv_AgentConnectedAt (t_servers g' i) = Some (Some (last ts))) \<and>
    in_time t0 (map (\<lambda>k. t0 + int (Suc k) * heartbeatTick) [0..<n]) \<and> 3 * heartbeatTick \<le> heartbeatTimeout"
proof -
  have "hb_alive (hb_start t0)" "hb_deadline (hb_start t0) = t0 + heartbeatTimeout" by (simp_all add: hb_start_def)
  from pings_keep_alive [OF assms(1) this assms(2)] assms(3) in_time_ticks [of t0 n] show ?thesis
    by (simp add: heartbeatTick_def heartbeatTimeout_def)
qed

theorem healthy_agent_stays_connected_witness:
  "\<exists>hb' g'. fold (on_control ''h1'') (pings [30 * Second, 85 * Second]) (hb_start 0, demo_gateway) = (hb', g') \<and> hb_alive hb' \<and>
     hb_deadline hb' = 175 * Second"
proof -
  have "in_time 0 [30 * Second, 85 * Second]" by (simp add: heartbeatTimeout_def)
  moreover obtain s where "t_servers demo_gateway ''h1'' = Some s" by (simp add: demo_gateway_def)
  ultimately have "\<exists>hb' g'. fold (on_control ''h1'') (pings [30 * Second, 85 * Second]) (hb_start 0, demo_gateway) = (hb', g') \<and>
      hb_alive hb' \<and> hb_deadline hb' = 85 * Second + heartbeatTimeout"
    using healthy_agent_stays_connected [of 0 "[30 * Second, 85 * Second]" demo_gateway "''h1''" s 0] by auto
  then show ?thesis by (simp add: heartbeatTimeout_def)
qed

text \<open>Messages that are not control messages do not count: an agent that sends data all the time but no ping is
  dropped after ninety seconds.\<close>

lemma data_is_no_heartbeat:
  "\<forall>t \<in> set ts. t < t0 + heartbeatTimeout \<Longrightarrow> t0 + heartbeatTimeout \<le> t' \<Longrightarrow>
   \<not> hb_alive (on_data t' (fold on_data ts (hb_start t0)))"
proof -
  assume ts: "\<forall>t \<in> set ts. t < t0 + heartbeatTimeout" and t': "t0 + heartbeatTimeout \<le> t'"
  have "fold on_data ts (hb_start t0) = hb_start t0"
    using ts by (induction ts) (simp_all add: on_data_def hb_start_def)
  with t' show ?thesis by (simp add: on_data_def hb_start_def)
qed

end
