(* ===== verification/Trail.thy ===== *)
theory Trail
  imports SshProxy AgentGateway Users
begin

text \<open>
  One audit trail, many writers: interactive sessions (\<^verbatim>\<open>internal/proxy\<close>), the frames of
  the agents (\<^verbatim>\<open>internal/agent/tunnel.go\<close>) and the login endpoint
  (\<^verbatim>\<open>internal/api/alerts.go\<close>) all append to the table \<^verbatim>\<open>audit_logs\<close> through
  \<^verbatim>\<open>auditlog.Append\<close>.  This theory puts the three components around the shared table
  and shows that the verifier accepts what any interleaving of them leaves behind.
\<close>

section \<open>Appending through a component\<close>

text \<open>A table that another one grew into by appends, using some of the given answers of the
  database in their order.\<close>

definition appended :: "(string \<Rightarrow> string) \<Rightarrow> append_env list \<Rightarrow> audit_table \<Rightarrow> audit_table \<Rightarrow> bool" where
  "appended sha envs t t' \<longleftrightarrow> (\<exists>ops. subseq (map op_env ops) envs \<and> t' = fold (append_step sha) ops t)"

text \<open>Answers that fit a table: every read of the latest hash succeeds, the serial numbers grow and are above those in use.\<close>

definition fresh :: "append_env list \<Rightarrow> audit_table \<Rightarrow> bool" where
  "fresh envs t \<longleftrightarrow> (\<forall>e \<in> set envs. \<not> select_fails e \<and> (\<forall>r \<in> set t. row_id r < serial e)) \<and>
     sorted_wrt (\<lambda>e f. serial e < serial f) envs"

lemma appended_refl [simp, intro]: "appended sha envs t t"
  unfolding appended_def by (intro exI [of _ "[]"]) simp

lemma appended_trans:
  assumes "appended sha es t u" "appended sha fs u v"
  shows "appended sha (es @ fs) t v"
proof -
  obtain xs ys where "subseq (map op_env xs) es" "u = fold (append_step sha) xs t"
    "subseq (map op_env ys) fs" "v = fold (append_step sha) ys u"
    using assms unfolding appended_def by blast
  then show ?thesis unfolding appended_def
    by (intro exI [of _ "xs @ ys"]) (simp add: list_emb_append_mono)
qed

lemma appended_Append: "appended sha [env] t (fst (snd (Append sha env a b c d e t)))"
  unfolding appended_def
  by (intro exI [of _ "[\<lparr>op_env = env, op_session = a, op_server = b, op_user = c, op_type = d, op_data = e\<rparr>]"])
     (simp add: append_step_def)

lemma fresh_append_step:
  assumes "fresh (op_env x # envs) t"
  shows "append_ok x t" "fresh envs (append_step sha x t)"
  using assms by (auto simp: fresh_def append_ok_def append_step_def Append_def list_all_iff Let_def)

lemma subseq_sorted_wrt: "subseq es fs \<Longrightarrow> set es \<subseteq> set fs \<and> (sorted_wrt R fs \<longrightarrow> sorted_wrt R es)"
  by (induction rule: list_emb.induct) auto

lemma fresh_subseq: "subseq es fs \<Longrightarrow> fresh fs t \<Longrightarrow> fresh es t"
  using subseq_sorted_wrt [of es fs] unfolding fresh_def by blast

lemma fold_append_inv:
  assumes "digest_32 sha"
  shows "log_inv sha t \<Longrightarrow> fresh (map op_env ops) t \<Longrightarrow> log_inv sha (fold (append_step sha) ops t)"
proof (induction ops arbitrary: t)
  case (Cons x ops)
  have "log_inv sha (append_step sha x t)"
    using append_step_log_inv [of sha t x] Cons.prems fresh_append_step(1) assms by (auto simp: digest_32_def)
  with Cons fresh_append_step(2) show ?case by simp
qed simp

lemma appended_log_inv:
  assumes "digest_32 sha" "log_inv sha t" "fresh envs t" "appended sha envs t t'"
  shows "log_inv sha t'"
  using assms fold_append_inv fresh_subseq unfolding appended_def by blast

lemma appended_prefix: "appended sha envs t t' \<Longrightarrow> prefix t t'"
  unfolding appended_def using audit.extends_run by auto

section \<open>The writers\<close>

lemma audit_append_appended: "appended sha [env] (g_audit g) (g_audit (audit_append sha env a b c d e g))"
  using appended_Append [of sha env "g_audit g" a b c d e] by (simp add: audit_append_def case_prod_beta)

lemma audit_append_onto: "g_audit g = t \<Longrightarrow> appended sha [env] t (g_audit (audit_append sha env a b c d e g))"
  using audit_append_appended by blast

lemma rec_audit_appended: "appended sha [env] (g_audit g) (g_audit (rec_audit sha env r d e g))"
  by (simp add: rec_audit_def audit_append_appended)

lemma ms_end_appended: "appended sha [ee_append env] (g_audit p) (g_audit (ms_end sha cfg env a p))"
proof (cases "p_ms p a")
  case None
  then show ?thesis by (simp add: ms_end_def)
next
  case (Some m)
  show ?thesis
  proof (cases "m_endOnce m")
    case True
    with Some show ?thesis by (simp add: ms_end_once)
  next
    case False
    with Some show ?thesis by (simp add: ms_end_eq(3) rec_audit_appended)
  qed
qed

lemma set_ms_audit [simp]: "g_audit (set_ms a m p) = g_audit p"
  by (simp add: set_ms_def)

lemma RecordOutput_appended: "appended sha [env] (g_audit g) (g_audit (snd (RecordOutput sha env now d r g)))"
  using rec_audit_appended [of sha env "hub_do (Publish (rec_sessionID r) d (g_hub g)) g"] rec_audit_appended [of sha env g]
  by (simp add: RecordOutput_def Let_def)

lemma pump_read_appended:
  "appended sha [env, ee_append eenv] (g_audit p) (g_audit (pump_read sha cfg env eenv now a chunk eof p))"
proof -
  let ?p1 = "if chunk \<noteq> [] then writeWS a (BinaryF chunk) (pump_record sha env now a chunk p) else p"
  have "appended sha [env] (g_audit p) (g_audit ?p1)"
    by (simp add: pump_record_def RecordOutput_appended Let_def split: option.split)
  moreover have "appended sha [ee_append eenv] (g_audit ?p1) (g_audit (if eof then ms_end sha cfg eenv a ?p1 else ?p1))"
    by (simp only: ms_end_appended appended_refl split: if_split) simp
  ultimately show ?thesis using appended_trans by (fastforce simp: pump_read_def Let_def)
qed

lemma run_input_appended: "appended sha [ie_append env] (g_audit p) (g_audit (snd (run_input sha resize env a istext d p)))"
  by (auto simp: run_input_def TeeInput_Write_def RecordInput_def rec_audit_appended Let_def split: option.split)

lemma watchdog_appended: "appended sha [ee_append env] (g_audit p) (g_audit (watchdog_tick sha cfg env now a p))"
proof -
  have "appended sha [ee_append env] (g_audit p) (g_audit (ms_end sha cfg env a (writeWS a f (set_ms a m p))))" for f m
    using ms_end_appended [of sha env "writeWS a f (set_ms a m p)"] by simp
  then show ?thesis by (simp add: watchdog_tick_def Let_def split: option.split)
qed


lemma newSSHClient_audit [simp]: "g_audit (snd (newSSHClient cfg env srv p)) = g_audit p" for p :: proxy
proof -
  have "g_audit t1 = g_audit p" if "hostKeyCallback pf srv k p = (e, t1)" for pf k e t1
    using tables_only(4) [of pf srv k p] that by simp
  then show ?thesis
    by (auto simp: newSSHClient_def split: sum.splits prod.splits option.splits)
qed

lemma writeWSError_audit [simp]: "g_audit (writeWSError w msg p) = g_audit p" "g_audit (ws_shut w p) = g_audit p"
  "g_audit (ws_upgrade w p) = g_audit p" "g_audit (attach a w p) = g_audit p"
  by (auto simp: writeWSError_def ws_shut_def ws_upgrade_def attach_def Let_def split: option.splits)

lemma track_session_audit [simp]: "g_audit (track_session cfg now w a sid u i p) = g_audit p"
  by (simp add: track_session_def start_watchdog_def store_add_def Let_def split: option.split)

lemma start_session_appended:
  "appended sha [ce_start_append env, ee_append (ce_end env)] (g_audit p)
     (g_audit (snd (snd (start_session sha cfg env w i u reason srv p))))"
proof -
  define sp where "sp = createSession (ce_row env) (ce_now env) i u (sv_Protocol srv) reason p"
  define rec0 where "rec0 = NewRecorder True (fst sp) i u 220 50 (ce_now env)"
  define p2 where "p2 = rec_audit sha (ce_start_append env) rec0 EventSessionStart reason (snd sp)"
  have "g_audit (snd sp) = g_audit p" by (simp add: sp_def createSession_def split: option.split)
  then have 1: "appended sha [ce_start_append env] (g_audit p) (g_audit p2)"
    using rec_audit_appended [of sha "ce_start_append env" "snd sp" rec0 EventSessionStart reason] by (simp add: p2_def)
  have 2: "appended sha [ee_append (ce_end env)] (g_audit p2)
      (g_audit (endSession sha cfg (ce_end env) j rc (writeWSError w msg (p2\<lparr>g_notifier := n\<rparr>))))" for j rc msg n
    using rec_audit_appended [of sha "ee_append (ce_end env)" "writeWSError w msg (p2\<lparr>g_notifier := n\<rparr>)" rc EventSessionEnd "[]"]
    by simp
  have "appended sha [ee_append (ce_end env)] (g_audit p2) (g_audit (snd (snd (start_session sha cfg env w i u reason srv p))))"
    unfolding start_session_def sp_def [symmetric] Let_def case_prod_beta rec0_def [symmetric] p2_def [symmetric]
    using 2 by (auto simp: newManagedSession_def set_ms_def Let_def split: option.split if_split)
  from appended_trans [OF 1 this] show ?thesis by simp
qed

lemma ServeHTTP_appended:
  "appended sha [ce_start_append env, ee_append (ce_end env)] (g_audit p)
     (g_audit (snd (ServeHTTP sha c cfg env cl i reason rid w p)))"
proof -
  have 1: "appended sha [ce_start_append env, ee_append (ce_end env)] (g_audit p) (g_audit p3)"
    if "newSSHClient cfg env srv (ws_upgrade w p) = (e, p2)" "start_session sha cfg env w i u reason srv p2 = (a, sid, p3)"
    for srv e p2 u a sid p3
    using start_session_appended [of sha env p2 cfg w i u reason srv] newSSHClient_audit [of cfg env srv "ws_upgrade w p"] that
    by simp
  have 2: "g_audit p2 = g_audit p" if "newSSHClient cfg env srv (ws_upgrade w p) = (e, p2)" for srv e p2
    using newSSHClient_audit [of cfg env srv "ws_upgrade w p"] that by simp
  show ?thesis
    unfolding ServeHTTP_def Let_def abort_def
    using 1 2 by (simp split: if_split option.split sum.split prod.split)
qed


lemma agent_message_appended:
  assumes "fe_sha e = sha"
  shows "appended sha [fe_audit e] (g_audit g) (g_audit (agent_message e i c m g))"
proof -
  have "length (fst (ReadLoop m c (ag_net g))) \<le> 1"
    by (auto simp: ReadLoop_def dispatch_def split: option.split ws_message.split prod.split)
  then consider "fst (ReadLoop m c (ag_net g)) = []" | cb where "fst (ReadLoop m c (ag_net g)) = [cb]"
    by (cases "fst (ReadLoop m c (ag_net g))") (auto simp: Suc_le_eq)
  then show ?thesis
  proof cases
    case 1
    then show ?thesis by (simp add: agent_message_def case_prod_beta)
  next
    case (2 cb)
    have "appended sha [fe_audit e] (g_audit g) (g_audit (on_callback e i cb h))" if "g_audit h = g_audit g" for h
    proof (cases cb)
      case (CbScan p)
      have "appended sha [fe_audit e] (g_audit g) (g_audit (OnScan e i p h))"
        using that assms
        by (auto simp: OnScan_def upd_server_def Let_def intro!: audit_append_onto split: option.split prod.split)
      with CbScan show ?thesis by (simp add: on_callback_def)
    qed (use audit_append_appended [of sha "fe_audit e" h] that assms in
        \<open>auto simp: on_callback_def OnLog_def OnTelemetry_def upd_server_def Let_def split: option.split\<close>)
    with 2 show ?thesis by (simp add: agent_message_def case_prod_beta)
  qed
qed

lemma Login_appended:
  assumes "cr_sha cr = sha"
  shows "appended sha [le_append env, le_append2 env] (ac_audit s) (ac_audit (snd (Login cr env req s)))"
proof -
  have a: "appended sha [e] (ac_audit s) (ac_audit (audit_event sha e et d s))" for e et d s
    using appended_Append [of sha e "ac_audit s"] by (simp add: audit_event_def case_prod_beta)
  have "appended sha ([le_append env] @ [le_append2 env]) (ac_audit s) (ac_audit (onLoginFailure sha env u s))" for u
  proof (rule appended_trans)
    let ?s1 = "audit_event sha (le_append env) ''login_failed'' u s"
    show "appended sha [le_append env] (ac_audit s) (ac_audit ?s1)" by (rule a)
    show "appended sha [le_append2 env] (ac_audit ?s1) (ac_audit (onLoginFailure sha env u s))"
      using a [of "le_append2 env" "(emit_event ''auth.login_failed'' ''warning'' u ''bad credentials'' ?s1)\<lparr>ac_fails := f\<rparr>" for f]
      by (simp add: onLoginFailure_def emit_event_def Let_def split: prod.split)
  qed
  then show ?thesis using assms by (simp add: Login_def split: option.split)
qed

section \<open>All writers around one table\<close>

text \<open>The three components with their own state and the table they share: an operation works on the
  current table and leaves its own.\<close>

record whole =
  wh_audit :: audit_table
  wh_proxy :: proxy
  wh_agents :: agent_gateway
  wh_accounts :: accounts

definition on_proxy :: "(proxy \<Rightarrow> proxy) \<Rightarrow> whole \<Rightarrow> whole" where
  "on_proxy f w = (let p = f ((wh_proxy w)\<lparr>g_audit := wh_audit w\<rparr>) in w\<lparr>wh_proxy := p, wh_audit := g_audit p\<rparr>)"

definition on_agents :: "(agent_gateway \<Rightarrow> agent_gateway) \<Rightarrow> whole \<Rightarrow> whole" where
  "on_agents f w = (let g = f ((wh_agents w)\<lparr>g_audit := wh_audit w\<rparr>) in w\<lparr>wh_agents := g, wh_audit := g_audit g\<rparr>)"

definition on_accounts :: "(accounts \<Rightarrow> accounts) \<Rightarrow> whole \<Rightarrow> whole" where
  "on_accounts f w = (let s = f ((wh_accounts w)\<lparr>ac_audit := wh_audit w\<rparr>) in w\<lparr>wh_accounts := s, wh_audit := ac_audit s\<rparr>)"

text \<open>An operation that appends twice (a session that opens and fails, the last output and the end, a failed login that raises the
  alert) is one step here.  In the program another writer's row may come between its two: each \<open>Append\<close> is atomic under its
  mutex, and for histories of single appends in any order \<open>append_history_verifies\<close> holds.\<close>

datatype writer =
    WOpen connect_env "claims option" string string string nat
  | WOutput append_env end_env gotime nat string bool
  | WInput "string \<Rightarrow> (string \<times> int \<times> int) option" input_env nat bool string
  | WEnd end_env nat
  | WWatchdog end_env gotime nat
  | WAgent frame_env string nat ws_message
  | WLogin login_env "loginReq option"

fun write_step :: "(string \<Rightarrow> string) \<Rightarrow> aead \<Rightarrow> proxy_cfg \<Rightarrow> crypto \<Rightarrow> writer \<Rightarrow> whole \<Rightarrow> whole" where
  "write_step sha c cfg cr (WOpen env cl i reason rid w) = on_proxy (\<lambda>p. snd (ServeHTTP sha c cfg env cl i reason rid w p))"
| "write_step sha c cfg cr (WOutput env eenv now a chunk eof) = on_proxy (pump_read sha cfg env eenv now a chunk eof)"
| "write_step sha c cfg cr (WInput resize env a istext d) = on_proxy (\<lambda>p. snd (run_input sha resize env a istext d p))"
| "write_step sha c cfg cr (WEnd env a) = on_proxy (ms_end sha cfg env a)"
| "write_step sha c cfg cr (WWatchdog env now a) = on_proxy (watchdog_tick sha cfg env now a)"
| "write_step sha c cfg cr (WAgent e i conn m) = on_agents (agent_message (e\<lparr>fe_sha := sha\<rparr>) i conn m)"
| "write_step sha c cfg cr (WLogin env req) = on_accounts (\<lambda>s. snd (Login (cr\<lparr>cr_sha := sha\<rparr>) env req s))"

text \<open>The answers of the database an operation may use, in order.\<close>

fun write_envs :: "writer \<Rightarrow> append_env list" where
  "write_envs (WOpen env cl i reason rid w) = [ce_start_append env, ee_append (ce_end env)]"
| "write_envs (WOutput env eenv now a chunk eof) = [env, ee_append eenv]"
| "write_envs (WInput resize env a istext d) = [ie_append env]"
| "write_envs (WEnd env a) = [ee_append env]"
| "write_envs (WWatchdog env now a) = [ee_append env]"
| "write_envs (WAgent e i conn m) = [fe_audit e]"
| "write_envs (WLogin env req) = [le_append env, le_append2 env]"

definition write_ok :: "writer \<Rightarrow> whole \<Rightarrow> bool" where
  "write_ok x w \<longleftrightarrow> fresh (write_envs x) (wh_audit w)"

lemma write_step_appended: "appended sha (write_envs x) (wh_audit w) (wh_audit (write_step sha c cfg cr x w))"
proof (cases x)
  case (WOpen env cl i reason rid ws)
  then show ?thesis
    using ServeHTTP_appended [of sha env "(wh_proxy w)\<lparr>g_audit := wh_audit w\<rparr>"] by (simp add: on_proxy_def Let_def)
next
  case (WOutput env eenv now a chunk eof)
  then show ?thesis
    using pump_read_appended [of sha env eenv "(wh_proxy w)\<lparr>g_audit := wh_audit w\<rparr>"] by (simp add: on_proxy_def Let_def)
next
  case (WInput resize env a istext d)
  then show ?thesis
    using run_input_appended [of sha env "(wh_proxy w)\<lparr>g_audit := wh_audit w\<rparr>"] by (simp add: on_proxy_def Let_def)
next
  case (WEnd env a)
  then show ?thesis
    using ms_end_appended [of sha env "(wh_proxy w)\<lparr>g_audit := wh_audit w\<rparr>"] by (simp add: on_proxy_def Let_def)
next
  case (WWatchdog env now a)
  then show ?thesis
    using watchdog_appended [of sha env "(wh_proxy w)\<lparr>g_audit := wh_audit w\<rparr>"] by (simp add: on_proxy_def Let_def)
next
  case (WAgent e i conn m)
  then show ?thesis
    using agent_message_appended [of "e\<lparr>fe_sha := sha\<rparr>" sha "(wh_agents w)\<lparr>g_audit := wh_audit w\<rparr>"] by (simp add: on_agents_def Let_def)
next
  case (WLogin env req)
  then show ?thesis
    using Login_appended [of "cr\<lparr>cr_sha := sha\<rparr>" sha env "(wh_accounts w)\<lparr>ac_audit := wh_audit w\<rparr>"] by (simp add: on_accounts_def Let_def)
qed

interpretation trail: append_only "write_step sha c cfg cr" write_ok "\<lambda>w. digest_32 sha \<longrightarrow> log_inv sha (wh_audit w)" wh_audit
proof
  show "digest_32 sha \<longrightarrow> log_inv sha (wh_audit (write_step sha c cfg cr x w))"
    if "digest_32 sha \<longrightarrow> log_inv sha (wh_audit w)" "write_ok x w" for x w
    using that appended_log_inv write_step_appended unfolding write_ok_def by blast
  show "prefix (wh_audit w) (wh_audit (write_step sha c cfg cr x w))" for x w
    by (rule appended_prefix [OF write_step_appended])
qed


text \<open>C2: The audit trail of the whole gateway verifies: whatever sequence of sessions opening, printing, reading input, ending and
  being cut off, agent messages and logins wrote it, in whatever interleaving and whichever of their inserts failed, the verifier
  finds the chain intact and counts every row; and nothing written earlier was changed or removed.\<close>

theorem gateway_trail_verifies:
  assumes "digest_32 sha" and "wh_audit w = []" and "run_ok write_ok (write_step sha c cfg cr) (xs @ ys) w"
  shows "let before = wh_audit (fold (write_step sha c cfg cr) xs w); after = wh_audit (fold (write_step sha c cfg cr) (xs @ ys) w) in
    verify_table sha after = Some \<lparr>OK = True, Checked = length after, BreakAtID = 0, BreakError = []\<rparr> \<and> prefix before after"
proof -
  have "digest_32 sha \<longrightarrow> log_inv sha (wh_audit (fold (write_step sha c cfg cr) (xs @ ys) w))"
    by (rule trail.inv_run [OF _ assms(3)]) (simp add: assms(2) log_inv_def)
  moreover have "prefix (wh_audit (fold (write_step sha c cfg cr) xs w)) (wh_audit (fold (write_step sha c cfg cr) (xs @ ys) w))"
    using trail.extends_run [of "fold (write_step sha c cfg cr) xs w" sha c cfg cr ys] by simp
  ultimately show ?thesis using assms(1) by (simp add: log_inv_verifies)
qed

definition demo_whole :: whole where
  "demo_whole = \<lparr>wh_audit = [], wh_proxy = demo, wh_agents = demo_gateway, wh_accounts = toy_accounts\<rparr>"

theorem gateway_trail_verifies_witness:
  "let t = wh_audit (fold (write_step sample_sha toy_aead demo_cfg toy_crypto)
        [WOutput (sample_env 1) demo_end 0 0 ''ok'' False, WInput (\<lambda>d. None) \<lparr>ie_append = sample_env 3, ie_written = 2, ie_err = False\<rparr> 0 True ''ls'']
        demo_whole)
   in verify_table sample_sha t = Some \<lparr>OK = True, Checked = length t, BreakAtID = 0, BreakError = []\<rparr>"
proof -
  let ?xs = "[WOutput (sample_env 1) demo_end 0 0 ''ok'' False, WInput (\<lambda>d. None) \<lparr>ie_append = sample_env 3, ie_written = 2, ie_err = False\<rparr> 0 True ''ls'']"
  have "digest_32 sample_sha" by (auto simp: digest_32_def sample_sha_def min_def)
  moreover have "wh_audit demo_whole = []" by (simp add: demo_whole_def)
  moreover have "run_ok write_ok (write_step sample_sha toy_aead demo_cfg toy_crypto) (?xs @ []) demo_whole"
    by (simp add: write_ok_def fresh_def demo_whole_def on_proxy_def pump_read_def pump_record_def RecordOutput_def rec_audit_def
        audit_append_def Append_def sample_env_def demo_end_def demo_def demo_rec_def new_managed_def NewRecorder_def
        appendEvent_def set_ms_def writeWS_def hub_do_def Let_def split: option.split)
  ultimately show ?thesis
    using gateway_trail_verifies [of sample_sha demo_whole toy_aead demo_cfg toy_crypto ?xs "[]"] by (simp add: Let_def)
qed

end
