(* ===== verification/Bulk.thy ===== *)
theory Bulk
  imports SshProxy "HOL-Library.Multiset"
begin

text \<open>
  Bulk execution (\<^verbatim>\<open>internal/bulk/executor.go\<close>, \<^verbatim>\<open>internal/api/bulk.go\<close>): running one
  command on one host, the fan-out over a group with at most fifty hosts at a time, the
  result table, and the subscribers that stream results to browsers.

  The goroutines of \<^verbatim>\<open>Run\<close> are steps of the relation \<open>run_step\<close>, cut where the code lets others in: a host is
  started when the semaphore has room, its result is stored, the subscribers are copied under the lock, each
  is sent the result outside it, and the slot is free again; when every goroutine is done the job is marked, its
  subscribers are taken off the map under the lock, and their channels are closed outside it.  Channels
  live in the heap of \<open>Chan\<close>; sending on or closing a closed one is a panic.  What
  the network, the SSH library and the remote host answer is the environment of \<open>runOne\<close>; the calls that have
  no deadline may also never answer.
\<close>

section \<open>One host\<close>

definition BulkStatusOK :: string where "BulkStatusOK = ''ok''"
definition BulkStatusError :: string where "BulkStatusError = ''error''"
definition BulkStatusUnreachable :: string where "BulkStatusUnreachable = ''unreachable''"
definition BulkStatusTimeout :: string where "BulkStatusTimeout = ''timeout''"

lemmas bulk_status_defs = BulkStatusOK_def BulkStatusError_def BulkStatusUnreachable_def BulkStatusTimeout_def

record bulk_result =
  br_JobID :: string
  br_ServerID :: string
  br_ServerName :: string
  br_Status :: string
  br_Stdout :: string
  br_Stderr :: string
  br_ExitCode :: int
  br_DurationMS :: int

record bulk_job =
  bj_UserID :: "string option"
  bj_GroupID :: string
  bj_Command :: string
  bj_Script :: bool
  bj_Status :: string

text \<open>How \<^verbatim>\<open>session.Run\<close> and the timeout race ends.\<close>

datatype run_outcome =
    TimedOut
  | RunOK
  | RunExit int \<comment> \<open>\<^verbatim>\<open>*ssh.ExitError\<close> with this status\<close>
  | RunErr string

text \<open>How a call without a deadline ends: with its error, if any, or not at all.\<close>

datatype reply = Returned "string option" | Silent

record host_env =
  he_start :: gotime
  he_end :: gotime
  he_dial :: "dial_target \<Rightarrow> reply"
  he_parse :: "string \<Rightarrow> string option"
  he_handshake :: "string \<Rightarrow> auth_method list \<Rightarrow> reply"
  he_session :: reply
  he_run :: "duration \<Rightarrow> string \<Rightarrow> string option \<Rightarrow> run_outcome" \<comment> \<open>deadline, command, standard input\<close>
  he_stdout :: string
  he_stderr :: string

definition default_timeout :: "int \<Rightarrow> duration" where
  "default_timeout timeoutSec = (if timeoutSec \<le> 0 then 30 else timeoutSec) * Second"

definition host_timeout :: "duration \<Rightarrow> bool \<Rightarrow> duration" where
  "host_timeout timeout script = (if script \<and> timeout < 10 * Minute then 10 * Minute else timeout)"

text \<open>\<^verbatim>\<open>time.Duration.Milliseconds\<close>: truncated towards zero.\<close>

definition Milliseconds :: "duration \<Rightarrow> int" where
  "Milliseconds d = (if d < 0 then - (- d div 1000000) else d div 1000000)"

definition bulk_dial :: "server \<Rightarrow> dial_target" where
  "bulk_dial srv =
     (if sv_ConnectionMode srv = ModeAgent then ViaAgent (sv_ID srv)
      else DialTCP (JoinHostPort (sv_Host srv) (Itoa (sv_Port srv))))"

text \<open>\<open>newClient\<close>: the error, if any; the host key is accepted whatever it is.  \<^verbatim>\<open>ClientConfig.Timeout\<close> is for
  \<^verbatim>\<open>ssh.Dial\<close>; \<^verbatim>\<open>ssh.NewClientConn\<close> on an open connection has no deadline.\<close>

definition newClient :: "host_env \<Rightarrow> server \<Rightarrow> reply" where
  "newClient env srv =
     (let user = (if nonempty (sv_SSHUser srv) then the (sv_SSHUser srv) else ''root'');
          key = (if nonempty (sv_SSHKey srv) then [KeyAuth (the (sv_SSHKey srv))] else []);
          pw = (if nonempty (sv_SSHPassword srv) then [PasswordAuth (the (sv_SSHPassword srv))] else [])
      in case (if nonempty (sv_SSHKey srv) then he_parse env (the (sv_SSHKey srv)) else None) of
           Some e \<Rightarrow> Returned (Some (''parse ssh key: '' @ e))
         | None \<Rightarrow>
             if key @ pw = [] then Returned (Some ''no SSH credentials configured'')
             else he_handshake env user (key @ pw))"

definition remote_command :: "string \<Rightarrow> bool \<Rightarrow> string \<times> string option" where
  "remote_command command script =
     (if script then (''bash -s'', Some (command @ [CHR 10])) else (command, None))"

text \<open>\<open>runOne\<close>: \<open>None\<close> when it never returns.  Only \<^verbatim>\<open>session.Run\<close> runs against the timeout.\<close>

definition runOne :: "aead \<Rightarrow> duration \<Rightarrow> host_env \<Rightarrow> string \<Rightarrow> server \<Rightarrow> string \<Rightarrow> bool \<Rightarrow> bulk_result option" where
  "runOne ci timeout env jobID srv0 command script =
     (let res = \<lparr>br_JobID = jobID, br_ServerID = sv_ID srv0, br_ServerName = sv_Name srv0, br_Status = [],
                 br_Stdout = [], br_Stderr = [], br_ExitCode = -1,
                 br_DurationMS = Milliseconds (he_end env - he_start env)\<rparr>;
          srv = decrypted ci srv0
      in case he_dial env (bulk_dial srv) of
           Silent \<Rightarrow> None
         | Returned (Some e) \<Rightarrow> Some (res\<lparr>br_Status := BulkStatusUnreachable, br_Stderr := e\<rparr>)
         | Returned None \<Rightarrow>
         (case newClient env srv of
            Silent \<Rightarrow> None
          | Returned (Some e) \<Rightarrow> Some (res\<lparr>br_Status := BulkStatusError, br_Stderr := e\<rparr>)
          | Returned None \<Rightarrow>
          (case he_session env of
             Silent \<Rightarrow> None
           | Returned (Some e) \<Rightarrow> Some (res\<lparr>br_Status := BulkStatusError, br_Stderr := e\<rparr>)
           | Returned None \<Rightarrow>
           (case remote_command command script of (cmd, stdin) \<Rightarrow>
             Some (case he_run env (host_timeout timeout script) cmd stdin of
                TimedOut \<Rightarrow> res\<lparr>br_Status := BulkStatusTimeout, br_Stderr := ''timeout exceeded''\<rparr>
              | RunOK \<Rightarrow> res\<lparr>br_Stdout := he_stdout env, br_Stderr := he_stderr env,
                           br_Status := BulkStatusOK, br_ExitCode := 0\<rparr>
              | RunExit code \<Rightarrow> res\<lparr>br_Stdout := he_stdout env, br_Stderr := he_stderr env,
                           br_Status := BulkStatusOK, br_ExitCode := code\<rparr>
              | RunErr e \<Rightarrow> res\<lparr>br_Stdout := he_stdout env,
                           br_Stderr := (if he_stderr env = [] then e else he_stderr env),
                           br_Status := BulkStatusError\<rparr>)))))"

section \<open>The executor\<close>

text \<open>Where the goroutine of a host is: in \<open>runOne\<close>, before \<open>publish\<close>, or in its loop with the channels still to be sent
  to; and where \<open>Run\<close> is: in its loop or in \<^verbatim>\<open>wg.Wait\<close>, or in \<open>finish\<close> with the channels still to be closed.\<close>

datatype phase = Runs | Stored bulk_result | Sends bulk_result "nat list"

type_synonym flight = "server \<times> phase"

datatype ending = Works | Marked | Closes "nat list"

record bulk_run =
  run_waiting :: "server list"
  run_flying :: "flight list"
  run_ending :: ending

record bulk =
  bk_chans :: "bulk_result chans"
  bk_subs :: "string \<Rightarrow> nat list" \<comment> \<open>the map \<^verbatim>\<open>subscribers\<close>\<close>
  bk_next :: nat
  bk_jobs :: "string \<rightharpoonup> bulk_job"
  bk_results :: "bulk_result list" \<comment> \<open>the table \<^verbatim>\<open>bulk_results\<close>\<close>
  bk_spawned :: "string list" \<comment> \<open>the calls of \<^verbatim>\<open>Run\<close> that have not begun\<close>
  bk_runs :: "string \<rightharpoonup> bulk_run" \<comment> \<open>those that have begun and not returned\<close>
  bk_panic :: bool

definition maxConcurrency :: nat where "maxConcurrency = 50"

definition bulk_do :: "bulk_result chans option \<Rightarrow> bulk \<Rightarrow> bulk" where
  "bulk_do r b = (case r of None \<Rightarrow> b\<lparr>bk_panic := True\<rparr> | Some H \<Rightarrow> b\<lparr>bk_chans := H\<rparr>)"

definition Subscribe :: "string \<Rightarrow> bulk \<Rightarrow> nat \<times> bulk" where
  "Subscribe jobID b =
     (let c = bk_next b
      in (c, b\<lparr>bk_chans := (bk_chans b)(c \<mapsto> make_chan 64),
               bk_subs := (bk_subs b)(jobID := bk_subs b jobID @ [c]), bk_next := Suc c\<rparr>))"

text \<open>The closure \<open>Subscribe\<close> returns: removes the first occurrence of the channel, if it is there.\<close>

definition cancel_sub :: "string \<Rightarrow> nat \<Rightarrow> bulk \<Rightarrow> bulk" where
  "cancel_sub jobID c b = b\<lparr>bk_subs := (bk_subs b)(jobID := remove1 c (bk_subs b jobID))\<rparr>"

definition store :: "bool \<Rightarrow> bulk_result \<Rightarrow> bulk \<Rightarrow> bulk" where
  "store fails res b = (if fails then b else b\<lparr>bk_results := bk_results b @ [res]\<rparr>)"

text \<open>\<open>resolveServers\<close>: the members of the group, in the order the database returns them; a query
  error, a row that does not scan or an iteration error fails the whole call.\<close>

definition resolveServers :: "server rows \<Rightarrow> server list option" where
  "resolveServers q =
     (case q of QueryErr \<Rightarrow> None | Rows rs err \<Rightarrow> if err then None else collect id rs)"

text \<open>The start of \<open>Run\<close>; a group that cannot be resolved goes straight to \<open>finish\<close>.\<close>

definition run_begin :: "server rows \<Rightarrow> string \<Rightarrow> bulk \<Rightarrow> bulk" where
  "run_begin q jobID b =
     b\<lparr>bk_spawned := removeAll jobID (bk_spawned b),
       bk_runs := (bk_runs b)(jobID \<mapsto>
         \<lparr>run_waiting = (case resolveServers q of None \<Rightarrow> [] | Some srvs \<Rightarrow> srvs), run_flying = [], run_ending = Works\<rparr>)\<rparr>"

text \<open>The steps of its goroutines; \<open>None\<close> where the goroutine is not at that point or blocks.  The loop over the hosts
  acquires the semaphore before it starts a goroutine.\<close>

definition set_flight :: "string \<Rightarrow> bulk_run \<Rightarrow> nat \<Rightarrow> flight \<Rightarrow> bulk \<Rightarrow> bulk" where
  "set_flight jobID r k f b = b\<lparr>bk_runs := (bk_runs b)(jobID \<mapsto> r\<lparr>run_flying := (run_flying r)[k := f]\<rparr>)\<rparr>"

definition run_launch :: "string \<Rightarrow> bulk_run \<Rightarrow> bulk \<Rightarrow> bulk option" where
  "run_launch jobID r b =
     (case run_waiting r of
        [] \<Rightarrow> None
      | srv # rest \<Rightarrow>
          if length (run_flying r) < maxConcurrency
          then Some (b\<lparr>bk_runs := (bk_runs b)(jobID \<mapsto> r\<lparr>run_waiting := rest, run_flying := run_flying r @ [(srv, Runs)]\<rparr>)\<rparr>)
          else None)"

definition run_store ::
  "aead \<Rightarrow> duration \<Rightarrow> host_env \<Rightarrow> bool \<Rightarrow> string \<Rightarrow> bulk_job \<Rightarrow> bulk_run \<Rightarrow> nat \<Rightarrow> bulk \<Rightarrow> bulk option" where
  "run_store ci timeout env db_fails jobID job r k b =
     (case run_flying r ! k of
        (srv, Runs) \<Rightarrow>
          (case runOne ci timeout env jobID srv (bj_Command job) (bj_Script job) of
             None \<Rightarrow> None
           | Some res \<Rightarrow> Some (set_flight jobID r k (srv, Stored res) (store db_fails res b)))
      | _ \<Rightarrow> None)"

text \<open>\<open>publish\<close>: the copy of the subscribers made under the lock, then one send after the other without it.\<close>

definition publish_copy :: "string \<Rightarrow> bulk_run \<Rightarrow> nat \<Rightarrow> bulk \<Rightarrow> bulk option" where
  "publish_copy jobID r k b =
     (case run_flying r ! k of
        (srv, Stored res) \<Rightarrow> Some (set_flight jobID r k (srv, Sends res (bk_subs b jobID)) b)
      | _ \<Rightarrow> None)"

definition publish_send :: "string \<Rightarrow> bulk_run \<Rightarrow> nat \<Rightarrow> bulk \<Rightarrow> bulk option" where
  "publish_send jobID r k b =
     (case run_flying r ! k of
        (srv, Sends res (c # cs)) \<Rightarrow>
          Some (set_flight jobID r k (srv, Sends res cs) (bulk_do (send_at res c (bk_chans b)) b))
      | _ \<Rightarrow> None)"

text \<open>The goroutine returns: \<^verbatim>\<open><-sem\<close> and \<^verbatim>\<open>wg.Done()\<close>.\<close>

definition host_done :: "string \<Rightarrow> bulk_run \<Rightarrow> nat \<Rightarrow> bulk \<Rightarrow> bulk option" where
  "host_done jobID r k b =
     (case run_flying r ! k of
        (srv, Sends res []) \<Rightarrow>
          Some (b\<lparr>bk_runs := (bk_runs b)(jobID \<mapsto> r\<lparr>run_flying := take k (run_flying r) @ drop (Suc k) (run_flying r)\<rparr>)\<rparr>)
      | _ \<Rightarrow> None)"

text \<open>\<^verbatim>\<open>wg.Wait()\<close> and \<open>finish\<close>: the job is marked done; the subscribers are read and deleted under the lock; their
  channels are closed without it.\<close>

definition finish_mark :: "bool \<Rightarrow> string \<Rightarrow> bulk_run \<Rightarrow> bulk \<Rightarrow> bulk option" where
  "finish_mark db_fails jobID r b =
     (if run_waiting r = [] \<and> run_flying r = [] \<and> run_ending r = Works
      then Some ((if db_fails then b
                  else b\<lparr>bk_jobs := (bk_jobs b)(jobID := map_option (bj_Status_update (\<lambda>_. ''done'')) (bk_jobs b jobID))\<rparr>)
                 \<lparr>bk_runs := (bk_runs b)(jobID \<mapsto> r\<lparr>run_ending := Marked\<rparr>)\<rparr>)
      else None)"

definition finish_take :: "string \<Rightarrow> bulk_run \<Rightarrow> bulk \<Rightarrow> bulk option" where
  "finish_take jobID r b =
     (if run_ending r = Marked
      then Some (b\<lparr>bk_subs := (bk_subs b)(jobID := []),
                   bk_runs := (bk_runs b)(jobID \<mapsto> r\<lparr>run_ending := Closes (bk_subs b jobID)\<rparr>)\<rparr>)
      else None)"

definition finish_close :: "string \<Rightarrow> bulk_run \<Rightarrow> bulk \<Rightarrow> bulk option" where
  "finish_close jobID r b =
     (case run_ending r of
        Closes (c # cs) \<Rightarrow>
          Some ((bulk_do (close_at c (bk_chans b)) b)\<lparr>bk_runs := (bk_runs b)(jobID \<mapsto> r\<lparr>run_ending := Closes cs\<rparr>)\<rparr>)
      | _ \<Rightarrow> None)"

definition run_return :: "string \<Rightarrow> bulk_run \<Rightarrow> bulk \<Rightarrow> bulk option" where
  "run_return jobID r b =
     (if run_ending r = Closes [] then Some (b\<lparr>bk_runs := (bk_runs b)(jobID := None)\<rparr>) else None)"

section \<open>The API\<close>

record bulkReq =
  bq_GroupID :: string
  bq_Command :: string
  bq_Script :: bool

text \<open>\<open>CreateBulk\<close>: \<open>ins\<close> is the id the database draws, or \<open>None\<close> when it refuses the row.\<close>

definition CreateBulk ::
  "bulkReq option \<Rightarrow> claims option \<Rightarrow> string option \<Rightarrow> bulk \<Rightarrow> (string \<times> string) response \<times> bulk" where
  "CreateBulk req cl ins b =
     (case req of
        None \<Rightarrow> (writeErr StatusBadRequest ''group_id and command required'', b)
      | Some rq \<Rightarrow>
          if bq_GroupID rq = [] \<or> bq_Command rq = [] then
            (writeErr StatusBadRequest ''group_id and command required'', b)
          else
            (case ins of
               None \<Rightarrow> (writeErr StatusBadRequest ''could not create job'', b)
             | Some jobID \<Rightarrow>
                 let job = \<lparr>bj_UserID = map_option cl_UserID cl, bj_GroupID = bq_GroupID rq,
                            bj_Command = bq_Command rq, bj_Script = bq_Script rq, bj_Status = ''running''\<rparr>;
                     b1 = b\<lparr>bk_jobs := (bk_jobs b)(jobID \<mapsto> job), bk_spawned := bk_spawned b @ [jobID]\<rparr>
                 in (writeJSON StatusCreated (jobID, ''running''), b1)))"

text \<open>\<open>bulkResults\<close>: rows that do not scan are skipped.\<close>

definition bulkResults :: "string \<Rightarrow> bulk \<Rightarrow> bulk_result list" where
  "bulkResults jobID b = filter (\<lambda>r. br_JobID r = jobID) (bk_results b)"

definition GetBulk :: "bool \<Rightarrow> string \<Rightarrow> bulk \<Rightarrow> (bulk_job \<times> bulk_result list) response" where
  "GetBulk db_fails jobID b =
     (case bk_jobs b jobID of
        None \<Rightarrow> writeErr StatusNotFound ''job not found''
      | Some job \<Rightarrow>
          if db_fails then writeErr StatusNotFound ''job not found''
          else writeJSON StatusOK (job, bulkResults jobID b))"

text \<open>\<open>StreamBulk\<close>: subscribing and replaying, then one turn of its loop.\<close>

datatype sse = SSEData bulk_result | SSEDone

definition StreamBulk :: "string \<Rightarrow> bulk \<Rightarrow> sse list \<times> nat \<times> bulk" where
  "StreamBulk jobID b =
     (case Subscribe jobID b of (c, b1) \<Rightarrow> (map SSEData (bulkResults jobID b1), c, b1))"

datatype stream_turn = SGone | SEvents "sse list" bool \<comment> \<open>events sent, whether it returned\<close> | SWaits

definition stream_turn :: "bool \<Rightarrow> string \<Rightarrow> nat \<Rightarrow> bulk \<Rightarrow> stream_turn \<times> bulk" where
  "stream_turn gone jobID c b =
     (if gone then (SGone, cancel_sub jobID c b)
      else case bk_chans b c of
             None \<Rightarrow> (SWaits, b)
           | Some ch \<Rightarrow>
               (case recv_chan ch of
                  (Got res, ch') \<Rightarrow> (SEvents [SSEData res] False, b\<lparr>bk_chans := (bk_chans b)(c \<mapsto> ch')\<rparr>)
                | (Closed, ch') \<Rightarrow> (SEvents [SSEDone] True, cancel_sub jobID c b)
                | (Blocks, ch') \<Rightarrow> (SWaits, b)))"

section \<open>Interleavings\<close>

text \<open>The world a run of the executor meets: the cipher and the configured timeout, what each host does for each job, and
  whether the database may refuse a result or the update that marks the job.  \<open>run_step\<close> is one step of the goroutines of \<open>Run\<close> for one job, \<open>client_step\<close>
  one of anybody else.\<close>

record bulk_world =
  bw_cipher :: aead
  bw_timeout :: duration
  bw_host :: "string \<Rightarrow> server \<Rightarrow> host_env"
  bw_refuses :: bool
  bw_refuses_mark :: bool

inductive run_step :: "bulk_world \<Rightarrow> string \<Rightarrow> bulk \<Rightarrow> bulk \<Rightarrow> bool" for W :: bulk_world and j :: string where
  launch: "bk_runs b j = Some r \<Longrightarrow> run_launch j r b = Some b' \<Longrightarrow> run_step W j b b'"
| store: "bk_runs b j = Some r \<Longrightarrow> bk_jobs b j = Some job \<Longrightarrow> k < length (run_flying r) \<Longrightarrow> (df \<Longrightarrow> bw_refuses W) \<Longrightarrow>
    run_store (bw_cipher W) (bw_timeout W) (bw_host W j (fst (run_flying r ! k))) df j job r k b = Some b' \<Longrightarrow> run_step W j b b'"
| copy: "bk_runs b j = Some r \<Longrightarrow> k < length (run_flying r) \<Longrightarrow> publish_copy j r k b = Some b' \<Longrightarrow> run_step W j b b'"
| send: "bk_runs b j = Some r \<Longrightarrow> k < length (run_flying r) \<Longrightarrow> publish_send j r k b = Some b' \<Longrightarrow> run_step W j b b'"
| return_host: "bk_runs b j = Some r \<Longrightarrow> k < length (run_flying r) \<Longrightarrow> host_done j r k b = Some b' \<Longrightarrow> run_step W j b b'"
| mark: "bk_runs b j = Some r \<Longrightarrow> (df \<Longrightarrow> bw_refuses_mark W) \<Longrightarrow> finish_mark df j r b = Some b' \<Longrightarrow> run_step W j b b'"
| take_subs: "bk_runs b j = Some r \<Longrightarrow> finish_take j r b = Some b' \<Longrightarrow> run_step W j b b'"
| close_sub: "bk_runs b j = Some r \<Longrightarrow> finish_close j r b = Some b' \<Longrightarrow> run_step W j b b'"
| return_run: "bk_runs b j = Some r \<Longrightarrow> run_return j r b = Some b' \<Longrightarrow> run_step W j b b'"

inductive client_step :: "bulk \<Rightarrow> bulk \<Rightarrow> bool" where
  create: "(\<And>j. ins = Some j \<Longrightarrow> bk_jobs b j = None) \<Longrightarrow> client_step b (snd (CreateBulk req cl ins b))"
| begin_run: "j \<in> set (bk_spawned b) \<Longrightarrow> client_step b (run_begin q j b)"
| subscribe: "client_step b (snd (Subscribe j b))"
| cancel: "client_step b (cancel_sub j c b)"
| turn: "client_step b (snd (stream_turn gone j c b))"

inductive bulk_step :: "bulk_world \<Rightarrow> bulk \<Rightarrow> bulk \<Rightarrow> bool" for W :: bulk_world where
  by_run: "run_step W j b c \<Longrightarrow> bulk_step W b c"
| by_client: "client_step b c \<Longrightarrow> bulk_step W b c"

abbreviation bulk_steps :: "bulk_world \<Rightarrow> bulk \<Rightarrow> bulk \<Rightarrow> bool" where
  "bulk_steps W \<equiv> (bulk_step W)\<^sup>*\<^sup>*"

inductive_cases run_stepE: "run_step W j b b'"
inductive_cases client_stepE: "client_step b b'"
inductive_cases bulk_stepE: "bulk_step W b b'"

definition NewExecutor :: bulk where
  "NewExecutor = \<lparr>bk_chans = Map.empty, bk_subs = (\<lambda>_. []), bk_next = 0, bk_jobs = Map.empty, bk_results = [],
     bk_spawned = [], bk_runs = Map.empty, bk_panic = False\<rparr>"

section \<open>No send on a closed channel\<close>

text \<open>The channels a goroutine of a job may still send to or close, beside those on the map.\<close>

fun to_send :: "phase \<Rightarrow> nat list" where
  "to_send (Sends res cs) = cs"
| "to_send _ = []"

fun to_close :: "ending \<Rightarrow> nat list" where
  "to_close (Closes cs) = cs"
| "to_close _ = []"

definition run_chans :: "bulk_run \<Rightarrow> nat set" where
  "run_chans r = (\<Union>f \<in> set (run_flying r). set (to_send (snd f))) \<union> set (to_close (run_ending r))"

definition held :: "bulk \<Rightarrow> string \<Rightarrow> nat set" where
  "held b j = set (bk_subs b j) \<union> (case bk_runs b j of None \<Rightarrow> {} | Some r \<Rightarrow> run_chans r)"

text \<open>Every channel somebody holds is open and belongs to one job; a job closes channels only when none of its hosts is
  left, and never one that is on the map.\<close>

definition chans_inv :: "bulk \<Rightarrow> bool" where
  "chans_inv b \<longleftrightarrow>
     (\<forall>j. \<forall>c \<in> held b j. chan_open (bk_chans b) c)
     \<and> (\<forall>i j. i \<noteq> j \<longrightarrow> held b i \<inter> held b j = {})
     \<and> (\<forall>j. distinct (bk_subs b j))
     \<and> (\<forall>c. bk_chans b c \<noteq> None \<longrightarrow> c < bk_next b)"

definition run_inv :: "nat list \<Rightarrow> bulk_run \<Rightarrow> bool" where
  "run_inv subs r \<longleftrightarrow>
     length (run_flying r) \<le> maxConcurrency
     \<and> (run_ending r \<noteq> Works \<longrightarrow> run_waiting r = [] \<and> run_flying r = [])
     \<and> distinct (to_close (run_ending r)) \<and> set (to_close (run_ending r)) \<inter> set subs = {}"

definition runs_inv :: "bulk \<Rightarrow> bool" where
  "runs_inv b \<longleftrightarrow>
     (\<forall>j r. bk_runs b j = Some r \<longrightarrow> run_inv (bk_subs b j) r \<and> j \<notin> set (bk_spawned b))
     \<and> (\<forall>j. bk_runs b j \<noteq> None \<or> j \<in> set (bk_spawned b) \<longrightarrow> bk_jobs b j \<noteq> None)
     \<and> (\<forall>res \<in> set (bk_results b). bk_jobs b (br_JobID res) \<noteq> None \<and> br_JobID res \<notin> set (bk_spawned b))"

definition bulk_inv :: "bulk \<Rightarrow> bool" where
  "bulk_inv b \<longleftrightarrow> \<not> bk_panic b \<and> chans_inv b \<and> runs_inv b"

lemma bulk_invD:
  assumes "bulk_inv b" "bk_runs b j = Some r"
  shows "run_inv (bk_subs b j) r" "j \<notin> set (bk_spawned b)" "bk_jobs b j \<noteq> None" "run_chans r \<subseteq> held b j"
  using assms unfolding bulk_inv_def runs_inv_def held_def by auto

lemma held_open: "bulk_inv b \<Longrightarrow> c \<in> held b j \<Longrightarrow> chan_open (bk_chans b) c"
  by (auto simp: bulk_inv_def chans_inv_def)

lemma held_disjoint: "bulk_inv b \<Longrightarrow> c \<in> held b i \<Longrightarrow> c \<in> held b j \<Longrightarrow> i = j"
  unfolding bulk_inv_def chans_inv_def by blast

lemma held_upd:
  "held (b\<lparr>bk_runs := (bk_runs b)(i := x)\<rparr>) j =
     (if j = i then set (bk_subs b j) \<union> (case x of None \<Rightarrow> {} | Some r \<Rightarrow> run_chans r) else held b j)"
  by (simp add: held_def)

text \<open>A step that gives nobody a new channel and closes none.\<close>

lemma chans_inv_shrink:
  assumes "chans_inv b" "\<And>j. held b' j \<subseteq> held b j" "\<And>j. distinct (bk_subs b' j)"
    and "\<And>c. chan_open (bk_chans b') c = chan_open (bk_chans b) c" "dom (bk_chans b') = dom (bk_chans b)" "bk_next b' = bk_next b"
  shows "chans_inv b'"
  unfolding chans_inv_def
proof (intro conjI allI impI ballI)
  show "chan_open (bk_chans b') c" if "c \<in> held b' j" for j c
    using that assms(1,2,4) unfolding chans_inv_def by blast
  show "held b' i \<inter> held b' j = {}" if "i \<noteq> j" for i j
    using that assms(1,2) unfolding chans_inv_def by blast
  show "distinct (bk_subs b' j)" for j by (rule assms(3))
  show "c < bk_next b'" if "bk_chans b' c \<noteq> None" for c
    using that assms(1,5,6) unfolding chans_inv_def by (metis domIff)
qed

lemma run_inv_upd:
  assumes "bulk_inv b" "bk_runs b j = Some r0" "run_inv (bk_subs b j) r" "run_chans r \<subseteq> held b j"
  shows "bulk_inv (b\<lparr>bk_runs := (bk_runs b)(j \<mapsto> r)\<rparr>)"
proof -
  have "chans_inv (b\<lparr>bk_runs := (bk_runs b)(j \<mapsto> r)\<rparr>)"
    by (rule chans_inv_shrink [of b]) (use assms in \<open>auto simp: bulk_inv_def chans_inv_def held_upd, auto simp: held_def\<close>)
  then show ?thesis using assms unfolding bulk_inv_def runs_inv_def by auto
qed

lemma flight_chans:
  "k < length fs \<Longrightarrow> (\<Union>f \<in> set (fs[k := g]). set (to_send (snd f))) \<subseteq>
     (\<Union>f \<in> set fs. set (to_send (snd f))) \<union> set (to_send (snd g))"
  using set_update_subset_insert [of fs k g] by auto

lemma bulk_inv_flight:
  assumes "bulk_inv b" "bk_runs b j = Some r" "k < length (run_flying r)" "set (to_send p) \<subseteq> held b j"
  shows "bulk_inv (set_flight j r k (srv, p) b)"
  unfolding set_flight_def
proof (rule run_inv_upd [OF assms(1,2)])
  have "(\<Union>f \<in> set ((run_flying r)[k := (srv, p)]). set (to_send (snd f))) \<subseteq>
      (\<Union>f \<in> set (run_flying r). set (to_send (snd f))) \<union> set (to_send p)"
    using flight_chans [OF assms(3), of "(srv, p)"] by simp
  then show "run_chans (r\<lparr>run_flying := (run_flying r)[k := (srv, p)]\<rparr>) \<subseteq> held b j"
    using bulk_invD(4) [OF assms(1,2)] assms(4) by (auto simp: run_chans_def)
  show "run_inv (bk_subs b j) (r\<lparr>run_flying := (run_flying r)[k := (srv, p)]\<rparr>)"
    using bulk_invD(1) [OF assms(1,2)] assms(3) by (auto simp: run_inv_def)
qed

lemma flight_in: "k < length (run_flying r) \<Longrightarrow> run_flying r ! k = (srv, p) \<Longrightarrow> set (to_send p) \<subseteq> run_chans r"
proof -
  assume "k < length (run_flying r)" "run_flying r ! k = (srv, p)"
  then have "(srv, p) \<in> set (run_flying r)" using nth_mem [of k "run_flying r"] by simp
  then show ?thesis by (force simp: run_chans_def)
qed

lemma bulk_inv_chan:
  assumes "bulk_inv b" "bk_chans b c = Some ch" "cclosed ch' = cclosed ch"
  shows "bulk_inv (b\<lparr>bk_chans := (bk_chans b)(c \<mapsto> ch')\<rparr>)"
proof -
  have "chans_inv (b\<lparr>bk_chans := (bk_chans b)(c \<mapsto> ch')\<rparr>)"
    by (rule chans_inv_shrink [of b])
       (use assms in \<open>auto simp: bulk_inv_def chans_inv_def held_def chan_open_def\<close>)
  then show ?thesis using assms(1) by (auto simp: bulk_inv_def runs_inv_def)
qed

lemma bulk_inv_send:
  assumes "bulk_inv b" "chan_open (bk_chans b) c"
  shows "bulk_inv (bulk_do (send_at res c (bk_chans b)) b)"
proof -
  obtain ch where "bk_chans b c = Some ch" "\<not> cclosed ch" using assms(2) by (rule chan_openE)
  then show ?thesis using bulk_inv_chan [OF assms(1), of c ch "offer res ch"] by (simp add: send_at_open bulk_do_def)
qed

lemma bulk_do_frame [simp]:
  "bk_runs (bulk_do h b) = bk_runs b" "bk_subs (bulk_do h b) = bk_subs b" "bk_jobs (bulk_do h b) = bk_jobs b"
  "bk_results (bulk_do h b) = bk_results b" "bk_spawned (bulk_do h b) = bk_spawned b" "held (bulk_do h b) = held b"
  by (auto simp: bulk_do_def held_def split: option.split)

lemma store_frame [simp]:
  "bk_runs (store df res b) = bk_runs b" "bk_subs (store df res b) = bk_subs b" "bk_jobs (store df res b) = bk_jobs b"
  "bk_spawned (store df res b) = bk_spawned b" "bk_chans (store df res b) = bk_chans b" "held (store df res b) = held b"
  by (auto simp: store_def held_def)

lemma bulk_inv_store:
  "bulk_inv b \<Longrightarrow> bk_jobs b (br_JobID res) \<noteq> None \<Longrightarrow> br_JobID res \<notin> set (bk_spawned b) \<Longrightarrow> bulk_inv (store df res b)"
  by (auto simp: store_def bulk_inv_def chans_inv_def runs_inv_def held_def)

lemma runOne_ids: "runOne ci tmo env j srv cmd scr = Some res \<Longrightarrow> br_JobID res = j \<and> br_ServerID res = sv_ID srv"
  by (auto simp: runOne_def Let_def split: option.splits prod.splits run_outcome.splits reply.splits)

text \<open>Closing a channel: it is nobody's any more.\<close>

lemma bulk_inv_close:
  assumes "bulk_inv b" "bk_runs b j = Some r" "run_ending r = Closes (c # cs)"
  shows "bulk_inv ((bulk_do (close_at c (bk_chans b)) b)\<lparr>bk_runs := (bk_runs b)(j \<mapsto> r\<lparr>run_ending := Closes cs\<rparr>)\<rparr>)"
proof -
  have inv: "run_flying r = []" "run_waiting r = []" "c \<notin> set cs" "distinct cs" "set (c # cs) \<inter> set (bk_subs b j) = {}"
    using bulk_invD(1) [OF assms(1,2)] assms(3) by (auto simp: run_inv_def)
  have c: "c \<in> held b j" "set cs \<subseteq> held b j" using assms(2,3) by (auto simp: held_def run_chans_def)
  obtain ch where ch: "bk_chans b c = Some ch" "\<not> cclosed ch" using held_open [OF assms(1) c(1)] by (rule chan_openE)
  let ?b = "b\<lparr>bk_chans := (bk_chans b)(c \<mapsto> ch\<lparr>cclosed := True\<rparr>), bk_runs := (bk_runs b)(j \<mapsto> r\<lparr>run_ending := Closes cs\<rparr>)\<rparr>"
  have hold: "held ?b i = (if i = j then set (bk_subs b j) \<union> set cs else held b i)" for i
    using inv(1) by (simp add: held_def run_chans_def)
  have gone: "c \<notin> held ?b i" for i
    using inv held_disjoint [OF assms(1) c(1), of i] unfolding hold by auto
  have sub: "held ?b i \<subseteq> held b i" for i using c(2) unfolding hold by (auto simp: held_def)
  have "chans_inv ?b"
    unfolding chans_inv_def
  proof (intro conjI allI impI ballI)
    fix i d
    assume d: "d \<in> held ?b i"
    then have "d \<noteq> c" "chan_open (bk_chans b) d" using gone sub held_open [OF assms(1)] by blast+
    then show "chan_open (bk_chans ?b) d" by (simp add: chan_open_def)
  next
    fix i i' :: string
    assume "i \<noteq> i'"
    then show "held ?b i \<inter> held ?b i' = {}" using sub held_disjoint [OF assms(1)] by blast
  qed (use assms(1) ch in \<open>auto simp: bulk_inv_def chans_inv_def split: if_splits\<close>)
  with assms inv ch show ?thesis
    by (auto simp: bulk_do_def close_at_open bulk_inv_def runs_inv_def run_inv_def)
qed

lemma bulk_inv_job:
  assumes "bulk_inv b"
  shows "bulk_inv (b\<lparr>bk_jobs := (bk_jobs b)(j := map_option f (bk_jobs b j))\<rparr>)"
proof -
  let ?b = "b\<lparr>bk_jobs := (bk_jobs b)(j := map_option f (bk_jobs b j))\<rparr>"
  have "bk_jobs ?b i = None \<longleftrightarrow> bk_jobs b i = None" for i by simp
  moreover have "held ?b = held b" by (simp add: held_def fun_eq_iff)
  ultimately show ?thesis using assms unfolding bulk_inv_def chans_inv_def runs_inv_def by simp
qed

lemma bulk_inv_take:
  assumes "bulk_inv b" "bk_runs b j = Some r" "run_ending r = Marked"
  shows "bulk_inv (b\<lparr>bk_subs := (bk_subs b)(j := []), bk_runs := (bk_runs b)(j \<mapsto> r\<lparr>run_ending := Closes (bk_subs b j)\<rparr>)\<rparr>)"
proof -
  have inv: "run_flying r = []" "run_waiting r = []" "distinct (bk_subs b j)"
    using bulk_invD(1) [OF assms(1,2)] assms by (auto simp: run_inv_def bulk_inv_def chans_inv_def)
  let ?b = "b\<lparr>bk_subs := (bk_subs b)(j := []), bk_runs := (bk_runs b)(j \<mapsto> r\<lparr>run_ending := Closes (bk_subs b j)\<rparr>)\<rparr>"
  have "held ?b i = held b i" for i
    using inv assms(2,3) by (auto simp: held_def run_chans_def)
  then have "chans_inv ?b" using assms(1) by (simp add: bulk_inv_def chans_inv_def)
  with assms inv show ?thesis by (auto simp: bulk_inv_def runs_inv_def run_inv_def)
qed

lemma bulk_inv_run:
  assumes "run_step W j b b'" "bulk_inv b"
  shows "bulk_inv b'"
  using assms(1)
proof (cases rule: run_step.cases)
  case (launch r)
  have "bulk_inv (b\<lparr>bk_runs := (bk_runs b)(j \<mapsto> r\<lparr>run_waiting := rest, run_flying := run_flying r @ [(srv, Runs)]\<rparr>)\<rparr>)"
    if "run_waiting r = srv # rest" "length (run_flying r) < maxConcurrency" for srv rest
    by (rule run_inv_upd [OF assms(2) launch(1)])
       (use bulk_invD(1,4) [OF assms(2) launch(1)] that in \<open>auto simp: run_inv_def run_chans_def\<close>)
  with launch(2) show ?thesis by (auto simp: run_launch_def split: list.splits if_splits)
next
  case (store r job k df)
  note inv = bulk_invD [OF assms(2) store(1)]
  obtain srv res where f: "run_flying r ! k = (srv, Runs)"
    and res: "runOne (bw_cipher W) (bw_timeout W) (bw_host W j srv) j srv (bj_Command job) (bj_Script job) = Some res"
    and b': "b' = set_flight j r k (srv, Stored res) (Bulk.store df res b)"
    using store(5) by (auto simp: run_store_def split: prod.splits phase.splits option.splits)
  have "bulk_inv (Bulk.store df res b)" using runOne_ids [OF res] inv assms(2) by (auto intro: bulk_inv_store)
  then show ?thesis using bulk_inv_flight [of "Bulk.store df res b" j r k "Stored res"] store(1,3) by (simp add: b')
next
  case (copy r k)
  then show ?thesis
    using bulk_inv_flight [OF assms(2) copy(1,2), of "Sends res (bk_subs b j)" for res]
    by (auto simp: publish_copy_def held_def split: prod.splits phase.splits)
next
  case (send r k)
  then obtain srv res c cs where f: "run_flying r ! k = (srv, Sends res (c # cs))"
    and b': "b' = set_flight j r k (srv, Sends res cs) (bulk_do (send_at res c (bk_chans b)) b)"
    by (auto simp: publish_send_def split: prod.splits phase.splits list.splits)
  have c: "set (c # cs) \<subseteq> held b j"
    using flight_in [OF send(2) f] bulk_invD(4) [OF assms(2) send(1)] by auto
  then have "bulk_inv (bulk_do (send_at res c (bk_chans b)) b)"
    using bulk_inv_send [OF assms(2) held_open [OF assms(2), of c j]] by simp
  then show ?thesis
    using bulk_inv_flight [of "bulk_do (send_at res c (bk_chans b)) b" j r k "Sends res cs"] send(1,2) c by (simp add: b')
next
  case (return_host r k)
  have "bulk_inv (b\<lparr>bk_runs := (bk_runs b)(j \<mapsto> r\<lparr>run_flying := take k (run_flying r) @ drop (Suc k) (run_flying r)\<rparr>)\<rparr>)"
    by (rule run_inv_upd [OF assms(2) return_host(1)])
       (use bulk_invD(1,4) [OF assms(2) return_host(1)] return_host(2) in
         \<open>auto simp: run_inv_def run_chans_def dest!: in_set_takeD in_set_dropD\<close>)
  with return_host(3) show ?thesis by (auto simp: host_done_def split: prod.splits phase.splits list.splits)
next
  case (mark r df)
  let ?b = "b\<lparr>bk_jobs := (bk_jobs b)(j := map_option (bj_Status_update (\<lambda>_. ''done'')) (bk_jobs b j))\<rparr>"
  have "bulk_inv (c\<lparr>bk_runs := (bk_runs c)(j \<mapsto> r\<lparr>run_ending := Marked\<rparr>)\<rparr>)"
    if "bulk_inv c" "bk_runs c j = Some r" "run_waiting r = []" "run_flying r = []" for c
    by (rule run_inv_upd [OF that(1,2)])
       (use bulk_invD(1) [OF that(1,2)] that in \<open>auto simp: run_inv_def run_chans_def\<close>)
  from this [of b] this [of ?b] mark assms(2) bulk_inv_job [OF assms(2), of j] show ?thesis
    by (auto simp: finish_mark_def split: if_splits)
next
  case (take_subs r)
  then show ?thesis using bulk_inv_take [OF assms(2) take_subs(1)] by (auto simp: finish_take_def split: if_splits)
next
  case (close_sub r)
  then show ?thesis
    using bulk_inv_close [OF assms(2) close_sub(1)] by (auto simp: finish_close_def split: ending.splits list.splits)
next
  case (return_run r)
  have "chans_inv (b\<lparr>bk_runs := (bk_runs b)(j := None)\<rparr>)"
    by (rule chans_inv_shrink [of b]) (use assms(2) in \<open>auto simp: bulk_inv_def chans_inv_def held_upd, simp add: held_def\<close>)
  with return_run(2) assms(2) show ?thesis by (auto simp: run_return_def bulk_inv_def runs_inv_def split: if_splits)
qed

lemma bulk_inv_Subscribe:
  assumes "bulk_inv b"
  shows "bulk_inv (snd (Subscribe j b))"
proof -
  let ?b = "snd (Subscribe j b)"
  have fresh: "bk_next b \<notin> held b i" for i
    using assms held_open [OF assms, of "bk_next b" i] unfolding bulk_inv_def chans_inv_def chan_open_def
    by (metis less_irrefl option.case(1))
  have hold: "held ?b i = (if i = j then insert (bk_next b) (held b j) else held b i)" for i
    by (simp add: Subscribe_def Let_def held_def)
  have "chans_inv ?b"
    unfolding chans_inv_def hold
  proof (intro conjI allI impI ballI)
    fix i c
    assume "c \<in> (if i = j then insert (bk_next b) (held b j) else held b i)"
    then show "chan_open (bk_chans ?b) c"
      using held_open [OF assms] by (auto simp: Subscribe_def Let_def chan_open_def make_chan_def split: if_splits)
  next
    fix i i' :: string
    assume "i \<noteq> i'"
    then show "(if i = j then insert (bk_next b) (held b j) else held b i) \<inter>
        (if i' = j then insert (bk_next b) (held b j) else held b i') = {}"
      using fresh held_disjoint [OF assms] by (auto split: if_splits)
  next
    fix i
    show "distinct (bk_subs ?b i)"
      using assms fresh [of j] by (auto simp: Subscribe_def Let_def bulk_inv_def chans_inv_def held_def)
  next
    fix c
    assume "bk_chans ?b c \<noteq> None"
    then show "c < bk_next ?b"
      using assms by (auto simp: Subscribe_def Let_def bulk_inv_def chans_inv_def less_Suc_eq split: if_splits)
  qed
  moreover have "runs_inv ?b"
    using assms fresh [of j] unfolding bulk_inv_def runs_inv_def
    by (auto simp: Subscribe_def Let_def run_inv_def held_def run_chans_def)
  ultimately show ?thesis using assms by (simp add: bulk_inv_def Subscribe_def Let_def)
qed

lemma bulk_inv_cancel:
  assumes "bulk_inv b"
  shows "bulk_inv (cancel_sub j c b)"
proof -
  have sub: "set (remove1 c (bk_subs b j)) \<subseteq> set (bk_subs b j)" by (rule set_remove1_subset)
  have "chans_inv (cancel_sub j c b)"
    by (rule chans_inv_shrink [of b])
       (use assms sub in \<open>auto simp: cancel_sub_def held_def bulk_inv_def chans_inv_def\<close>)
  with assms sub show ?thesis
    unfolding bulk_inv_def runs_inv_def cancel_sub_def run_inv_def by (simp, blast)
qed

lemma recv_closed: "recv_chan ch = (x, ch') \<Longrightarrow> cclosed ch' = cclosed ch"
  by (auto simp: recv_chan_def split: list.splits if_splits)

lemma bulk_inv_begin:
  assumes "bulk_inv b" "j \<in> set (bk_spawned b)"
  shows "bulk_inv (run_begin q j b)"
proof -
  have none: "bk_runs b j = None" using assms unfolding bulk_inv_def runs_inv_def by (cases "bk_runs b j") auto
  have inv: "chans_inv b" "runs_inv b" "\<not> bk_panic b" using assms(1) by (simp_all add: bulk_inv_def)
  have hold: "held (run_begin q j b) i = held b i" for i
    using none by (simp add: run_begin_def held_def run_chans_def)
  have same: "bk_chans (run_begin q j b) = bk_chans b" "bk_subs (run_begin q j b) = bk_subs b"
      "bk_next (run_begin q j b) = bk_next b" "bk_panic (run_begin q j b) = bk_panic b"
    by (simp_all add: run_begin_def)
  have "chans_inv (run_begin q j b)" using inv(1) unfolding chans_inv_def hold same .
  moreover have "runs_inv (run_begin q j b)"
    using inv(2) assms(2) unfolding runs_inv_def by (auto simp: run_begin_def run_inv_def)
  ultimately show ?thesis using inv(3) unfolding bulk_inv_def same by simp
qed

lemma bulk_inv_client:
  assumes "client_step b b'" "bulk_inv b"
  shows "bulk_inv b'"
  using assms(1)
proof (cases rule: client_step.cases)
  case (create ins req cl)
  then show ?thesis
    using assms(2) by (auto simp: CreateBulk_def Let_def bulk_inv_def chans_inv_def runs_inv_def held_def split: option.split)
next
  case (turn gone j c)
  with assms(2) show ?thesis
    by (auto simp: stream_turn_def intro: bulk_inv_cancel bulk_inv_chan dest: recv_closed
        split: option.split recv.split prod.split)
qed (use assms(2) in \<open>auto intro: bulk_inv_Subscribe bulk_inv_cancel bulk_inv_begin\<close>)

lemma bulk_inv_step: "bulk_step W b b' \<Longrightarrow> bulk_inv b \<Longrightarrow> bulk_inv b'"
  by (cases rule: bulk_step.cases) (auto intro: bulk_inv_run bulk_inv_client)

lemma bulk_inv_steps: "bulk_steps W a b \<Longrightarrow> bulk_inv a \<Longrightarrow> bulk_inv b"
  by (induction rule: rtranclp_induct) (auto intro: bulk_inv_step)

lemma bulk_inv_NewExecutor: "bulk_inv NewExecutor"
  by (simp add: bulk_inv_def chans_inv_def runs_inv_def NewExecutor_def held_def)

text \<open>C34: However many jobs run, and whatever their hosts, their subscribers and the database do, the executor never sends on
  or closes a closed channel, although it sends and closes outside its lock, and no job ever has more than fifty hosts in
  flight.\<close>

theorem bulk_bounded_and_safe:
  assumes "bulk_steps W NewExecutor b"
  shows "\<not> bk_panic b \<and> (\<forall>j r. bk_runs b j = Some r \<longrightarrow> length (run_flying r) \<le> 50)"
  using bulk_inv_steps [OF assms bulk_inv_NewExecutor] bulk_invD(1) [of b]
  by (auto simp: bulk_inv_def run_inv_def maxConcurrency_def)

section \<open>Every job ends\<close>

text \<open>What is left to do for a job: first the phases its goroutines have still to go through, then, within these, the
  channels still to be sent to or closed.\<close>

fun phase_rank :: "phase \<Rightarrow> nat" where
  "phase_rank Runs = 3"
| "phase_rank (Stored res) = 2"
| "phase_rank (Sends res cs) = 1"

fun ending_rank :: "ending \<Rightarrow> nat" where
  "ending_rank Works = 3"
| "ending_rank Marked = 2"
| "ending_rank (Closes cs) = 1"

definition run_work :: "bulk_run \<Rightarrow> nat \<times> nat" where
  "run_work r =
     (4 * length (run_waiting r) + sum_list (map (phase_rank \<circ> snd) (run_flying r)) + ending_rank (run_ending r),
      sum_list (map (length \<circ> to_send \<circ> snd) (run_flying r)) + length (to_close (run_ending r)))"

definition work :: "string \<Rightarrow> bulk \<Rightarrow> nat \<times> nat" where
  "work j b = (case bk_runs b j of None \<Rightarrow> (0, 0) | Some r \<Rightarrow> run_work r)"

abbreviation less_work :: "((nat \<times> nat) \<times> (nat \<times> nat)) set" where
  "less_work \<equiv> less_than <*lex*> less_than"

definition run_hosts :: "bulk_run \<Rightarrow> server set" where
  "run_hosts r = set (run_waiting r) \<union> fst ` set (run_flying r)"

lemma sum_list_remove:
  fixes f :: "'a \<Rightarrow> nat"
  assumes "k < length xs"
  shows "sum_list (map f xs) = f (xs ! k) + sum_list (map f (take k xs @ drop (Suc k) xs))"
proof -
  have "xs = take k xs @ xs ! k # drop (Suc k) xs" by (rule id_take_nth_drop [OF assms])
  then have "sum_list (map f xs) = sum_list (map f (take k xs @ xs ! k # drop (Suc k) xs))" by metis
  then show ?thesis by simp
qed

lemma sum_list_replace:
  fixes f :: "'a \<Rightarrow> nat"
  assumes "k < length xs"
  shows "sum_list (map f (xs[k := y])) + f (xs ! k) = sum_list (map f xs) + f y"
proof -
  have "xs[k := y] = take k xs @ y # drop (Suc k) xs" by (rule upd_conv_take_nth_drop [OF assms])
  with sum_list_remove [OF assms, of f] show ?thesis by simp
qed

text \<open>A goroutine that moves from one phase to the next leaves less work; so does one that returns.\<close>

lemma set_flight_less:
  assumes "k < length (run_flying r)" "run_flying r ! k = (srv, p)"
    and "phase_rank q < phase_rank p \<or> phase_rank q = phase_rank p \<and> length (to_send q) < length (to_send p)"
  shows "(run_work (r\<lparr>run_flying := (run_flying r)[k := (srv, q)]\<rparr>), run_work r) \<in> less_work"
  using assms sum_list_replace [OF assms(1), of "phase_rank \<circ> snd" "(srv, q)"]
    sum_list_replace [OF assms(1), of "length \<circ> to_send \<circ> snd" "(srv, q)"]
  by (auto simp: run_work_def)

lemma host_done_less:
  assumes "k < length (run_flying r)" "run_flying r ! k = (srv, Sends res [])"
  shows "(run_work (r\<lparr>run_flying := take k (run_flying r) @ drop (Suc k) (run_flying r)\<rparr>), run_work r) \<in> less_work"
  using assms sum_list_remove [OF assms(1), of "phase_rank \<circ> snd"]
  by (auto simp: run_work_def)

lemma set_flight_hosts:
  assumes "k < length (run_flying r)" "run_flying r ! k = (srv, p)"
  shows "run_hosts (r\<lparr>run_flying := (run_flying r)[k := (srv, q)]\<rparr>) \<subseteq> run_hosts r"
proof -
  have "srv \<in> fst ` set (run_flying r)" using nth_mem [OF assms(1)] assms(2) by force
  moreover have "fst ` set ((run_flying r)[k := (srv, q)]) \<subseteq> fst ` insert (srv, q) (set (run_flying r))"
    by (rule image_mono) (rule set_update_subset_insert)
  ultimately show ?thesis by (simp add: run_hosts_def) blast
qed

text \<open>What one step of a job's goroutines does to its run: nothing else is touched, work goes down and hosts do not
  come in; the run ends only from the end of \<open>finish\<close>.\<close>

definition run_after :: "bulk_run \<Rightarrow> bulk_run option \<Rightarrow> bool" where
  "run_after r x \<longleftrightarrow>
     (case x of
        None \<Rightarrow> run_ending r = Closes []
      | Some r' \<Rightarrow> (run_work r', run_work r) \<in> less_work \<and> run_hosts r' \<subseteq> run_hosts r)"

lemma set_flight_after:
  assumes "k < length (run_flying r)" "run_flying r ! k = (srv, p)"
    and "phase_rank q < phase_rank p \<or> phase_rank q = phase_rank p \<and> length (to_send q) < length (to_send p)"
  shows "run_after r (Some (r\<lparr>run_flying := (run_flying r)[k := (srv, q)]\<rparr>))"
  using set_flight_less [OF assms] set_flight_hosts [OF assms(1,2)] by (simp add: run_after_def)

lemma run_step_runs:
  assumes "run_step W j b b'"
  shows "\<exists>r x. bk_runs b j = Some r \<and> bk_runs b' = (bk_runs b)(j := x) \<and> run_after r x"
  using assms
proof (cases rule: run_step.cases)
  case (launch r)
  have "run_after r (Some (r\<lparr>run_waiting := rest, run_flying := run_flying r @ [(srv, Runs)]\<rparr>))" if "run_waiting r = srv # rest" for srv rest
    using that by (auto simp: run_after_def run_work_def run_hosts_def)
  with launch show ?thesis by (auto simp: run_launch_def split: list.splits if_splits)
next
  case (store r job k df)
  with set_flight_after [OF store(3)] show ?thesis
    by (fastforce simp: run_store_def set_flight_def split: prod.splits phase.splits option.splits)
next
  case (copy r k)
  with set_flight_after [OF copy(2)] show ?thesis
    by (fastforce simp: publish_copy_def set_flight_def split: prod.splits phase.splits)
next
  case (send r k)
  with set_flight_after [OF send(2)] show ?thesis
    by (fastforce simp: publish_send_def set_flight_def split: prod.splits phase.splits list.splits)
next
  case (return_host r k)
  have "run_after r (Some (r\<lparr>run_flying := take k (run_flying r) @ drop (Suc k) (run_flying r)\<rparr>))"
    if "run_flying r ! k = (srv, Sends res [])" for srv res
    using host_done_less [OF return_host(2) that]
    by (auto simp: run_after_def run_hosts_def dest: in_set_takeD in_set_dropD)
  with return_host show ?thesis by (auto simp: host_done_def split: prod.splits phase.splits list.splits)
qed (auto simp: finish_mark_def finish_take_def finish_close_def run_return_def run_after_def run_work_def run_hosts_def
     split: if_splits ending.splits list.splits)

text \<open>A job that has begun does not begin again, and what it was asked to run does not change.\<close>

definition begun :: "string \<Rightarrow> bulk \<Rightarrow> bool" where
  "begun j b \<longleftrightarrow> bk_jobs b j \<noteq> None \<and> j \<notin> set (bk_spawned b)"

definition job_text :: "string \<Rightarrow> bulk \<Rightarrow> (string \<times> bool) option" where
  "job_text j b = map_option (\<lambda>job. (bj_Command job, bj_Script job)) (bk_jobs b j)"

lemmas run_ops = run_launch_def run_store_def publish_copy_def publish_send_def host_done_def finish_mark_def finish_take_def
  finish_close_def run_return_def set_flight_def

lemma run_step_jobs: "run_step W i b b' \<Longrightarrow> bk_spawned b' = bk_spawned b \<and> job_text j b' = job_text j b"
  by (induction rule: run_step.induct)
     (auto simp: run_ops job_text_def option.map_comp comp_def split: list.splits if_splits prod.splits phase.splits option.splits ending.splits)

lemma begun_text: "begun j b \<longleftrightarrow> job_text j b \<noteq> None \<and> j \<notin> set (bk_spawned b)"
  by (simp add: begun_def job_text_def)

lemma client_step_begun:
  assumes "client_step b b'" "begun j b"
  shows "begun j b' \<and> job_text j b' = job_text j b \<and> bk_runs b' j = bk_runs b j \<and> bk_jobs b' j = bk_jobs b j"
  using assms
  by (induction rule: client_step.induct)
     (auto simp: begun_def job_text_def CreateBulk_def run_begin_def Subscribe_def cancel_sub_def stream_turn_def Let_def
       split: option.split recv.split prod.split)

lemma bulk_step_begun:
  assumes "bulk_step W b b'" "begun j b"
  shows "begun j b' \<and> job_text j b' = job_text j b"
  using assms(1)
proof (cases rule: bulk_step.cases)
  case (by_run i)
  then show ?thesis using run_step_jobs [OF by_run(1)] assms(2) by (simp add: begun_text)
next
  case by_client
  then show ?thesis using client_step_begun assms(2) by blast
qed

text \<open>The steps of others leave the run alone.\<close>

lemma bulk_step_runs:
  assumes "bulk_step W b b'" "begun j b"
  shows "bk_runs b' j = bk_runs b j \<or> run_step W j b b'"
  using assms(1)
proof (cases rule: bulk_step.cases)
  case (by_run i)
  then show ?thesis using run_step_runs [OF by_run(1)] by (cases "i = j") auto
next
  case by_client
  then show ?thesis using client_step_begun [OF _ assms(2)] by blast
qed

lemma run_step_less: "run_step W j b b' \<Longrightarrow> (work j b', work j b) \<in> less_work"
proof (drule run_step_runs, elim exE conjE)
  fix r x
  assume rx: "bk_runs b j = Some r" "bk_runs b' = (bk_runs b)(j := x)" "run_after r x"
  then show "(work j b', work j b) \<in> less_work"
    by (cases x) (auto simp: work_def run_after_def run_work_def)
qed

definition hosts_answer :: "bulk_world \<Rightarrow> string \<Rightarrow> bulk \<Rightarrow> bool" where
  "hosts_answer W j b \<longleftrightarrow>
     (\<forall>r cmd scr. bk_runs b j = Some r \<and> job_text j b = Some (cmd, scr) \<longrightarrow>
        (\<forall>srv \<in> run_hosts r. runOne (bw_cipher W) (bw_timeout W) (bw_host W j srv) j srv cmd scr \<noteq> None))"

lemma hosts_answer_step:
  assumes "bulk_step W b b'" "begun j b" "hosts_answer W j b"
  shows "hosts_answer W j b'"
  using bulk_step_runs [OF assms(1,2)]
proof
  assume "bk_runs b' j = bk_runs b j"
  then show ?thesis using bulk_step_begun [OF assms(1,2)] assms(3) by (simp add: hosts_answer_def)
next
  assume "run_step W j b b'"
  from run_step_runs [OF this] obtain r x where
    "bk_runs b j = Some r" "bk_runs b' = (bk_runs b)(j := x)" "run_after r x" by blast
  then show ?thesis
    using bulk_step_begun [OF assms(1,2)] assms(3) by (auto simp: hosts_answer_def run_after_def split: option.splits)
qed

text \<open>While a job has not returned, one of its goroutines can take a step, if the hosts answer.\<close>

lemma run_can_step:
  assumes "bulk_inv b" "bk_runs b j = Some r" "hosts_answer W j b"
  shows "\<exists>b'. run_step W j b b'"
proof -
  obtain job where job: "bk_jobs b j = Some job" using bulk_invD(3) [OF assms(1,2)] by auto
  consider (wait) srv rest where "run_waiting r = srv # rest" "run_flying r = []"
    | (fly) srv p fs where "run_flying r = (srv, p) # fs"
    | (none) "run_waiting r = []" "run_flying r = []"
    by (metis list.exhaust surj_pair)
  then show ?thesis
  proof cases
    case wait
    then show ?thesis using run_step.launch [OF assms(2)] by (force simp: run_launch_def maxConcurrency_def)
  next
    case (fly srv p fs)
    then have k: "0 < length (run_flying r)" and f: "run_flying r ! 0 = (srv, p)" by simp_all
    show ?thesis
    proof (cases p)
      case Runs
      have "srv \<in> run_hosts r" using fly by (simp add: run_hosts_def)
      then obtain res where "runOne (bw_cipher W) (bw_timeout W) (bw_host W j srv) j srv (bj_Command job) (bj_Script job) = Some res"
        using assms(2,3) job by (fastforce simp: hosts_answer_def job_text_def)
      then have "run_step W j b (set_flight j r 0 (srv, Stored res) (Bulk.store False res b))"
        using f Runs by (intro run_step.store [OF assms(2) job k, where df = False]) (simp_all add: run_store_def)
      then show ?thesis by blast
    next
      case (Stored res)
      then show ?thesis using run_step.copy [OF assms(2) k] f by (auto simp: publish_copy_def)
    next
      case (Sends res cs)
      then show ?thesis
        using run_step.send [OF assms(2) k] run_step.return_host [OF assms(2) k] f
        by (cases cs) (auto simp: publish_send_def host_done_def)
    qed
  next
    case none
    then show ?thesis
      using run_step.mark [OF assms(2), of False] run_step.take_subs [OF assms(2)] run_step.close_sub [OF assms(2)]
        run_step.return_run [OF assms(2)]
      by (cases "run_ending r" rule: ending_rank.cases; cases "to_close (run_ending r)")
         (auto simp: finish_mark_def finish_take_def finish_close_def run_return_def)
  qed
qed

lemmas run_splits = list.splits if_splits prod.splits phase.splits option.splits ending.splits

lemma run_step_other:
  "run_step W i b b' \<Longrightarrow> i \<noteq> j \<Longrightarrow> bk_jobs b' j = bk_jobs b j \<and> bk_subs b' j = bk_subs b j \<and> bk_runs b' j = bk_runs b j"
  by (induction rule: run_step.induct) (auto simp: run_ops split: run_splits)

text \<open>A closed channel stays closed.\<close>

lemma bulk_do_shut:
  assumes "chan_shut (bk_chans b) c"
  shows "chan_shut (bk_chans (bulk_do (send_at res d (bk_chans b)) b)) c" "chan_shut (bk_chans (bulk_do (close_at d (bk_chans b)) b)) c"
  using assms
  by (auto simp: bulk_do_def send_at_def close_at_def send_nb_def close_chan_def chan_shut_def split: option.splits if_splits)

lemma run_step_shut: "run_step W i b b' \<Longrightarrow> chan_shut (bk_chans b) c \<Longrightarrow> chan_shut (bk_chans b') c"
  by (induction rule: run_step.induct) (auto simp: run_ops bulk_do_shut split: run_splits)

lemma client_step_shut:
  assumes "client_step b b'" "bulk_inv b" "chan_shut (bk_chans b) c"
  shows "chan_shut (bk_chans b') c"
proof -
  have "c < bk_next b"
    using assms(2,3) by (auto simp: bulk_inv_def chans_inv_def chan_shut_def split: option.splits)
  with assms(1,3) show ?thesis
    by (cases rule: client_step.cases)
       (auto simp: CreateBulk_def run_begin_def Subscribe_def cancel_sub_def stream_turn_def Let_def chan_shut_def dest: recv_closed
         split: option.splits recv.splits prod.splits if_splits)
qed

text \<open>A channel the run is bound to close: it is closed, about to be closed, or on the map before \<open>finish\<close> reads it.\<close>

definition bound_to_close :: "nat \<Rightarrow> string \<Rightarrow> bulk \<Rightarrow> bool" where
  "bound_to_close c j b \<longleftrightarrow>
     chan_shut (bk_chans b) c
     \<or> (\<exists>r. bk_runs b j = Some r \<and> (case run_ending r of Closes cs \<Rightarrow> c \<in> set cs | _ \<Rightarrow> c \<in> set (bk_subs b j)))"

lemma close_shuts:
  "chan_open (bk_chans b) c \<Longrightarrow> chan_shut (bk_chans (bulk_do (close_at c (bk_chans b)) b)) c"
  by (auto simp: bulk_do_def close_at_open chan_shut_def elim!: chan_openE)

lemma run_step_bound:
  assumes "run_step W j b b'" "bulk_inv b" "bound_to_close c j b"
  shows "bound_to_close c j b'"
proof (cases "chan_shut (bk_chans b) c")
  case True
  then show ?thesis using run_step_shut [OF assms(1)] by (simp add: bound_to_close_def)
next
  case False
  then obtain r where r: "bk_runs b j = Some r" "case run_ending r of Closes cs \<Rightarrow> c \<in> set cs | _ \<Rightarrow> c \<in> set (bk_subs b j)"
    using assms(3) by (auto simp: bound_to_close_def)
  have "chan_shut (bk_chans (bulk_do (close_at d (bk_chans b)) b)) d" if "run_ending r = Closes (d # cs)" for d cs
    using bulk_invD(4) [OF assms(2) r(1)] held_open [OF assms(2), of d j] that by (auto intro: close_shuts simp: run_chans_def)
  with assms(1) r show ?thesis
    by (cases rule: run_step.cases) (auto simp: run_ops bound_to_close_def split: run_splits)
qed

lemma bulk_step_bound:
  assumes "bulk_step W b b'" "bulk_inv b" "begun j b" "bound_to_close c j b"
  shows "bound_to_close c j b' \<or> client_step b b' \<and> c \<in> set (bk_subs b j) \<and> c \<notin> set (bk_subs b' j)"
  using assms(1)
proof (cases rule: bulk_step.cases)
  case (by_run i)
  show ?thesis
  proof (cases "i = j")
    case True
    then show ?thesis using run_step_bound by_run assms(2,4) by blast
  next
    case False
    then show ?thesis
      using run_step_other [OF by_run(1), of j] run_step_shut [OF by_run(1)] assms(4)
      by (auto simp: bound_to_close_def split: ending.splits)
  qed
next
  case by_client
  then show ?thesis
    using assms(4) client_step_begun [OF by_client(1) assms(3)] client_step_shut [OF by_client(1) assms(2)]
    by (auto simp: bound_to_close_def split: ending.splits)
qed

text \<open>When \<open>Run\<close> is past \<^verbatim>\<open>wg.Wait\<close> the job is marked, unless the database refused it.\<close>

definition mark_kept :: "bulk_world \<Rightarrow> string \<Rightarrow> bulk \<Rightarrow> bool" where
  "mark_kept W j b \<longleftrightarrow>
     bw_refuses_mark W \<or> map_option run_ending (bk_runs b j) = Some Works \<or> map_option bj_Status (bk_jobs b j) = Some ''done''"

lemma bulk_step_mark:
  assumes "bulk_step W b b'" "begun j b" "mark_kept W j b"
  shows "mark_kept W j b'"
  using assms(1)
proof (cases rule: bulk_step.cases)
  case (by_run i)
  show ?thesis
  proof (cases "i = j")
    case True
    have "bk_jobs b j \<noteq> None" using assms(2) by (simp add: begun_def)
    with by_run True assms(3) show ?thesis
      by (cases rule: run_step.cases) (auto simp: run_ops mark_kept_def split: run_splits)
  next
    case False
    then show ?thesis using run_step_other [OF by_run(1)] assms(3) by (simp add: mark_kept_def)
  qed
next
  case by_client
  then show ?thesis using client_step_begun [OF by_client(1) assms(2)] assms(3) by (simp add: mark_kept_def)
qed

text \<open>A schedule is an infinite sequence of steps of the executor.  It is fair to a job when it does not pass over
  the job's goroutines for ever while one of them can go on.\<close>

definition schedule :: "bulk_world \<Rightarrow> (nat \<Rightarrow> bulk) \<Rightarrow> bool" where
  "schedule W f \<longleftrightarrow> (\<forall>n. bulk_step W (f n) (f (Suc n)))"

definition fair_to :: "bulk_world \<Rightarrow> string \<Rightarrow> (nat \<Rightarrow> bulk) \<Rightarrow> bool" where
  "fair_to W j f \<longleftrightarrow>
     (\<forall>n. (\<forall>m \<ge> n. \<exists>b. run_step W j (f m) b) \<longrightarrow> (\<exists>m \<ge> n. run_step W j (f m) (f (Suc m))))"

lemma settles:
  fixes g :: "nat \<Rightarrow> nat \<times> nat"
  assumes "\<And>n. g (Suc n) = g n \<or> (g (Suc n), g n) \<in> less_work"
  shows "\<exists>n. \<forall>m \<ge> n. g m = g n"
proof -
  have "wf less_work" by auto
  then obtain z where z: "z \<in> range g" "\<And>y. (y, z) \<in> less_work \<Longrightarrow> y \<notin> range g"
    by (rule wfE_min [of _ "g 0" "range g"]) auto
  then obtain n where n: "z = g n" by blast
  have "g (n + k) = g n" for k
  proof (induction k)
    case (Suc k)
    then show ?case using assms [of "n + k"] z(2) [of "g (n + Suc k)"] n by auto
  qed simp
  then show ?thesis by (metis le_Suc_ex)
qed

lemma schedule_keeps:
  assumes "schedule W f" "bulk_inv (f 0)" "begun j (f 0)" "hosts_answer W j (f 0)" "mark_kept W j (f 0)"
  shows "bulk_inv (f n) \<and> begun j (f n) \<and> hosts_answer W j (f n) \<and> mark_kept W j (f n)"
proof (induction n)
  case (Suc n)
  have "bulk_step W (f n) (f (Suc n))" using assms(1) by (simp add: schedule_def)
  then show ?case
    using Suc bulk_inv_step bulk_step_begun hosts_answer_step bulk_step_mark by blast
qed (simp add: assms)

lemma schedule_bound:
  assumes "schedule W f" "\<And>n. bulk_inv (f n) \<and> begun j (f n)" "bound_to_close c j (f 0)"
  shows "bound_to_close c j (f n) \<or>
    (\<exists>m < n. client_step (f m) (f (Suc m)) \<and> c \<in> set (bk_subs (f m) j) \<and> c \<notin> set (bk_subs (f (Suc m)) j))"
proof (induction n)
  case (Suc n)
  have "bulk_step W (f n) (f (Suc n))" using assms(1) by (simp add: schedule_def)
  from bulk_step_bound [OF this, of j c] assms(2) [of n] Suc show ?case by (meson less_Suc_eq)
qed (simp add: assms(3))

lemma fair_schedule_ends:
  assumes "schedule W f" "fair_to W j f" "\<And>n. bulk_inv (f n) \<and> begun j (f n) \<and> hosts_answer W j (f n)"
  shows "\<exists>n. bk_runs (f n) j = None"
proof (rule ccontr)
  assume run: "\<nexists>n. bk_runs (f n) j = None"
  have "work j (f (Suc n)) = work j (f n) \<or> (work j (f (Suc n)), work j (f n)) \<in> less_work" for n
    using assms(1) bulk_step_runs [of W "f n" "f (Suc n)" j] run_step_less assms(3) [of n]
    by (auto simp: schedule_def work_def)
  then obtain n where n: "\<And>m. m \<ge> n \<Longrightarrow> work j (f m) = work j (f n)" using settles [of "\<lambda>n. work j (f n)"] by blast
  have "\<exists>b. run_step W j (f m) b" for m using run_can_step assms(3) [of m] run by (metis not_None_eq)
  then obtain m where "m \<ge> n" "run_step W j (f m) (f (Suc m))" using assms(2) by (auto simp: fair_to_def)
  then show False
    using run_step_less [of W j "f m" "f (Suc m)"] n [of m] n [of "Suc m"] by (cases "work j (f n)") auto
qed

text \<open>C35: A job whose hosts all answer ends.  Once its servers are resolved one of its goroutines can always go on, and
  on every schedule that is fair to the job \<open>Run\<close> returns, whatever the other jobs, the subscribers and the database do; the
  job is then marked done, if the database takes the update, and the channel of every subscriber is closed, unless that subscriber
  has cancelled.  That the hosts answer is a condition: the handshake and the opening of the session have no
  deadline (see \<open>silent_host_blocks\<close>).\<close>

theorem bulk_terminates:
  assumes "bulk_steps W NewExecutor b" "bk_runs b j = Some r" "run_ending r = Works" "hosts_answer W j b"
  shows "\<forall>f. f 0 = b \<and> schedule W f \<longrightarrow>
      (\<forall>n. bk_runs (f n) j \<noteq> None \<longrightarrow> (\<exists>b'. run_step W j (f n) b'))
      \<and> (fair_to W j f \<longrightarrow>
          (\<exists>n. bk_runs (f n) j = None
             \<and> (\<not> bw_refuses_mark W \<longrightarrow> map_option bj_Status (bk_jobs (f n) j) = Some ''done'')
             \<and> (\<forall>c \<in> set (bk_subs b j). chan_shut (bk_chans (f n)) c \<or>
                  (\<exists>m < n. client_step (f m) (f (Suc m)) \<and> c \<in> set (bk_subs (f m) j) \<and> c \<notin> set (bk_subs (f (Suc m)) j)))))"
proof (intro allI impI conjI, goal_cases)
  case (1 f n)
  have inv: "bulk_inv b" using bulk_inv_steps [OF assms(1) bulk_inv_NewExecutor] .
  with 1 assms have "bulk_inv (f n) \<and> hosts_answer W j (f n)"
    using schedule_keeps [of W f j n] bulk_invD [OF inv assms(2)] by (auto simp: begun_def mark_kept_def)
  then show ?case using run_can_step 1 by (metis not_None_eq)
next
  case (2 f)
  have inv: "bulk_inv b" using bulk_inv_steps [OF assms(1) bulk_inv_NewExecutor] .
  have keeps: "bulk_inv (f n) \<and> begun j (f n) \<and> hosts_answer W j (f n) \<and> mark_kept W j (f n)" for n
    using 2 assms schedule_keeps [of W f j n] inv bulk_invD [OF inv assms(2)] by (auto simp: begun_def mark_kept_def)
  obtain n where n: "bk_runs (f n) j = None" using fair_schedule_ends [of W f j] keeps 2 by blast
  have "bound_to_close c j (f 0)" if "c \<in> set (bk_subs b j)" for c
    using that 2 assms(2,3) by (simp add: bound_to_close_def)
  then have "bound_to_close c j (f n) \<or>
      (\<exists>m < n. client_step (f m) (f (Suc m)) \<and> c \<in> set (bk_subs (f m) j) \<and> c \<notin> set (bk_subs (f (Suc m)) j))"
    if "c \<in> set (bk_subs b j)" for c
    using schedule_bound [of W f j c n] that keeps 2 by blast
  with n keeps [of n] show ?case
    by (intro exI [of _ n]) (auto simp: mark_kept_def bound_to_close_def)
qed

text \<open>A host that accepts the connection and then says nothing keeps its job running for ever: no schedule gets it past
  \<^verbatim>\<open>wg.Wait\<close>.\<close>

lemma in_set_update: "x \<in> set xs \<Longrightarrow> xs ! k \<noteq> x \<Longrightarrow> x \<in> set (xs[k := y])"
  by (metis in_set_conv_nth length_list_update nth_list_update_neq)

lemma in_set_removed: "k < length xs \<Longrightarrow> x \<in> set xs \<Longrightarrow> xs ! k \<noteq> x \<Longrightarrow> x \<in> set (take k xs @ drop (Suc k) xs)"
  by (metis Un_iff id_take_nth_drop set_ConsD set_append)

definition stuck_on :: "bulk_world \<Rightarrow> string \<Rightarrow> server \<Rightarrow> bulk \<Rightarrow> bool" where
  "stuck_on W j srv b \<longleftrightarrow>
     (\<exists>r job. bk_runs b j = Some r \<and> (srv, Runs) \<in> set (run_flying r) \<and> bk_jobs b j = Some job \<and>
        runOne (bw_cipher W) (bw_timeout W) (bw_host W j srv) j srv (bj_Command job) (bj_Script job) = None)"

lemma run_step_stuck:
  assumes "run_step W j b b'" "bulk_inv b" "stuck_on W j srv b"
  shows "stuck_on W j srv b'"
proof -
  obtain r job where s: "bk_runs b j = Some r" "(srv, Runs) \<in> set (run_flying r)" "bk_jobs b j = Some job"
      "runOne (bw_cipher W) (bw_timeout W) (bw_host W j srv) j srv (bj_Command job) (bj_Script job) = None"
    using assms(3) by (auto simp: stuck_on_def)
  have works: "run_ending r = Works" "run_flying r \<noteq> []"
    using bulk_invD(1) [OF assms(2) s(1)] s(2) by (auto simp: run_inv_def)
  have moved: "(srv, Runs) \<in> set ((run_flying r)[k := f])" if "run_flying r ! k \<noteq> (srv, Runs)" for k f
    using in_set_update [OF s(2) that] .
  have removed: "(srv, Runs) \<in> set (take k (run_flying r)) \<or> (srv, Runs) \<in> set (drop (Suc k) (run_flying r))"
    if "k < length (run_flying r)" "run_flying r ! k \<noteq> (srv, Runs)" for k
    using in_set_removed [OF that(1) s(2) that(2)] by simp
  from assms(1) show ?thesis
    by (cases rule: run_step.cases)
       (use s works in \<open>auto simp: run_ops stuck_on_def intro!: moved dest: removed split: run_splits\<close>)
qed

lemma silent_host_blocks:
  assumes "bulk_steps W NewExecutor b" "stuck_on W j srv b" "bulk_steps W b b'"
  shows "bk_runs b' j \<noteq> None"
proof -
  have "bulk_inv b" using bulk_inv_steps [OF assms(1) bulk_inv_NewExecutor] .
  with assms(3,2) have "bulk_inv b' \<and> stuck_on W j srv b'"
  proof (induction rule: rtranclp_induct)
    case (step b1 b2)
    then have b1: "bulk_inv b1" "stuck_on W j srv b1" by simp_all
    then have "begun j b1" using bulk_invD by (fastforce simp: stuck_on_def begun_def)
    have "stuck_on W j srv b2"
      using step(2)
    proof (cases rule: bulk_step.cases)
      case (by_run i)
      then show ?thesis
        using run_step_stuck [OF _ b1] run_step_other [OF by_run(1), of j] b1(2) by (cases "i = j") (auto simp: stuck_on_def)
    next
      case by_client
      then show ?thesis using client_step_begun [OF by_client(1) \<open>begun j b1\<close>] b1(2) by (simp add: stuck_on_def)
    qed
    with bulk_inv_step [OF step(2) b1(1)] show ?case by blast
  qed simp
  then show ?thesis by (auto simp: stuck_on_def)
qed

section \<open>One result per host\<close>

text \<open>The hosts a job has still to report on, with those it has reported on.\<close>

definition open_hosts :: "bulk_run \<Rightarrow> string multiset" where
  "open_hosts r = mset (map sv_ID (run_waiting r)) + mset (map (sv_ID \<circ> fst) (filter (\<lambda>f. snd f = Runs) (run_flying r)))"

definition tally :: "string \<Rightarrow> bulk \<Rightarrow> string multiset" where
  "tally j b = (case bk_runs b j of None \<Rightarrow> {#} | Some r \<Rightarrow> open_hosts r) + mset (map br_ServerID (bulkResults j b))"

lemma filter_remove:
  assumes "k < length xs" "\<not> P (xs ! k)"
  shows "filter P (take k xs @ drop (Suc k) xs) = filter P xs"
proof -
  have "xs = take k xs @ xs ! k # drop (Suc k) xs" by (rule id_take_nth_drop [OF assms(1)])
  then have "filter P xs = filter P (take k xs @ xs ! k # drop (Suc k) xs)" by metis
  then show ?thesis using assms(2) by simp
qed

lemma filter_replace:
  assumes "k < length xs" "P (xs ! k)" "\<not> P y"
  shows "mset (map f (filter P xs)) = add_mset (f (xs ! k)) (mset (map f (filter P (xs[k := y]))))"
proof -
  have "xs = take k xs @ xs ! k # drop (Suc k) xs" by (rule id_take_nth_drop [OF assms(1)])
  then have "mset (map f (filter P xs)) = mset (map f (filter P (take k xs @ xs ! k # drop (Suc k) xs)))" by metis
  moreover have "xs[k := y] = take k xs @ y # drop (Suc k) xs" by (rule upd_conv_take_nth_drop [OF assms(1)])
  ultimately show ?thesis using assms(2,3) by simp
qed

lemma filter_replace_other:
  assumes "k < length xs" "\<not> P (xs ! k)" "\<not> P y"
  shows "filter P (xs[k := y]) = filter P xs"
  using filter_remove [of k xs P] filter_remove [of k "xs[k := y]" P] assms
  by (simp add: take_update_cancel drop_update_cancel)

lemma open_hosts_moved:
  assumes "k < length (run_flying r)" "snd (run_flying r ! k) \<noteq> Runs" "p \<noteq> Runs"
  shows "open_hosts (r\<lparr>run_flying := (run_flying r)[k := (srv, p)]\<rparr>) = open_hosts r"
  using filter_replace_other [OF assms(1), of "\<lambda>f. snd f = Runs" "(srv, p)"] assms(2,3) by (simp add: open_hosts_def)

lemma bulkResults_frame [simp]: "bulkResults j (bulk_do h b) = bulkResults j b"
  by (simp add: bulkResults_def)

lemma run_step_tally: "run_step W i b b' \<Longrightarrow> \<not> bw_refuses W \<Longrightarrow> bulk_inv b \<Longrightarrow> tally j b' = tally j b"
proof (induction rule: run_step.induct)
  case (store b r job k df b')
  obtain srv res where f: "run_flying r ! k = (srv, Runs)"
    and res: "runOne (bw_cipher W) (bw_timeout W) (bw_host W i srv) i srv (bj_Command job) (bj_Script job) = Some res"
    and b': "b' = set_flight i r k (srv, Stored res) (Bulk.store df res b)"
    using store(5) by (auto simp: run_store_def split: prod.splits phase.splits option.splits)
  show ?case
    using store(1,4,6) f runOne_ids [OF res] filter_replace [OF store(3), of "\<lambda>f. snd f = Runs" "(srv, Stored res)" "sv_ID \<circ> fst"]
    by (auto simp: b' tally_def open_hosts_def bulkResults_def store_def set_flight_def)
next
  case (copy b r k b')
  with open_hosts_moved [OF copy(2)] show ?case
    by (auto simp: publish_copy_def set_flight_def tally_def bulkResults_def split: prod.splits phase.splits)
next
  case (send b r k b')
  with open_hosts_moved [OF send(2)] show ?case
    by (auto simp: publish_send_def set_flight_def tally_def bulkResults_def split: prod.splits phase.splits list.splits)
next
  case (return_host b r k b')
  then show ?case
    using filter_remove [OF return_host(2), of "\<lambda>f. snd f = Runs"]
    by (auto simp: host_done_def tally_def open_hosts_def bulkResults_def split: prod.splits phase.splits list.splits)
next
  case (return_run b r b')
  then show ?case
    using bulk_invD(1) [OF return_run(4,1)]
    by (auto simp: run_return_def run_inv_def tally_def open_hosts_def bulkResults_def split: if_splits)
qed (auto simp: run_launch_def finish_mark_def finish_take_def finish_close_def tally_def open_hosts_def bulkResults_def
     split: list.splits if_splits ending.splits)

lemma client_step_tally:
  assumes "client_step b b'" "begun j b"
  shows "tally j b' = tally j b"
proof -
  have "bk_results b' = bk_results b"
    using assms(1)
    by (cases rule: client_step.cases)
       (auto simp: CreateBulk_def run_begin_def Subscribe_def cancel_sub_def stream_turn_def Let_def
         split: option.splits recv.splits prod.splits)
  then show ?thesis using client_step_begun [OF assms] by (simp add: tally_def bulkResults_def)
qed

lemma tally_steps:
  "bulk_steps W a b \<Longrightarrow> \<not> bw_refuses W \<Longrightarrow> bulk_inv a \<Longrightarrow> begun j a \<Longrightarrow> begun j b \<and> tally j b = tally j a"
proof (induction rule: rtranclp_induct)
  case (step b c)
  then have "begun j b" "tally j b = tally j a" by simp_all
  moreover have "bulk_inv b" using bulk_inv_steps [OF step(1,5)] .
  then have "tally j c = tally j b"
    using run_step_tally [OF _ step(4)] client_step_tally [OF _ \<open>begun j b\<close>] bulk_stepE [OF step(2)] by metis
  ultimately show ?case using bulk_step_begun [OF step(2)] by simp
qed simp

text \<open>C36: Every host of the group is reported exactly once.  When a job that began on the given
  servers has ended, and the database accepted its rows, its results are one per server, whatever else
  ran in between and however the hosts' goroutines were scheduled.\<close>

theorem bulk_one_result_each:
  assumes "bulk_steps V NewExecutor a" "j \<in> set (bk_spawned a)"
    and "bulk_steps W (run_begin (Rows (map Some srvs) False) j a) b" "\<not> bw_refuses W" "bk_runs b j = None"
  shows "mset (map br_ServerID (bulkResults j b)) = mset (map sv_ID srvs)"
proof -
  have inv: "bulk_inv a" using bulk_inv_steps [OF assms(1) bulk_inv_NewExecutor] .
  let ?a = "run_begin (Rows (map Some srvs) False) j a"
  have "collect id (map Some srvs) = Some srvs" by (induction srvs) simp_all
  then have a: "?a = a\<lparr>bk_spawned := removeAll j (bk_spawned a),
      bk_runs := (bk_runs a)(j \<mapsto> \<lparr>run_waiting = srvs, run_flying = [], run_ending = Works\<rparr>)\<rparr>"
    by (simp add: run_begin_def resolveServers_def)
  have "bulkResults j a = []" "bk_jobs a j \<noteq> None"
    using inv assms(2) by (auto simp: bulk_inv_def runs_inv_def bulkResults_def filter_empty_conv)
  then have "tally j ?a = mset (map sv_ID srvs)" "begun j ?a"
    by (simp_all add: a tally_def open_hosts_def bulkResults_def begun_def)
  with tally_steps [OF assms(3,4) bulk_inv_begin [OF inv assms(2)], of j] have "tally j b = mset (map sv_ID srvs)" by simp
  then show ?thesis using assms(5) by (simp add: tally_def)
qed

section \<open>The outcome on one host\<close>

text \<open>The command is reached when the host was dialled, the handshake succeeded and a session opened.\<close>

definition command_reached :: "aead \<Rightarrow> host_env \<Rightarrow> server \<Rightarrow> bool" where
  "command_reached ci env srv \<longleftrightarrow>
     he_dial env (bulk_dial (decrypted ci srv)) = Returned None \<and> newClient env (decrypted ci srv) = Returned None
     \<and> he_session env = Returned None"

lemmas run_branches = runOne_def command_reached_def Let_def bulk_status_defs

text \<open>The result of a host says what happened there: it names the job and the server; a host
  that could not be dialled is unreachable; ok is reported exactly when the command ran to an exit, with
  its exit code; every other result carries the exit code -1.\<close>

theorem runOne_outcome:
  assumes "runOne ci tmo env j srv cmd scr = Some res"
  shows "br_JobID res = j \<and> br_ServerID res = sv_ID srv
   \<and> br_Status res \<in> {''ok'', ''error'', ''unreachable'', ''timeout''}
   \<and> (br_Status res = ''unreachable'' \<longleftrightarrow> he_dial env (bulk_dial (decrypted ci srv)) \<noteq> Returned None)
   \<and> (br_Status res = ''ok'' \<longleftrightarrow>
        command_reached ci env srv \<and>
        (case case_prod (he_run env (host_timeout tmo scr)) (remote_command cmd scr) of
           RunOK \<Rightarrow> br_ExitCode res = 0
         | RunExit code \<Rightarrow> br_ExitCode res = code
         | _ \<Rightarrow> False))
   \<and> (br_Status res = ''ok'' \<or> br_ExitCode res = -1)"
proof -
  obtain rc sin where rc: "remote_command cmd scr = (rc, sin)" by fastforce
  show ?thesis
    using assms
    by (auto simp: rc run_branches split: reply.splits option.splits run_outcome.splits)
qed

text \<open>A host that stops answering after the connection is open makes \<open>runOne\<close> wait for ever.\<close>

lemma silent_handshake:
  assumes "he_dial env (bulk_dial (decrypted ci srv)) = Returned None" "newClient env (decrypted ci srv) = Silent"
  shows "runOne ci tmo env j srv cmd scr = None"
  using assms by (simp add: runOne_def Let_def)

text \<open>A subscriber that comes after the end of its job is never told: nothing closes its channel or
  sends on it, so the stream neither ends nor reports the job as done.\<close>

definition ended :: "string \<Rightarrow> bulk \<Rightarrow> bool" where
  "ended j b \<longleftrightarrow> begun j b \<and> bk_runs b j = None"

lemma late_subscriber_waits:
  assumes "bulk_inv b" "ended j b" "StreamBulk j b = (evs, c, b')"
  shows "fst (stream_turn False j c b') = SWaits \<and> (\<forall>W b''. \<not> run_step W j b' b'')"
  using assms
  by (auto simp: StreamBulk_def Subscribe_def Let_def stream_turn_def recv_chan_def make_chan_def ended_def elim!: run_stepE)

section \<open>Examples\<close>

text \<open>There are fair schedules: the job goes on whenever it can, and a client cancels nothing when it cannot.\<close>

lemma fair_schedule_exists: "\<exists>f. f 0 = b \<and> schedule W f \<and> fair_to W j f"
proof -
  define next_of where "next_of x = (if \<exists>y. run_step W j x y then SOME y. run_step W j x y else x)" for x
  define f where "f n = (next_of ^^ n) b" for n
  have run: "run_step W j (f n) (f (Suc n))" if "\<exists>y. run_step W j (f n) y" for n
    using someI_ex [OF that] that by (simp add: f_def next_of_def)
  have idle: "cancel_sub j c x = x" if "c \<notin> set (bk_subs x j)" for c x
    using that by (simp add: cancel_sub_def remove1_idem)
  have "client_step x x" for x
    using client_step.cancel [of x j "Suc (Max (set (bk_subs x j)))"] idle [of "Suc (Max (set (bk_subs x j)))" x]
    by (metis List.finite_set Max_ge Suc_n_not_le_n)
  then have "bulk_step W (f n) (f (Suc n))" for n
    using run [of n] by (cases "\<exists>y. run_step W j (f n) y") (auto intro: bulk_step.intros simp: f_def next_of_def)
  moreover have "fair_to W j f" using run unfolding fair_to_def by blast
  moreover have "f 0 = b" by (simp add: f_def)
  ultimately show ?thesis unfolding schedule_def by blast
qed

definition demo_host :: host_env where
  "demo_host = \<lparr>he_start = 0, he_end = 5000000, he_dial = (\<lambda>_. Returned None), he_parse = (\<lambda>_. None),
     he_handshake = (\<lambda>_ _. Returned None), he_session = Returned None, he_run = (\<lambda>_ _ _. RunExit 3), he_stdout = ''hi'', he_stderr = []\<rparr>"

definition demo_world :: bulk_world where
  "demo_world = \<lparr>bw_cipher = toy_aead, bw_timeout = Second, bw_host = (\<lambda>_ _. demo_host), bw_refuses = False, bw_refuses_mark = False\<rparr>"

definition demo_created :: bulk where
  "demo_created = snd (CreateBulk (Some \<lparr>bq_GroupID = ''g1'', bq_Command = ''id'', bq_Script = False\<rparr>) None (Some ''j1'') NewExecutor)"

definition demo_begun :: bulk where
  "demo_begun = snd (Subscribe ''j1'' (run_begin (Rows (map Some [sample_server]) False) ''j1'' demo_created))"

definition demo_job :: bulk_job where
  "demo_job = \<lparr>bj_UserID = None, bj_GroupID = ''g1'', bj_Command = ''id'', bj_Script = False, bj_Status = ''running''\<rparr>"

definition demo_run :: "server list \<Rightarrow> flight list \<Rightarrow> ending \<Rightarrow> bulk_run" where
  "demo_run ws fs e = \<lparr>run_waiting = ws, run_flying = fs, run_ending = e\<rparr>"

definition demo_result :: bulk_result where
  "demo_result = the (runOne toy_aead Second demo_host ''j1'' sample_server ''id'' False)"

lemma demo_result_eq: "runOne toy_aead Second demo_host ''j1'' sample_server ''id'' False = Some demo_result"
proof -
  have "newClient demo_host (decrypted toy_aead sample_server) \<noteq> Silent"
    by (simp add: newClient_def demo_host_def Let_def split: option.split)
  then have "runOne toy_aead Second demo_host ''j1'' sample_server ''id'' False \<noteq> None"
    by (auto simp: runOne_def demo_host_def Let_def split: option.splits reply.splits prod.splits)
  then show ?thesis by (simp add: demo_result_def)
qed

lemma demo_created_steps: "bulk_steps W NewExecutor demo_created"
  unfolding demo_created_def
  by (rule r_into_rtranclp, rule by_client, rule create) (simp add: NewExecutor_def)

lemma demo_spawned: "''j1'' \<in> set (bk_spawned demo_created)"
  by (simp add: demo_created_def CreateBulk_def Let_def NewExecutor_def)

lemma demo_begun_steps: "bulk_steps W (run_begin (Rows (map Some [sample_server]) False) ''j1'' demo_created) demo_begun"
  unfolding demo_begun_def by (rule r_into_rtranclp, rule by_client, rule subscribe)

lemma demo_all_steps: "bulk_steps W NewExecutor demo_begun"
proof -
  have "bulk_step W demo_created (run_begin (Rows (map Some [sample_server]) False) ''j1'' demo_created)"
    by (rule by_client, rule begin_run, rule demo_spawned)
  then show ?thesis using demo_created_steps [of W] demo_begun_steps [of W] by (meson rtranclp.rtrancl_into_rtrancl rtranclp_trans)
qed

lemma demo_begun_state:
  "bk_runs demo_begun ''j1'' = Some (demo_run [sample_server] [] Works)" "bk_jobs demo_begun ''j1'' = Some demo_job"
  "bk_subs demo_begun ''j1'' = [0]" "bk_chans demo_begun 0 = Some (make_chan 64)"
  by (simp_all add: demo_begun_def demo_created_def CreateBulk_def Subscribe_def run_begin_def resolveServers_def
      NewExecutor_def demo_run_def demo_job_def Let_def)

text \<open>The whole run of that job, goroutine step by goroutine step.\<close>

abbreviation demo_on :: "phase \<Rightarrow> bulk_run" where
  "demo_on p \<equiv> demo_run [] [(sample_server, p)] Works"

definition demo_flying :: bulk where "demo_flying = the (run_launch ''j1'' (demo_run [sample_server] [] Works) demo_begun)"

definition demo_stored :: bulk where
  "demo_stored = the (run_store toy_aead Second demo_host False ''j1'' demo_job (demo_on Runs) 0 demo_flying)"

definition demo_copied :: bulk where "demo_copied = the (publish_copy ''j1'' (demo_on (Stored demo_result)) 0 demo_stored)"

definition demo_sent :: bulk where "demo_sent = the (publish_send ''j1'' (demo_on (Sends demo_result [0])) 0 demo_copied)"

definition demo_reported :: bulk where "demo_reported = the (host_done ''j1'' (demo_on (Sends demo_result [])) 0 demo_sent)"

definition demo_marked :: bulk where "demo_marked = the (finish_mark False ''j1'' (demo_run [] [] Works) demo_reported)"

definition demo_taken :: bulk where "demo_taken = the (finish_take ''j1'' (demo_run [] [] Marked) demo_marked)"

definition demo_closed :: bulk where "demo_closed = the (finish_close ''j1'' (demo_run [] [] (Closes [0])) demo_taken)"

definition demo_ended :: bulk where "demo_ended = the (run_return ''j1'' (demo_run [] [] (Closes [])) demo_closed)"

lemmas demo_ops = run_ops demo_run_def maxConcurrency_def demo_result_eq demo_job_def

lemma demo_states:
  "bk_runs demo_flying ''j1'' = Some (demo_on Runs)" "bk_jobs demo_flying ''j1'' = Some demo_job"
  "bk_subs demo_flying ''j1'' = [0]"
  "bk_runs demo_stored ''j1'' = Some (demo_on (Stored demo_result))" "bk_subs demo_stored ''j1'' = [0]"
  "bk_runs demo_copied ''j1'' = Some (demo_on (Sends demo_result [0]))" "bk_subs demo_copied ''j1'' = [0]"
  "bk_runs demo_sent ''j1'' = Some (demo_on (Sends demo_result []))" "bk_subs demo_sent ''j1'' = [0]"
  "bk_runs demo_reported ''j1'' = Some (demo_run [] [] Works)" "bk_subs demo_reported ''j1'' = [0]"
  "bk_runs demo_marked ''j1'' = Some (demo_run [] [] Marked)" "bk_subs demo_marked ''j1'' = [0]"
  "bk_runs demo_taken ''j1'' = Some (demo_run [] [] (Closes [0]))"
  "bk_runs demo_closed ''j1'' = Some (demo_run [] [] (Closes []))"
  "bk_runs demo_ended ''j1'' = None"
  by (simp_all add: demo_flying_def demo_stored_def demo_copied_def demo_sent_def demo_reported_def demo_marked_def demo_taken_def
      demo_closed_def demo_ended_def demo_ops demo_begun_state [unfolded demo_job_def])

lemma demo_run_steps: "bulk_steps demo_world demo_begun demo_ended"
proof -
  note W = demo_world_def
  have s: "run_step demo_world ''j1'' demo_begun demo_flying"
    by (rule launch [OF demo_begun_state(1)]) (simp add: demo_flying_def demo_ops)
  have "run_step demo_world ''j1'' demo_flying demo_stored"
    by (rule run_step.store [OF demo_states(1,2), where df = False and k = 0]) (simp_all add: demo_stored_def demo_ops W)
  moreover have "run_step demo_world ''j1'' demo_stored demo_copied"
    by (rule run_step.copy [OF demo_states(4), where k = 0]) (simp_all add: demo_copied_def demo_ops)
  moreover have "run_step demo_world ''j1'' demo_copied demo_sent"
    by (rule run_step.send [OF demo_states(6), where k = 0]) (simp_all add: demo_sent_def demo_ops)
  moreover have "run_step demo_world ''j1'' demo_sent demo_reported"
    by (rule run_step.return_host [OF demo_states(8), where k = 0]) (simp_all add: demo_reported_def demo_ops)
  moreover have "run_step demo_world ''j1'' demo_reported demo_marked"
    by (rule run_step.mark [OF demo_states(10), where df = False]) (simp_all add: demo_marked_def demo_ops)
  moreover have "run_step demo_world ''j1'' demo_marked demo_taken"
    by (rule run_step.take_subs [OF demo_states(12)]) (simp add: demo_taken_def demo_ops)
  moreover have "run_step demo_world ''j1'' demo_taken demo_closed"
    by (rule run_step.close_sub [OF demo_states(14)]) (simp add: demo_closed_def demo_ops)
  moreover have "run_step demo_world ''j1'' demo_closed demo_ended"
    by (rule run_step.return_run [OF demo_states(15)]) (simp add: demo_ended_def demo_ops)
  ultimately show ?thesis using s by (meson by_run converse_rtranclp_into_rtranclp rtranclp.rtrancl_refl)
qed

theorem bulk_bounded_and_safe_witness: "\<not> bk_panic demo_ended \<and> \<not> bk_panic demo_begun"
  using bulk_bounded_and_safe [OF demo_all_steps]
    bulk_bounded_and_safe [OF rtranclp_trans [OF demo_all_steps demo_run_steps]] by blast

theorem bulk_terminates_witness:
  "\<exists>f n. f 0 = demo_begun \<and> schedule demo_world f \<and> fair_to demo_world ''j1'' f \<and> bk_runs (f n) ''j1'' = None
     \<and> map_option bj_Status (bk_jobs (f n) ''j1'') = Some ''done''"
proof -
  obtain f where f: "f 0 = demo_begun" "schedule demo_world f" "fair_to demo_world ''j1'' f" using fair_schedule_exists by blast
  have "hosts_answer demo_world ''j1'' demo_begun"
    by (simp add: hosts_answer_def demo_begun_state demo_run_def job_text_def run_hosts_def demo_world_def demo_job_def demo_result_eq)
  then have "\<exists>n. bk_runs (f n) ''j1'' = None
      \<and> (\<not> bw_refuses_mark demo_world \<longrightarrow> map_option bj_Status (bk_jobs (f n) ''j1'') = Some ''done'')"
    using bulk_terminates [OF demo_all_steps [of demo_world] demo_begun_state(1)] f by (simp add: demo_run_def) blast
  then show ?thesis using f by (auto simp: demo_world_def)
qed

theorem bulk_one_result_each_witness: "mset (map br_ServerID (bulkResults ''j1'' demo_ended)) = {#sv_ID sample_server#}"
proof -
  have "bulk_steps demo_world (run_begin (Rows (map Some [sample_server]) False) ''j1'' demo_created) demo_ended"
    using rtranclp_trans [OF demo_begun_steps demo_run_steps] .
  from bulk_one_result_each [OF demo_created_steps demo_spawned this _ demo_states(16)] show ?thesis
    by (simp add: demo_world_def)
qed

end
