(* ===== verification/AuditApi.thy ===== *)
theory AuditApi
  imports AuditLog Servers GoStd
begin

text \<open>
  Reading the audit log back (\<^verbatim>\<open>internal/api/audit.go\<close>, \<^verbatim>\<open>internal/api/commands.go\<close>): the
  filtered query and its CSV export, and the reconstruction of the commands typed in a session from its
  recorded keystrokes.  The rows the database answers with are arguments; how it prints a time stamp
  (its zone is the database's) is the parameter \<open>fmt\<close>.
\<close>

section \<open>The filtered query\<close>

text \<open>\<^verbatim>\<open>url.Values.Get\<close>: the first value of a query parameter, empty if it is absent.\<close>

type_synonym url_values = "string \<Rightarrow> string"

definition add_filter :: "string \<Rightarrow> string \<Rightarrow> string list \<times> string list \<Rightarrow> string list \<times> string list" where
  "add_filter clause val wa =
     (case wa of (wh, args) \<Rightarrow>
        (wh @ [clause @ '' $'' @ Itoa (int (length (args @ [val])))], args @ [val]))"

definition filter_if :: "url_values \<Rightarrow> string \<times> string \<Rightarrow> string list \<times> string list \<Rightarrow> string list \<times> string list" where
  "filter_if q kc wa = (case kc of (key, clause) \<Rightarrow> if q key \<noteq> [] then add_filter clause (q key) wa else wa)"

definition eq_filters :: "(string \<times> string) list" where
  "eq_filters =
     [(''session_id'', ''session_id =''), (''user_id'', ''user_id =''), (''server_id'', ''server_id =''),
      (''event_type'', ''event_type =''), (''from'', ''ts >=''), (''to'', ''ts <='')]"

definition audit_select :: string where
  "audit_select = ''SELECT id, session_id, server_id, user_id, event_type, data, ts FROM audit_logs''"

definition human_clause :: string where
  "human_clause = ''event_type NOT IN ('' @ [CHR 39] @ ''output'' @ [CHR 39] @ '','' @ [CHR 39] @ ''input'' @ [CHR 39] @ '')''"

definition buildAuditQuery :: "url_values \<Rightarrow> int \<Rightarrow> string \<times> string list" where
  "buildAuditQuery q limit =
     (case fold (filter_if q) eq_filters ([], []) of (wh1, args1) \<Rightarrow>
      (case (if q ''q'' \<noteq> [] then add_filter ''data ILIKE'' (''%'' @ q ''q'' @ ''%'') (wh1, args1) else (wh1, args1)) of (wh2, args2) \<Rightarrow>
       let wh = (if q ''human'' = ''1'' then wh2 @ [human_clause] else wh2);
           sql = audit_select @ (if wh = [] then [] else '' WHERE '' @ join_with '' AND '' wh)
       in (sql @ '' ORDER BY ts DESC LIMIT '' @ Itoa limit, args2)))"

section \<open>Listing and verifying\<close>

definition VerifyAudit :: "(string \<Rightarrow> string) \<Rightarrow> audit_row rows \<Rightarrow> VerifyResult response" where
  "VerifyAudit sha q = (case Verify sha q of None \<Rightarrow> writeErr StatusInternalServerError ''verify failed'' | Some r \<Rightarrow> writeJSON StatusOK r)"

text \<open>\<open>QueryAudit\<close>: the database is asked with the text and the arguments; it does not check \<^verbatim>\<open>rows.Err\<close>.\<close>

definition QueryAudit :: "(string \<Rightarrow> string list \<Rightarrow> audit_row rows) \<Rightarrow> url_values \<Rightarrow> audit_row list response" where
  "QueryAudit db q =
     (case buildAuditQuery q 1000 of (sql, args) \<Rightarrow>
        (case db sql args of
           QueryErr \<Rightarrow> writeErr StatusInternalServerError ''db error''
         | Rows rs err \<Rightarrow>
             (case collect id rs of
                None \<Rightarrow> writeErr StatusInternalServerError ''scan error''
              | Some logs \<Rightarrow> writeJSON StatusOK logs)))"

section \<open>CSV\<close>

text \<open>\<^verbatim>\<open>encoding/csv\<close>: a field is quoted when it holds a comma, a quote or a line break, when it starts
  with white space, or when it is \<^verbatim>\<open>\.\<close>; a quote inside is doubled.\<close>

definition fieldNeedsQuotes :: "string \<Rightarrow> bool" where
  "fieldNeedsQuotes f \<longleftrightarrow>
     f \<noteq> [] \<and> (f = [CHR 92, CHR 46] \<or> set f \<inter> {CHR 44, CHR 34, CHR 10, CHR 13} \<noteq> {} \<or> list_ex (HasPrefix f) utf8_spaces)"

definition csv_quote :: "string \<Rightarrow> string" where
  "csv_quote f = CHR 34 # concat (map (\<lambda>c. if c = CHR 34 then [CHR 34, CHR 34] else [c]) f) @ [CHR 34]"

definition csv_field :: "string \<Rightarrow> string" where
  "csv_field f = (if fieldNeedsQuotes f then csv_quote f else f)"

definition csv_Write :: "string list \<Rightarrow> string" where
  "csv_Write fs = join_with '','' (map csv_field fs) @ [CHR 10]"

definition export_header :: "string list" where
  "export_header = [''id'', ''ts'', ''event_type'', ''session_id'', ''server_id'', ''user_id'', ''data'']"

definition export_row :: "(gotime \<Rightarrow> string) \<Rightarrow> audit_row \<Rightarrow> string list" where
  "export_row fmt l =
     [Itoa (row_id l), fmt (row_ts l), event_type l, coalesce (session_id l), coalesce (server_id l),
      coalesce (user_id l), coalesce (data l)]"

text \<open>The loop over the rows ends at the first one that does not scan.\<close>

fun export_rows :: "(gotime \<Rightarrow> string) \<Rightarrow> audit_row option list \<Rightarrow> string" where
  "export_rows fmt [] = []"
| "export_rows fmt (None # rs) = []"
| "export_rows fmt (Some l # rs) = csv_Write (export_row fmt l) @ export_rows fmt rs"

definition ExportAudit ::
  "(gotime \<Rightarrow> string) \<Rightarrow> (string \<Rightarrow> string list \<Rightarrow> audit_row rows) \<Rightarrow> url_values \<Rightarrow> string response" where
  "ExportAudit fmt db q =
     (case buildAuditQuery q 100000 of (sql, args) \<Rightarrow>
        (case db sql args of
           QueryErr \<Rightarrow> writeErr StatusInternalServerError ''db error''
         | Rows rs err \<Rightarrow> writeJSON StatusOK (csv_Write export_header @ export_rows fmt rs)))"

section \<open>Reconstructed commands\<close>

record command_entry =
  ce_Offset :: duration \<comment> \<open>\<^verbatim>\<open>ts.Sub(started)\<close>\<close>
  ce_TS :: string
  ce_Command :: string

text \<open>Each kept byte is one rune of the buffer, so a byte from 0x80 on is written out as the two-byte
  encoding of that code point.\<close>

definition rune_bytes :: "char \<Rightarrow> string" where
  "rune_bytes c =
     (let n = (of_char c :: nat)
      in if n < 128 then [c] else [char_of (192 + n div 64), char_of (128 + n mod 64)])"

record keys =
  k_skipping :: bool
  k_buf :: string \<comment> \<open>the runes of the line so far, each below 256\<close>
  k_out :: "command_entry list"

definition no_keys :: keys where
  "no_keys = \<lparr>k_skipping = False, k_buf = [], k_out = []\<rparr>"

definition key_step :: "(gotime \<Rightarrow> string) \<Rightarrow> gotime \<Rightarrow> gotime \<Rightarrow> char \<Rightarrow> keys \<Rightarrow> keys" where
  "key_step fmt started ts b k =
     (let n = (of_char b :: nat)
      in if k_skipping k then (if 0x40 \<le> n \<and> n \<le> 0x7e \<or> b = CHR ''m'' then k\<lparr>k_skipping := False\<rparr> else k)
         else if n = 0x1b then k\<lparr>k_skipping := True\<rparr>
         else if n = 13 \<or> n = 10 then
           (let cmd = TrimSpace (concat (map rune_bytes (k_buf k)))
            in k\<lparr>k_buf := [],
                 k_out := (if cmd = [] then k_out k
                           else k_out k @ [\<lparr>ce_Offset = ts - started, ce_TS = fmt ts, ce_Command = cmd\<rparr>])\<rparr>)
         else if n = 0x7f \<or> n = 8 then k\<lparr>k_buf := butlast (k_buf k)\<rparr>
         else if n = 9 then k\<lparr>k_buf := k_buf k @ '' ''\<rparr>
         else if 0x20 \<le> n then k\<lparr>k_buf := k_buf k @ [b]\<rparr>
         else k)"

text \<open>One input row of the audit log (\<open>None\<close> when it does not scan), and all of them.\<close>

definition row_step :: "(gotime \<Rightarrow> string) \<Rightarrow> gotime \<Rightarrow> (string \<times> gotime) option \<Rightarrow> keys \<Rightarrow> keys" where
  "row_step fmt started r k =
     (case r of None \<Rightarrow> k | Some (d, ts) \<Rightarrow> fold (key_step fmt started ts) d k)"

definition SessionCommands ::
  "(gotime \<Rightarrow> string) \<Rightarrow> gotime option \<Rightarrow> (string \<times> gotime) rows \<Rightarrow> command_entry list response" where
  "SessionCommands fmt started q =
     (case started of
        None \<Rightarrow> writeErr StatusNotFound ''session not found''
      | Some st \<Rightarrow>
          (case q of
             QueryErr \<Rightarrow> writeErr StatusInternalServerError ''db error''
           | Rows rs err \<Rightarrow> writeJSON StatusOK (k_out (fold (row_step fmt st) rs no_keys))))"

record hit =
  h_SessionID :: string
  h_TS :: string
  h_Server :: string
  h_User :: string

text \<open>\<open>CommandSearch\<close>: the pattern handed to \<^verbatim>\<open>ILIKE\<close>; rows that do not scan are skipped.\<close>

definition CommandSearch ::
  "(gotime \<Rightarrow> string) \<Rightarrow> (string \<Rightarrow> (string \<times> gotime \<times> string \<times> string) rows) \<Rightarrow> string \<Rightarrow> hit list response" where
  "CommandSearch fmt db raw =
     (let q = TrimSpace raw
      in if q = [] then writeJSON StatusOK []
         else case db (''%'' @ q @ ''%'') of
                QueryErr \<Rightarrow> writeErr StatusInternalServerError ''db error''
              | Rows rs err \<Rightarrow>
                  writeJSON StatusOK
                    (map (\<lambda>(i, ts, sv, u). \<lparr>h_SessionID = i, h_TS = fmt ts, h_Server = sv, h_User = u\<rparr>)
                       (map the (filter (\<lambda>r. r \<noteq> None) rs))))"

section \<open>The query text carries no input\<close>

definition active :: "url_values \<Rightarrow> (string \<times> string) list" where
  "active q = filter (\<lambda>(k, c). q k \<noteq> []) eq_filters @ (if q ''q'' \<noteq> [] then [(''q'', ''data ILIKE'')] else [])"

definition value_of :: "url_values \<Rightarrow> string \<Rightarrow> string" where
  "value_of q k = (if k = ''q'' then ''%'' @ q k @ ''%'' else q k)"

definition numbered :: "nat \<Rightarrow> string list \<Rightarrow> string list" where
  "numbered n cs = map (\<lambda>(i, c). c @ '' $'' @ Itoa (int i)) (enumerate n cs)"

lemma numbered_append: "numbered n (xs @ ys) = numbered n xs @ numbered (n + length xs) ys"
  by (simp add: numbered_def enumerate_append_eq)

lemma fold_filter_if:
  "fold (filter_if q) fs (wh, args) =
     (wh @ numbered (Suc (length args)) (map snd (filter (\<lambda>(k, c). q k \<noteq> []) fs)),
      args @ map (q \<circ> fst) (filter (\<lambda>(k, c). q k \<noteq> []) fs))"
proof (induction fs arbitrary: wh args)
  case (Cons f fs)
  obtain k c where "f = (k, c)" by fastforce
  with Cons show ?case by (auto simp: filter_if_def add_filter_def numbered_def)
qed (simp add: numbered_def)

lemma numbered_one [simp]: "numbered n [c] = [c @ '' $'' @ Itoa (int n)]"
  by (simp add: numbered_def)

lemma numbered_Nil [simp]: "numbered n cs = [] \<longleftrightarrow> cs = []"
  by (auto simp: numbered_def enumerate_eq_zip)

definition sql_text :: "string list \<Rightarrow> int \<Rightarrow> string" where
  "sql_text wh limit =
     audit_select @ (if wh = [] then [] else '' WHERE '' @ join_with '' AND '' wh) @ '' ORDER BY ts DESC LIMIT '' @ Itoa limit"

lemma buildAuditQuery_eq:
  "buildAuditQuery q limit =
     (sql_text (numbered 1 (map snd (active q)) @ (if q ''human'' = ''1'' then [human_clause] else [])) limit,
      map (value_of q \<circ> fst) (active q))"
proof -
  let ?fs = "filter (\<lambda>(k, c). q k \<noteq> []) eq_filters"
  have vals: "map (value_of q \<circ> fst) ?fs = map (q \<circ> fst) ?fs"
    by (auto simp: eq_filters_def value_of_def)
  have "(if q ''q'' \<noteq> [] then add_filter ''data ILIKE'' (''%'' @ q ''q'' @ ''%'') (fold (filter_if q) eq_filters ([], []))
         else fold (filter_if q) eq_filters ([], []))
    = (numbered 1 (map snd (active q)), map (value_of q \<circ> fst) (active q))"
    using vals by (simp add: fold_filter_if add_filter_def active_def numbered_append del: map_map) (simp add: value_of_def)
  then show ?thesis
    unfolding buildAuditQuery_def sql_text_def
    by (simp add: case_prod_beta Let_def split del: if_split cong: if_cong) (simp split: if_split)
qed

text \<open>C38: The text of an audit query is a fixed text chosen by which filters are present: two requests
  that set the same filters are asked with the same text, whatever they contain, so no input is ever
  part of the SQL.  Each clause refers to its own argument: the \<open>i\<close>-th clause of the text ends in
  \<^verbatim>\<open>$i\<close>, and the \<open>i\<close>-th argument is the value given for that filter.\<close>

theorem audit_query_fixed_text:
  assumes "\<And>k. k \<in> set (''q'' # map fst eq_filters) \<Longrightarrow> q k = [] \<longleftrightarrow> q' k = []" "q ''human'' = ''1'' \<longleftrightarrow> q' ''human'' = ''1''"
  shows "fst (buildAuditQuery q limit) = fst (buildAuditQuery q' limit)
    \<and> fst (buildAuditQuery q limit) =
        sql_text (numbered 1 (map snd (active q)) @ (if q ''human'' = ''1'' then [human_clause] else [])) limit
    \<and> snd (buildAuditQuery q limit) = map (value_of q \<circ> fst) (active q)"
proof -
  have "(case kc of (k, c) \<Rightarrow> q k \<noteq> []) = (case kc of (k, c) \<Rightarrow> q' k \<noteq> [])" if "kc \<in> set eq_filters" for kc
    using assms(1) [of "fst kc"] that by (cases kc) force
  then have "active q = active q'"
    using assms(1) [of "''q''"] by (simp add: active_def cong: filter_cong)
  then have 1: "fst (buildAuditQuery q limit) = fst (buildAuditQuery q' limit)"
    using assms(2) by (simp add: buildAuditQuery_eq Let_def)
  then show ?thesis by (simp add: buildAuditQuery_eq)
qed

definition demo_query :: url_values where
  "demo_query = (\<lambda>k. if k = ''user_id'' then ''u1'' else if k = ''q'' then ''sudo'' else [])"

definition evil_query :: url_values where
  "evil_query = demo_query(''q'' := ''x'' @ [CHR 39] @ ''; DROP TABLE audit_logs'')"

theorem audit_query_fixed_text_witness:
  "fst (buildAuditQuery evil_query 10) = fst (buildAuditQuery demo_query 10)
   \<and> snd (buildAuditQuery demo_query 10) = [''u1'', ''%sudo%'']"
proof -
  have "evil_query k = [] \<longleftrightarrow> demo_query k = []" for k
    by (simp add: evil_query_def demo_query_def)
  then have "fst (buildAuditQuery evil_query 10) = fst (buildAuditQuery demo_query 10)"
    using audit_query_fixed_text [of evil_query demo_query 10] by (simp add: evil_query_def demo_query_def)
  moreover have "snd (buildAuditQuery demo_query 10) = map (value_of demo_query \<circ> fst) (active demo_query)"
    using audit_query_fixed_text [of demo_query demo_query 10] by simp
  moreover have "map (value_of demo_query \<circ> fst) (active demo_query) = [''u1'', ''%sudo%'']"
    by (simp add: active_def eq_filters_def demo_query_def value_of_def)
  ultimately show ?thesis by simp
qed

section \<open>Exported rows read back\<close>

text \<open>A reader of the CSV format (RFC 4180): a quoted field ends at a quote that is not doubled, any
  other field at a comma or line feed.\<close>

fun csv_unquote :: "string \<Rightarrow> string \<times> string" where
  "csv_unquote [] = ([], [])"
| "csv_unquote (c # s) =
     (if c \<noteq> CHR 34 then (case csv_unquote s of (f, r) \<Rightarrow> (c # f, r))
      else case s of
             [] \<Rightarrow> ([], [])
           | d # s' \<Rightarrow> if d = CHR 34 then (case csv_unquote s' of (f, r) \<Rightarrow> (CHR 34 # f, r)) else ([], s))"

definition csv_read_field :: "string \<Rightarrow> string \<times> string" where
  "csv_read_field s =
     (case s of
        [] \<Rightarrow> ([], [])
      | c # r \<Rightarrow> if c = CHR 34 then csv_unquote r
                 else (takeWhile (\<lambda>c. c \<noteq> CHR 44 \<and> c \<noteq> CHR 10) s, dropWhile (\<lambda>c. c \<noteq> CHR 44 \<and> c \<noteq> CHR 10) s))"

lemma csv_unquote_length: "csv_unquote s = (f, r) \<Longrightarrow> length r \<le> length s"
  by (induction s arbitrary: f r rule: csv_unquote.induct)
     (fastforce split: if_splits prod.splits list.splits)+

lemma csv_read_field_length: "csv_read_field s = (f, r) \<Longrightarrow> length r \<le> length s"
proof (cases s)
  case (Cons c t)
  assume "csv_read_field s = (f, r)"
  then show ?thesis
    using Cons csv_unquote_length [of t f r] length_dropWhile_le [of _ s]
    by (auto simp: csv_read_field_def le_SucI simp del: takeWhile.simps dropWhile.simps split: if_splits)
qed (simp add: csv_read_field_def)

function csv_read :: "string \<Rightarrow> string list \<times> string" where
  "csv_read s =
     (case csv_read_field s of
        (f, c # r) \<Rightarrow> if c = CHR 44 then (case csv_read r of (fs, r') \<Rightarrow> (f # fs, r')) else ([f], r)
      | (f, []) \<Rightarrow> ([f], []))"
  by pat_completeness auto
termination
  by (relation "measure length") (auto dest!: csv_read_field_length [OF sym] csv_read_field_length)

declare csv_read.simps [simp del]

lemma csv_unquote_quoted:
  "r = [] \<or> hd r \<noteq> CHR 34 \<Longrightarrow>
   csv_unquote (concat (map (\<lambda>c. if c = CHR 34 then [CHR 34, CHR 34] else [c]) f) @ CHR 34 # r) = (f, r)"
  by (induction f) (auto split: list.split)

lemma csv_read_field_written:
  assumes "c = CHR 44 \<or> c = CHR 10"
  shows "csv_read_field (csv_field f @ c # r) = (f, c # r)"
proof (cases "fieldNeedsQuotes f")
  case True
  then show ?thesis
    using assms csv_unquote_quoted [of "c # r" f] by (auto simp: csv_field_def csv_quote_def csv_read_field_def)
next
  case False
  then have free: "\<forall>x \<in> set f. x \<noteq> CHR 44 \<and> x \<noteq> CHR 10 \<and> x \<noteq> CHR 34"
    by (auto simp: fieldNeedsQuotes_def)
  then have "takeWhile (\<lambda>c. c \<noteq> CHR 44 \<and> c \<noteq> CHR 10) (f @ c # r) = f"
    "dropWhile (\<lambda>c. c \<noteq> CHR 44 \<and> c \<noteq> CHR 10) (f @ c # r) = c # r"
    using assms by (auto simp: takeWhile_append2 dropWhile_append2)
  with False free assms show ?thesis
    by (cases f) (auto simp: csv_field_def csv_read_field_def)
qed

lemma csv_read_Write: "fs \<noteq> [] \<Longrightarrow> csv_read (csv_Write fs @ r) = (fs, r)"
proof (induction fs rule: induct_list012)
  case (2 f)
  show ?case
    by (subst csv_read.simps) (simp add: csv_Write_def csv_read_field_written)
next
  case (3 f g fs)
  have "csv_Write (f # g # fs) @ r = csv_field f @ CHR 44 # (csv_Write (g # fs) @ r)"
    by (simp add: csv_Write_def)
  with 3 show ?case
    by (subst csv_read.simps) (simp add: csv_read_field_written)
qed simp

fun csv_read_all :: "nat \<Rightarrow> string \<Rightarrow> string list list" where
  "csv_read_all 0 s = []"
| "csv_read_all (Suc n) s = (if s = [] then [] else case csv_read s of (fs, r) \<Rightarrow> fs # csv_read_all n r)"

lemma csv_Write_not_Nil [simp]: "csv_Write fs \<noteq> []"
  by (simp add: csv_Write_def)

lemma export_rows_read: "length rows < n \<Longrightarrow> csv_read_all n (export_rows fmt (map Some rows)) = map (export_row fmt) rows"
proof (induction rows arbitrary: n)
  case Nil
  then show ?case by (cases n) simp_all
next
  case (Cons l rows)
  then show ?case
    by (cases n) (simp_all add: csv_read_Write export_row_def)
qed

text \<open>What a reader finds under a heading: the first line names the columns.\<close>

definition csv_column :: "string \<Rightarrow> string list list \<Rightarrow> string option list" where
  "csv_column name sheet = (case sheet of [] \<Rightarrow> [] | h # rs \<Rightarrow> map (\<lambda>r. map_of (zip h r) name) rs)"

text \<open>C39: The exported CSV loses nothing and labels what it holds: a reader of the CSV format finds, for every row the
  database returned and in that order, the row's id, time, event type, session, server, user and data in the columns of
  those names (a missing value as the empty text), whatever commas, quotes or line breaks the recorded data contains.\<close>

theorem export_reads_back:
  assumes "db (fst (buildAuditQuery q 100000)) (snd (buildAuditQuery q 100000)) = Rows (map Some rows) err"
    and "length rows + 1 < n"
  shows "let sheet = csv_read_all n (body (ExportAudit fmt db q)) in
    csv_column ''id'' sheet = map (\<lambda>l. Some (Itoa (row_id l))) rows \<and>
    csv_column ''ts'' sheet = map (\<lambda>l. Some (fmt (row_ts l))) rows \<and>
    csv_column ''event_type'' sheet = map (\<lambda>l. Some (event_type l)) rows \<and>
    csv_column ''session_id'' sheet = map (\<lambda>l. Some (coalesce (session_id l))) rows \<and>
    csv_column ''server_id'' sheet = map (\<lambda>l. Some (coalesce (server_id l))) rows \<and>
    csv_column ''user_id'' sheet = map (\<lambda>l. Some (coalesce (user_id l))) rows \<and>
    csv_column ''data'' sheet = map (\<lambda>l. Some (coalesce (data l))) rows"
proof -
  obtain m where n: "n = Suc m" "length rows < m" using assms(2) by (cases n) auto
  have "ExportAudit fmt db q = writeJSON StatusOK (csv_Write export_header @ export_rows fmt (map Some rows))"
    using assms(1) by (simp add: ExportAudit_def case_prod_beta)
  with n have "csv_read_all n (body (ExportAudit fmt db q)) = export_header # map (export_row fmt) rows"
    by (simp add: csv_read_Write export_header_def export_rows_read)
  then show ?thesis by (simp add: csv_column_def export_header_def export_row_def)
qed

definition demo_row :: audit_row where
  "demo_row = \<lparr>row_id = 7, session_id = Some ''s1'', server_id = None, user_id = Some ''u1'', event_type = ''output'',
     data = Some (''a,'' @ [CHR 34] @ ''b'' @ [CHR 10]), row_hash = None, prev_hash = None, row_ts = 0\<rparr>"

theorem export_reads_back_witness:
  "csv_column ''data'' (csv_read_all 3 (body (ExportAudit (\<lambda>t. ''t'') (\<lambda>sql args. Rows [Some demo_row] False) demo_query))) =
     [Some (''a,'' @ [CHR 34] @ ''b'' @ [CHR 10])]"
  using export_reads_back [of "\<lambda>sql args. Rows [Some demo_row] False" demo_query "[demo_row]" False 3 "\<lambda>t. ''t''"]
  by (simp add: demo_row_def Let_def)

section \<open>Commands come back as typed\<close>

text \<open>What a key does to the line and to the commands does not depend on the clock, nor on how the
  keystrokes were grouped into rows.\<close>

definition keys_view :: "keys \<Rightarrow> bool \<times> string \<times> string list" where
  "keys_view k = (k_skipping k, k_buf k, map ce_Command (k_out k))"

lemma key_step_view: "keys_view k = keys_view k' \<Longrightarrow>
   keys_view (key_step fmt st ts b k) = keys_view (key_step fmt' st' ts' b k')"
  by (auto simp: keys_view_def key_step_def Let_def)

lemma keys_view_fold: "keys_view k = keys_view k' \<Longrightarrow>
   keys_view (fold (key_step fmt st ts) d k) = keys_view (fold (key_step fmt' st' ts') d k')"
proof (induction d arbitrary: k k')
  case (Cons b d)
  show ?case using Cons.IH [OF key_step_view [OF Cons.prems]] by simp
qed simp

lemma rows_view:
  "keys_view (fold (row_step fmt st) (map Some rs) k) = keys_view (fold (key_step fmt st 0) (concat (map fst rs)) k)"
proof (induction rs arbitrary: k)
  case (Cons r rs)
  obtain d ts where "r = (d, ts)" by fastforce
  then show ?case
    using Cons keys_view_fold [OF keys_view_fold [of k k fmt st ts d fmt st 0], of fmt st 0 "concat (map fst rs)" fmt st 0]
    by (simp add: row_step_def)
qed simp

definition plain :: "char \<Rightarrow> bool" where
  "plain c \<longleftrightarrow> 0x20 \<le> (of_char c :: nat) \<and> (of_char c :: nat) \<le> 0x7e"

lemma plain_text: "list_all plain l \<Longrightarrow> concat (map rune_bytes l) = l"
  by (induction l) (auto simp: plain_def rune_bytes_def Let_def)

lemma keys_typed:
  "list_all plain l \<Longrightarrow> \<not> k_skipping k \<Longrightarrow> fold (key_step fmt st ts) l k = k\<lparr>k_buf := k_buf k @ l\<rparr>"
proof (induction l arbitrary: k)
  case (Cons c l)
  then have "key_step fmt st ts c k = k\<lparr>k_buf := k_buf k @ [c]\<rparr>"
    by (auto simp: key_step_def plain_def Let_def)
  with Cons show ?case by simp
qed simp

lemma line_typed:
  assumes "list_all plain l" "\<not> k_skipping k" "k_buf k = []"
  shows "keys_view (fold (key_step fmt st ts) (l @ [CHR 13]) k) =
    (False, [], map ce_Command (k_out k) @ (if TrimSpace l = [] then [] else [TrimSpace l]))"
  using assms by (simp add: keys_typed keys_view_def key_step_def Let_def plain_text)

lemma lines_typed:
  assumes "\<And>l. l \<in> set ls \<Longrightarrow> list_all plain l" "\<not> k_skipping k" "k_buf k = []"
  shows "keys_view (fold (key_step fmt st ts) (concat (map (\<lambda>l. l @ [CHR 13]) ls)) k) =
    (False, [], map ce_Command (k_out k) @ filter (\<lambda>c. c \<noteq> []) (map TrimSpace ls))"
  using assms
proof (induction ls arbitrary: k)
  case (Cons l ls)
  let ?k = "fold (key_step fmt st ts) (l @ [CHR 13]) k"
  have v: "keys_view ?k = (False, [], map ce_Command (k_out k) @ (if TrimSpace l = [] then [] else [TrimSpace l]))"
    using Cons.prems by (intro line_typed) auto
  then have "\<not> k_skipping ?k" "k_buf ?k = []" by (simp_all add: keys_view_def)
  with Cons.IH [of ?k] Cons.prems v show ?case by (auto simp: keys_view_def)
qed (simp add: keys_view_def)

text \<open>C40: The commands of a session come back as they were typed: if the recorded keystrokes are lines
  of printable ASCII text, each ended by return, the timeline lists exactly those lines, trimmed, in order and
  without the blank ones, however the keystrokes were split into audit rows.\<close>

theorem commands_as_typed:
  assumes "list_all (list_all plain) ls" "concat (map fst rs) = concat (map (\<lambda>l. l @ [CHR 13]) ls)"
  shows "map ce_Command (body (SessionCommands fmt (Some st) (Rows (map Some rs) err))) =
    filter (\<lambda>c. c \<noteq> []) (map TrimSpace ls)"
proof -
  have "keys_view (fold (row_step fmt st) (map Some rs) no_keys) = (False, [], filter (\<lambda>c. c \<noteq> []) (map TrimSpace ls))"
    using lines_typed [of ls no_keys] assms by (auto simp: rows_view no_keys_def list_all_iff)
  then show ?thesis by (simp add: SessionCommands_def keys_view_def)
qed

theorem commands_as_typed_witness:
  "map ce_Command (body (SessionCommands (\<lambda>t. []) (Some 0) (Rows (map Some [(''l'', 5), (''s'' @ [CHR 13, CHR 13], 6)]) False))) = [''ls'']"
proof -
  have "TrimSpace ''ls'' = ''ls''" by (simp add: TrimSpace_fix printable_def)
  then show ?thesis
    using commands_as_typed [of "[''ls'', []]" "[(''l'', 5), (''s'' @ [CHR 13, CHR 13], 6)]" "\<lambda>t. []" 0 False]
    by (simp add: plain_def)
qed

text \<open>An arrow key is an escape sequence of three bytes whose second byte already ends the skipping,
  so its last letter is taken for input; a typed letter outside ASCII is listed as two other ones.\<close>

lemma arrow_key_leaks:
  "map ce_Command (k_out (fold (key_step (\<lambda>t. []) 0 0) (''ls'' @ [CHR 0x1b] @ ''[A'' @ [CHR 13]) no_keys)) = [''lsA'']"
  by code_simp

lemma non_ascii_mangled:
  "map ce_Command (k_out (fold (key_step (\<lambda>t. []) 0 0) [CHR 0xC3, CHR 0xA9, CHR 13] no_keys))
     = [[CHR 0xC3, CHR 0x83, CHR 0xC2, CHR 0xA9]]"
  by code_simp

end
