(* ===== verification/Reports.thy ===== *)
theory Reports
  imports Complex_Main AuditApi Users SshProxy
begin

text \<open>
  Read-only views for people (\<^verbatim>\<open>internal/api/reports.go\<close>, \<^verbatim>\<open>internal/api/metrics.go\<close>,
  \<^verbatim>\<open>internal/api/dashboard.go\<close>) and the RDP endpoint (\<^verbatim>\<open>internal/proxy/rdp.go\<close>), which
  hands the connection to guacd.  Formatting a time and reading a row are parameters.
\<close>

section \<open>The access review\<close>

record AccessReviewRow =
  rv_Username :: string
  rv_Role :: string
  rv_MFAEnabled :: bool
  rv_Sessions30d :: nat
  rv_ActiveGrants :: nat
  rv_LastSeen :: string
  rv_DistinctHosts :: nat

text \<open>
  The query, over the rows of its three tables: the sessions of the last thirty
  days of a user, the grants of a user that are approved and not expired, joined to
  the users (\<open>us\<close>, in the order of their names).  \<open>COUNT(DISTINCT ...)\<close> does not count
  NULL.
\<close>

definition thirty_days :: duration where
  "thirty_days = 30 * 24 * 60 * Minute"

definition recent_sessions :: "gotime \<Rightarrow> session_row list \<Rightarrow> string \<Rightarrow> session_row list" where
  "recent_sessions now ss u = filter (\<lambda>s. sr_user_id s = Some u \<and> sr_started_at s > now - thirty_days) ss"

definition open_grants :: "gotime \<Rightarrow> access_request list \<Rightarrow> string \<Rightarrow> access_request list" where
  "open_grants now rs u = filter (\<lambda>a. ar_UserID a = Some u \<and> ar_Status a = ''approved'' \<and>
     (case ar_ExpiresAt a of None \<Rightarrow> True | Some e \<Rightarrow> e > now)) rs"

definition last_seen :: "session_row list \<Rightarrow> gotime option" where
  "last_seen ss = (case ss of [] \<Rightarrow> None | _ \<Rightarrow> Some (Max (set (map sr_started_at ss))))"

definition review_row ::
  "(gotime \<Rightarrow> string) \<Rightarrow> gotime \<Rightarrow> session_row list \<Rightarrow> access_request list \<Rightarrow> user \<Rightarrow> AccessReviewRow" where
  "review_row fmt now ss rs u =
     (let s = recent_sessions now ss (us_ID u)
      in \<lparr>rv_Username = us_Username u, rv_Role = us_Role u, rv_MFAEnabled = us_MFAEnabled u,
          rv_Sessions30d = length s, rv_ActiveGrants = length (open_grants now rs (us_ID u)),
          rv_LastSeen = (case last_seen s of None \<Rightarrow> [] | Some t \<Rightarrow> fmt t),
          rv_DistinctHosts = length (remdups (List.map_filter sr_server_id s))\<rparr>)"

text \<open>\<open>err\<close>: the text of the error of the query; \<open>scan_fails\<close>: some row does not scan.\<close>

definition AccessReview ::
  "string option \<Rightarrow> bool \<Rightarrow> (gotime \<Rightarrow> string) \<Rightarrow> gotime \<Rightarrow> session_row list \<Rightarrow> access_request list \<Rightarrow> user list \<Rightarrow>
   AccessReviewRow list response" where
  "AccessReview err scan_fails fmt now ss rs us =
     (case err of
        Some e \<Rightarrow> writeErr StatusInternalServerError (''db error: '' @ e)
      | None \<Rightarrow> if scan_fails \<and> us \<noteq> [] then writeErr StatusInternalServerError ''scan error''
                else writeJSON StatusOK (map (review_row fmt now ss rs) us))"

section \<open>The session report\<close>

record report_row =
  rp_id :: string
  rp_started :: gotime
  rp_ended :: "gotime option"
  rp_user :: string
  rp_host :: string
  rp_proto :: string
  rp_reason :: string
  rp_read :: int
  rp_written :: int

definition report_header :: "string list" where
  "report_header = [''session_id'', ''started'', ''ended'', ''duration_sec'', ''user'', ''host'', ''protocol'', ''reason'',
     ''bytes_read'', ''bytes_written'']"

text \<open>Whole seconds towards zero; the conversion through a float is exact below ninety-seven days.\<close>

definition whole_seconds :: "duration \<Rightarrow> int" where
  "whole_seconds d = (if 0 \<le> d then d div Second else - ((- d) div Second))"

definition report_line :: "(gotime \<Rightarrow> string) \<Rightarrow> report_row \<Rightarrow> string list" where
  "report_line fmt r =
     [rp_id r, fmt (rp_started r), (case rp_ended r of None \<Rightarrow> [] | Some e \<Rightarrow> fmt e),
      (case rp_ended r of None \<Rightarrow> [] | Some e \<Rightarrow> Itoa (whole_seconds (e - rp_started r))),
      rp_user r, rp_host r, rp_proto r, rp_reason r, Itoa (rp_read r), Itoa (rp_written r)]"

fun report_lines :: "(gotime \<Rightarrow> string) \<Rightarrow> report_row option list \<Rightarrow> string" where
  "report_lines fmt [] = []"
| "report_lines fmt (None # rs) = []"
| "report_lines fmt (Some r # rs) = csv_Write (report_line fmt r) @ report_lines fmt rs"

definition SessionReportCSV :: "(gotime \<Rightarrow> string) \<Rightarrow> report_row rows \<Rightarrow> string response" where
  "SessionReportCSV fmt q =
     (case q of
        QueryErr \<Rightarrow> writeErr StatusInternalServerError ''db error''
      | Rows rs _ \<Rightarrow> JSON StatusOK (csv_Write report_header @ report_lines fmt rs))"

section \<open>Metrics\<close>

text \<open>A sample of \<^verbatim>\<open>server_metrics\<close> as the query returns it; its numbers are served as they are.\<close>

record 'n metric_sample =
  ms_CPUPct :: 'n
  ms_MemUsedPct :: 'n
  ms_DiskUsedPct :: 'n
  ms_NetRxKBs :: 'n
  ms_NetTxKBs :: 'n
  ms_Load1 :: 'n

record 'n MetricPoint = "'n metric_sample" +
  mp_TS :: string

definition metric_minutes :: "url_values \<Rightarrow> int" where
  "metric_minutes q =
     (if q ''minutes'' = [] then 60
      else case Atoi (q ''minutes'') of (n, ok) \<Rightarrow> if ok \<and> n > 0 \<and> n \<le> 1440 then n else 60)"

definition metric_point :: "(gotime \<Rightarrow> string) \<Rightarrow> gotime \<times> 'n metric_sample \<Rightarrow> 'n MetricPoint" where
  "metric_point fmt = (\<lambda>(t, v). metric_sample.extend v (MetricPoint.fields (fmt t)))"

definition ServerMetrics ::
  "(gotime \<Rightarrow> string) \<Rightarrow> (string \<Rightarrow> int \<Rightarrow> (gotime \<times> 'n metric_sample) rows) \<Rightarrow> string \<Rightarrow> url_values \<Rightarrow> 'n MetricPoint list response" where
  "ServerMetrics fmt db i q =
     (case db i (metric_minutes q) of
        QueryErr \<Rightarrow> writeErr StatusInternalServerError ''db error''
      | Rows rs _ \<Rightarrow> writeJSON StatusOK (map (metric_point fmt) (List.map_filter (\<lambda>r. r) rs)))"

section \<open>The dashboard\<close>

record DashStats =
  ds_HostsTotal :: int
  ds_HostsOnline :: int
  ds_Agents :: int
  ds_ActiveSessions :: nat
  ds_Sessions24h :: int
  ds_FailedLogins24h :: int

record ActiveSession =
  as_ID :: string
  as_User :: string
  as_Server :: string
  as_Protocol :: string
  as_StartedAt :: string

record DashEvent =
  de_TS :: string
  de_EventType :: string
  de_User :: string
  de_Server :: string
  de_Detail :: string

record DashboardData =
  dd_Stats :: DashStats
  dd_Active :: "ActiveSession list"
  dd_Events :: "DashEvent list"
  dd_Activity :: "(string \<times> int) list"

text \<open>The six queries; a query that fails leaves its part at zero or empty, and so does a row.\<close>

record dash_db =
  db_hosts :: "(int \<times> int \<times> int) option"
  db_sessions24h :: "int option"
  db_failed24h :: "int option"
  db_active :: "(string \<times> string \<times> string \<times> string \<times> gotime) rows"
  db_events :: "(gotime \<times> string \<times> string \<times> string \<times> string) rows"
  db_hours :: "(string \<times> int) rows"

definition scanned :: "'r rows \<Rightarrow> 'r list" where
  "scanned q = (case q of QueryErr \<Rightarrow> [] | Rows rs _ \<Rightarrow> List.map_filter (\<lambda>r. r) rs)"

definition active_session :: "(gotime \<Rightarrow> string) \<Rightarrow> string \<times> string \<times> string \<times> string \<times> gotime \<Rightarrow> ActiveSession" where
  "active_session fmt = (\<lambda>(i, u, s, p, t). \<lparr>as_ID = i, as_User = u, as_Server = s, as_Protocol = p, as_StartedAt = fmt t\<rparr>)"

definition dash_event :: "(gotime \<Rightarrow> string) \<Rightarrow> gotime \<times> string \<times> string \<times> string \<times> string \<Rightarrow> DashEvent" where
  "dash_event fmt = (\<lambda>(t, et, u, s, d). \<lparr>de_TS = fmt t, de_EventType = et, de_User = u, de_Server = s,
     de_Detail = (if length d > 120 then take 120 d else d)\<rparr>)"

definition Dashboard :: "(gotime \<Rightarrow> string) \<Rightarrow> dash_db \<Rightarrow> DashboardData response" where
  "Dashboard fmt db =
     (let act = map (active_session fmt) (scanned (db_active db));
          (h, o', a) = (case db_hosts db of None \<Rightarrow> (0, 0, 0) | Some x \<Rightarrow> x)
      in writeJSON StatusOK
        \<lparr>dd_Stats = \<lparr>ds_HostsTotal = h, ds_HostsOnline = o', ds_Agents = a, ds_ActiveSessions = length act,
           ds_Sessions24h = (case db_sessions24h db of None \<Rightarrow> 0 | Some n \<Rightarrow> n),
           ds_FailedLogins24h = (case db_failed24h db of None \<Rightarrow> 0 | Some n \<Rightarrow> n)\<rparr>,
         dd_Active = act, dd_Events = map (dash_event fmt) (scanned (db_events db)), dd_Activity = scanned (db_hours db)\<rparr>)"

section \<open>RDP\<close>

text \<open>\<^verbatim>\<open>fmt.Sscanf(v, "%d", &n)\<close>: leading blanks, a sign, digits; any failure leaves 0.\<close>

definition queryInt :: "url_values \<Rightarrow> string \<Rightarrow> int" where
  "queryInt q key =
     (let t = trim_left (filter (\<lambda>w. w \<noteq> [CHR 10]) utf8_spaces) (q key);
          neg = HasPrefix t ''-'';
          ds = takeWhile is_digit (if neg \<or> HasPrefix t ''+'' then drop 1 t else t);
          n = int (digits_value ds)
      in if ds = [] then 0
         else if neg then (if n \<le> 2 ^ 63 then - n else 0) else (if n < 2 ^ 63 then n else 0))"

record guac_config =
  gc_Protocol :: string
  gc_Parameters :: "string \<rightharpoonup> string"
  gc_Width :: int
  gc_Height :: int

text \<open>The defaults of \<^verbatim>\<open>guac.NewGuacamoleConfiguration\<close> are the argument \<open>dflt\<close>.\<close>

definition rdp_config :: "guac_config \<Rightarrow> url_values \<Rightarrow> server \<Rightarrow> guac_config" where
  "rdp_config dflt q srv =
     (let ps = [''hostname'' \<mapsto> sv_Host srv, ''port'' \<mapsto> Itoa (sv_Port srv), ''ignore-cert'' \<mapsto> ''true''];
          w = queryInt q ''width''; h = queryInt q ''height''
      in dflt\<lparr>gc_Protocol := ''rdp'',
              gc_Parameters := (case sv_SSHUser srv of None \<Rightarrow> ps | Some u \<Rightarrow> ps(''username'' \<mapsto> u)),
              gc_Width := (if w > 0 then w else gc_Width dflt), gc_Height := (if h > 0 then h else gc_Height dflt)\<rparr>)"

record rdp_env =
  re_load :: "string option"
  re_dial :: "string option"
  re_handshake :: "guac_config \<Rightarrow> string option"

text \<open>The tunnel is its configuration, and how many connections to guacd stay open.\<close>

definition rdp_connect ::
  "rdp_env \<Rightarrow> guac_config \<Rightarrow> string \<Rightarrow> url_values \<Rightarrow> ('a tables_scheme) \<Rightarrow> nat \<Rightarrow> (string + guac_config) \<times> nat" where
  "rdp_connect env dflt var q t conns =
     (let serverID = (if var = [] then q ''server_id'' else var)
      in case loadServer (re_load env) serverID t of
           Inl e \<Rightarrow> (Inl (''server not found: '' @ e), conns)
         | Inr srv \<Rightarrow>
             (case re_dial env of
                Some e \<Rightarrow> (Inl (''dial guacd: '' @ e), conns)
              | None \<Rightarrow>
                  (let cfg = rdp_config dflt q srv
                   in case re_handshake env cfg of
                        Some e \<Rightarrow> (Inl (''guac handshake: '' @ e), conns)
                      | None \<Rightarrow> (Inr cfg, conns + 1))))"


section \<open>What the views tell\<close>

text \<open>The claims a user's token carries.\<close>

definition claims_of :: "user \<Rightarrow> claims" where
  "claims_of u = \<lparr>cl_UserID = us_ID u, cl_Username = us_Username u, cl_Role = us_Role u\<rparr>"

lemma admitted_servers:
  fixes t :: "'a tables_scheme"
  assumes "us_Role u \<noteq> RoleAdmin"
  shows "{serverID. jitOK True False now (Some (claims_of u)) serverID t} =
    ar_ServerID ` set (open_grants now (t_requests t) (us_ID u))"
  using assms
  by (auto simp: claims_of_def jitOK_def HasActiveGrant_def grants_def open_grants_def list_ex_iff image_iff)

text \<open>C37: The access review agrees with enforcement, for users who are not administrators: such a user is shown with an
  active grant exactly when just-in-time access, asked with the claims of the user's own token, would let that user reach some server at that moment,
  and with at least as many grants as servers it would let the user reach.  Administrators need no grant: they reach every server
  whatever the review shows of grants, and it shows their role.\<close>

theorem review_agrees_with_enforcement:
  fixes t :: "'a tables_scheme"
  shows "(let row = review_row fmt now ss (t_requests t) u;
             admitted = {serverID. jitOK True False now (Some (claims_of u)) serverID t}
         in (rv_Role row \<noteq> RoleAdmin \<longrightarrow> (0 < rv_ActiveGrants row \<longleftrightarrow> admitted \<noteq> {}) \<and> card admitted \<le> rv_ActiveGrants row)
            \<and> (rv_Role row = RoleAdmin \<longrightarrow> admitted = UNIV))"
proof -
  have "card (ar_ServerID ` set gs) \<le> length gs" for gs :: "access_request list"
    using card_image_le [of "set gs" ar_ServerID] card_length [of gs] by simp
  then show ?thesis
    by (cases "us_Role u = RoleAdmin")
       (simp_all add: review_row_def Let_def admitted_servers, simp add: claims_of_def jitOK_def)
qed

definition review_tables :: tables where
  "review_tables = no_tables\<lparr>t_requests := [\<lparr>ar_ID = ''r1'', ar_UserID = Some ''u1'', ar_ServerID = ''h1'', ar_Reason = None,
     ar_Status = ''approved'', ar_RequestedAt = 0, ar_DecidedAt = Some 1, ar_DecidedBy = Some ''root'', ar_ExpiresAt = Some 60\<rparr>]\<rparr>"

theorem review_agrees_with_enforcement_witness:
  "us_Role toy_user \<noteq> RoleAdmin \<and> 0 < rv_ActiveGrants (review_row (\<lambda>t. []) 5 [] (t_requests review_tables) toy_user) \<and>
   (\<exists>serverID. jitOK True False 5 (Some (claims_of toy_user)) serverID review_tables)"
proof -
  have "us_Role toy_user \<noteq> RoleAdmin" by (simp add: toy_user_def RoleAdmin_def)
  moreover have "0 < rv_ActiveGrants (review_row (\<lambda>t. []) 5 [] (t_requests review_tables) toy_user)"
    by (simp add: review_row_def open_grants_def review_tables_def toy_user_def Let_def)
  ultimately show ?thesis
    using review_agrees_with_enforcement [of "\<lambda>t. []" 5 "[]" review_tables toy_user]
    by (auto simp: Let_def review_row_def)
qed

lemma review_counts_sessions:
  "rv_DistinctHosts (review_row fmt now ss rs u) \<le> rv_Sessions30d (review_row fmt now ss rs u)"
proof -
  have "length (remdups (List.map_filter f xs)) \<le> length xs" for f :: "session_row \<Rightarrow> string option" and xs
    unfolding List.map_filter_def
    by (rule order_trans [OF length_remdups_leq]) simp
  then show ?thesis by (simp add: review_row_def Let_def)
qed

lemma report_lines_read: "length rs < n \<Longrightarrow> csv_read_all n (report_lines fmt (map Some rs)) = map (report_line fmt) rs"
proof (induction rs arbitrary: n)
  case Nil
  then show ?case by (cases n) simp_all
next
  case (Cons r rs)
  then show ?case by (cases n) (simp_all add: csv_read_Write report_line_def)
qed

text \<open>A reader of the session report gets back the heading and every session of the answer.\<close>

lemma report_reads_back:
  assumes "length rs + 1 < n"
  shows "csv_read_all n (body (SessionReportCSV fmt (Rows (map Some rs) err))) = report_header # map (report_line fmt) rs"
proof -
  obtain m where n: "n = Suc m" "length rs < m" using assms by (cases n) auto
  then show ?thesis by (simp add: SessionReportCSV_def csv_read_Write report_header_def report_lines_read)
qed

lemma whole_seconds_bounds:
  "\<bar>whole_seconds d\<bar> * Second \<le> \<bar>d\<bar>" "\<bar>d\<bar> < (\<bar>whole_seconds d\<bar> + 1) * Second"
  unfolding whole_seconds_def by (auto simp: minus_div_mult_eq_mod [symmetric])

text \<open>The window of the metrics query stays within a day, whatever the request says.\<close>

lemma metric_minutes_bounds: "1 \<le> metric_minutes q \<and> metric_minutes q \<le> 1440"
  by (auto simp: metric_minutes_def split: prod.split)

lemma dashboard_consistent:
  "\<exists>d. Dashboard fmt db = JSON 200 d \<and> ds_ActiveSessions (dd_Stats d) = length (dd_Active d) \<and>
     (\<forall>e \<in> set (dd_Events d). length (de_Detail e) \<le> 120)"
  by (auto simp: Dashboard_def Let_def writeJSON_def dash_event_def split: prod.split)

text \<open>A detail is cut at a byte, not at a rune.\<close>

lemma detail_cut_inside_rune:
  "de_Detail (dash_event fmt (t, et, u, s, replicate 119 (CHR ''x'') @ [CHR 0xC3, CHR 0xA9])) = replicate 119 (CHR ''x'') @ [CHR 0xC3]"
  by (simp add: dash_event_def)

section \<open>RDP does not ask\<close>

text \<open>Neither the caller nor the grants on record matter to an RDP connection, whatever just-in-time access requires;
  and a connection that fails leaves none open to guacd.\<close>

lemma rdp_ignores_grants:
  "rdp_connect env dflt var q (t\<lparr>t_requests := rs\<rparr>) n = rdp_connect env dflt var q t n"
  by (simp add: rdp_connect_def loadServer_def Let_def split: option.split)

lemma rdp_connections:
  "rdp_connect env dflt var q t n = (r, n') \<Longrightarrow> n' = (case r of Inl e \<Rightarrow> n | Inr c \<Rightarrow> n + 1)"
  by (auto simp: rdp_connect_def Let_def split: sum.splits option.splits)

lemma rdp_target:
  assumes "rdp_connect env dflt var q t n = (Inr c, n')"
  shows "\<exists>srv. t_servers t (if var = [] then q ''server_id'' else var) = Some srv \<and>
    gc_Parameters c ''hostname'' = Some (sv_Host srv) \<and> gc_Parameters c ''port'' = Some (Itoa (sv_Port srv)) \<and>
    gc_Parameters c ''ignore-cert'' = Some ''true''"
  using assms
  by (auto simp: rdp_connect_def loadServer_def rdp_config_def Let_def split: sum.splits option.splits if_splits)

end
