(* ===== verification/HostMonitor.thy ===== *)
theory HostMonitor
  imports GoStd Codec
begin

text \<open>
  Host command logging on the agent (\<^verbatim>\<open>cmd/agent/procmon.go\<close>, \<^verbatim>\<open>cmd/agent/procmon_linux.go\<close>): the
  messages of the kernel's process connector, the fallback that polls \<^verbatim>\<open>/proc\<close>, and the event built for a
  process.  The files of \<^verbatim>\<open>/proc\<close>, the user database and the clock are arguments.

  Slicing a byte slice outside its bounds panics in Go; the parser of connector messages, which reads
  untrusted lengths, is therefore written with checked slices, and \<open>None\<close> is a panic.
\<close>

section \<open>Events\<close>

record execEvent =
  ee_Type :: string
  ee_Source :: string
  ee_PID :: int
  ee_PPID :: int
  ee_UID :: int
  ee_User :: string
  ee_Comm :: string
  ee_Cmdline :: string
  ee_TS :: string

record proc_files =
  pf_cmdline :: "string option"
  pf_comm :: "string option"
  pf_status :: "string option"

record host =
  ho_proc :: "int \<Rightarrow> proc_files"
  ho_users :: "int \<Rightarrow> string option" \<comment> \<open>\<^verbatim>\<open>user.LookupId\<close>\<close>
  ho_now :: string \<comment> \<open>the time, printed\<close>

type_synonym uid_cache = "int \<rightharpoonup> string"

definition lookupUser :: "host \<Rightarrow> int \<Rightarrow> uid_cache \<Rightarrow> string \<times> uid_cache" where
  "lookupUser h uid cache =
     (if uid < 0 then ([], cache)
      else case cache uid of
             Some n \<Rightarrow> (n, cache)
           | None \<Rightarrow> let n = (case ho_users h uid of None \<Rightarrow> [] | Some u \<Rightarrow> u) in (n, cache(uid \<mapsto> n)))"

text \<open>The loop over the lines of \<^verbatim>\<open>status\<close>.\<close>

definition status_line :: "string \<Rightarrow> int \<times> int \<Rightarrow> int \<times> int" where
  "status_line line up =
     (case up of (uid, ppid) \<Rightarrow>
        if HasPrefix line ''PPid:'' then (uid, fst (Atoi (TrimSpace (TrimPrefix line ''PPid:''))))
        else if HasPrefix line ''Uid:'' then
          (case Fields (TrimPrefix line ''Uid:'') of [] \<Rightarrow> (uid, ppid) | f # _ \<Rightarrow> (fst (Atoi f), ppid))
        else (uid, ppid))"

definition nul_to_space :: "string \<Rightarrow> string" where
  "nul_to_space s = map (\<lambda>c. if c = CHR 0x00 then CHR 32 else c) s"

definition buildExecEvent :: "host \<Rightarrow> int \<Rightarrow> uid_cache \<Rightarrow> execEvent option \<times> uid_cache" where
  "buildExecEvent h pid cache =
     (let pf = ho_proc h pid
      in case pf_cmdline pf of
           None \<Rightarrow> (None, cache)
         | Some raw \<Rightarrow>
             (case (case pf_status pf of
                      None \<Rightarrow> (-1, -1)
                    | Some st \<Rightarrow> fold status_line (split_on (CHR 10) st) (-1, -1)) of (uid, ppid) \<Rightarrow>
              (case lookupUser h uid cache of (u, cache') \<Rightarrow>
                 (Some \<lparr>ee_Type = ''exec'', ee_Source = [], ee_PID = pid, ee_PPID = ppid, ee_UID = uid, ee_User = u,
                        ee_Comm = (case pf_comm pf of None \<Rightarrow> [] | Some c \<Rightarrow> TrimSpace c),
                        ee_Cmdline = TrimSpace (nul_to_space raw), ee_TS = ho_now h\<rparr>, cache'))))"

section \<open>Polling\<close>

record poll =
  po_seen :: "int list" \<comment> \<open>the keys of the map \<^verbatim>\<open>seen\<close>\<close>
  po_first :: bool
  po_cache :: uid_cache

definition poll_entry :: "host \<Rightarrow> string \<Rightarrow> execEvent list \<times> int list \<times> poll \<Rightarrow> execEvent list \<times> int list \<times> poll" where
  "poll_entry h name st =
     (case st of (evs, current, p) \<Rightarrow>
        (case Atoi name of
           (_, False) \<Rightarrow> (evs, current, p)
         | (pid, True) \<Rightarrow>
             if pid \<in> set (po_seen p) then (evs, pid # current, p)
             else let p1 = p\<lparr>po_seen := pid # po_seen p\<rparr>
                  in if po_first p then (evs, pid # current, p1)
                     else (case buildExecEvent h pid (po_cache p1) of
                             (None, c) \<Rightarrow> (evs, pid # current, p1\<lparr>po_cache := c\<rparr>)
                           | (Some ev, c) \<Rightarrow>
                               (if ee_Cmdline ev = [] then evs else evs @ [ev\<lparr>ee_Source := ''poll''\<rparr>],
                                pid # current, p1\<lparr>po_cache := c\<rparr>))))"

text \<open>One scan: the names in \<^verbatim>\<open>/proc\<close>, then forget the processes that are gone.\<close>

definition poll_scan :: "host \<Rightarrow> string list \<Rightarrow> poll \<Rightarrow> execEvent list \<times> poll" where
  "poll_scan h names p =
     (case fold (poll_entry h) names ([], [], p) of (evs, current, p1) \<Rightarrow>
        (evs, p1\<lparr>po_seen := filter (\<lambda>pid. pid \<in> set current) (po_seen p1), po_first := False\<rparr>))"

section \<open>The process connector\<close>

definition nlmsgHdrLen :: nat where "nlmsgHdrLen = 16"
definition cnMsgHdrLen :: nat where "cnMsgHdrLen = 20"
definition procEvtHdr :: nat where "procEvtHdr = 16"
definition procEventExec :: nat where "procEventExec = 2"

abbreviation (input) NLMSG_NOOP :: nat where "NLMSG_NOOP \<equiv> 1"
abbreviation (input) NLMSG_ERROR :: nat where "NLMSG_ERROR \<equiv> 2"

lemmas nl_consts = nlmsgHdrLen_def cnMsgHdrLen_def procEvtHdr_def procEventExec_def

text \<open>\<^verbatim>\<open>binary.LittleEndian\<close>.\<close>

fun le_value :: "bytes \<Rightarrow> nat" where
  "le_value [] = 0"
| "le_value (b # bs) = unat b + 256 * le_value bs"

fun le_bytes :: "nat \<Rightarrow> nat \<Rightarrow> bytes" where
  "le_bytes 0 n = []"
| "le_bytes (Suc k) n = of_nat (n mod 256) # le_bytes k (n div 256)"

text \<open>\<^verbatim>\<open>b[i:j]\<close> and \<^verbatim>\<open>b[i:]\<close>.\<close>

definition slice :: "bytes \<Rightarrow> nat \<Rightarrow> nat \<Rightarrow> bytes option" where
  "slice b i j = (if i \<le> j \<and> j \<le> length b then Some (take (j - i) (drop i b)) else None)"

definition slice_from :: "bytes \<Rightarrow> nat \<Rightarrow> bytes option" where
  "slice_from b i = (if i \<le> length b then Some (drop i b) else None)"

definition uint_at :: "bytes \<Rightarrow> nat \<Rightarrow> nat \<Rightarrow> nat option" where
  "uint_at b i j = map_option le_value (slice b i j)"

text \<open>\<open>handleProcEvent\<close>: the process whose launch is to be reported, if any.\<close>

definition handleProcEvent :: "bytes \<Rightarrow> int option option" where
  "handleProcEvent payload =
     (if length payload < cnMsgHdrLen + procEvtHdr + 8 then Some None
      else Option.bind (slice_from payload cnMsgHdrLen) (\<lambda>pe.
           Option.bind (uint_at pe 0 4) (\<lambda>what.
             if what \<noteq> procEventExec then Some None
             else Option.bind (slice_from pe procEvtHdr) (\<lambda>dat.
                  Option.bind (uint_at dat 0 4) (\<lambda>pid. Some (Some (sint (of_nat pid :: 32 word))))))))"

definition align4 :: "nat \<Rightarrow> nat" where
  "align4 n = (n + 3) div 4 * 4"

lemma align4_ge: "n \<le> align4 n"
  unfolding align4_def by presburger

function parseNetlink :: "bytes \<Rightarrow> int list option" where
  "parseNetlink b =
     (if length b < nlmsgHdrLen then Some []
      else Option.bind (uint_at b 0 4) (\<lambda>nlLen.
           Option.bind (uint_at b 4 6) (\<lambda>nlType.
             if nlLen < nlmsgHdrLen \<or> length b < nlLen then Some []
             else Option.bind
               (if nlType \<noteq> NLMSG_ERROR \<and> nlType \<noteq> NLMSG_NOOP
                then Option.bind (slice b nlmsgHdrLen nlLen) handleProcEvent else Some None) (\<lambda>ev.
                  let evs = (case ev of None \<Rightarrow> [] | Some pid \<Rightarrow> [pid])
                  in if length b \<le> align4 nlLen then Some evs
                     else map_option (\<lambda>rest. evs @ rest) (parseNetlink (drop (align4 nlLen) b))))))"
  by pat_completeness auto
termination
proof (relation "measure length")
  fix b nlLen nlType ev evs
  assume "\<not> length b < nlmsgHdrLen" "\<not> (nlLen < nlmsgHdrLen \<or> length b < nlLen)" "\<not> length b \<le> align4 nlLen"
  then show "(drop (align4 nlLen) b, b) \<in> measure length"
    using align4_ge [of nlLen] by (simp add: nl_consts)
qed simp

declare parseNetlink.simps [simp del]

text \<open>What is sent for a reported process: a process that is already gone is still reported.\<close>

definition launch_event :: "host \<Rightarrow> int \<Rightarrow> uid_cache \<Rightarrow> execEvent \<times> uid_cache" where
  "launch_event h pid cache =
     (case buildExecEvent h pid cache of
        (None, c) \<Rightarrow>
          (\<lparr>ee_Type = ''exec'', ee_Source = ''connector'', ee_PID = pid, ee_PPID = 0, ee_UID = 0, ee_User = [], ee_Comm = [], ee_Cmdline = [],
            ee_TS = ho_now h\<rparr>, c)
      | (Some ev, c) \<Rightarrow> (ev\<lparr>ee_Source := ''connector''\<rparr>, c))"

text \<open>The subscription message.\<close>

definition subscribeProcEvents :: "nat \<Rightarrow> bytes" where
  "subscribeProcEvents pid =
     le_bytes 4 40 @ le_bytes 2 3 @ le_bytes 2 0 @ le_bytes 4 0 @ le_bytes 4 pid
     @ le_bytes 4 1 @ le_bytes 4 1 @ le_bytes 4 0 @ le_bytes 4 0 @ le_bytes 2 4 @ le_bytes 2 0 @ le_bytes 4 1"

text \<open>
  \<open>monitorExecConnector\<close> on Linux: the error of setting up the socket, binding or
  subscribing, or else the loop over the reads, which ends at the first that fails.
  The result is the processes reported and the error; \<open>None\<close> is a panic.
\<close>

fun connector_loop :: "(string + bytes) list \<Rightarrow> (int list \<times> string option) option" where
  "connector_loop [] = Some ([], None)"
| "connector_loop (Inl e # rs) = Some ([], Some (''netlink read: '' @ e))"
| "connector_loop (Inr b # rs) =
     Option.bind (parseNetlink b) (\<lambda>pids. map_option (\<lambda>(ps, e). (pids @ ps, e)) (connector_loop rs))"

definition monitorExecConnector ::
  "string option \<Rightarrow> string option \<Rightarrow> string option \<Rightarrow> (string + bytes) list \<Rightarrow> (int list \<times> string option) option" where
  "monitorExecConnector sock_err bind_err sub_err reads =
     (case sock_err of
        Some e \<Rightarrow> Some ([], Some (''netlink socket: '' @ e))
      | None \<Rightarrow>
          (case bind_err of
             Some e \<Rightarrow> Some ([], Some (''netlink bind: '' @ e))
           | None \<Rightarrow>
               (case sub_err of
                  Some e \<Rightarrow> Some ([], Some (''subscribe proc events: '' @ e))
                | None \<Rightarrow> connector_loop reads)))"

definition monitorExecConnector_other :: "string option" where
  "monitorExecConnector_other = Some ''proc connector only supported on linux''"

section \<open>Selecting a monitor\<close>

datatype monitor = Unavailable | Polling | Connector | ConnectorFailed

definition monitorProcesses :: "bool \<Rightarrow> string \<Rightarrow> bool \<Rightarrow> monitor" where
  "monitorProcesses has_proc mode0 connector_ok =
     (if \<not> has_proc then Unavailable
      else let mode = (if mode0 = [] then ''auto'' else mode0)
           in if mode = ''poll'' then Polling
              else if mode = ''connector'' then (if connector_ok then Connector else ConnectorFailed)
              else (if connector_ok then Connector else Polling))"

section \<open>No message crashes the parser\<close>

text \<open>The process a payload reports, in closed form.\<close>

definition exec_pid :: "bytes \<Rightarrow> int option" where
  "exec_pid p =
     (if length p < 44 \<or> le_value (take 4 (drop 20 p)) \<noteq> 2 then None
      else Some (sint (of_nat (le_value (take 4 (drop 36 p))) :: 32 word)))"

lemma handleProcEvent_eq: "handleProcEvent p = Some (exec_pid p)"
proof (cases "length p < 44")
  case False
  then have "16 \<le> length p - 20" "4 \<le> length p - 20" "4 \<le> length p - 36" by linarith+
  with False show ?thesis
    by (simp add: handleProcEvent_def exec_pid_def slice_from_def uint_at_def slice_def nl_consts)
qed (simp add: handleProcEvent_def exec_pid_def nl_consts)

definition reported :: "nat \<Rightarrow> bytes \<Rightarrow> int list" where
  "reported ty p = (if ty = NLMSG_ERROR \<or> ty = NLMSG_NOOP then [] else case exec_pid p of None \<Rightarrow> [] | Some pid \<Rightarrow> [pid])"

lemma parse_short: "length b < 16 \<Longrightarrow> parseNetlink b = Some []"
  by (subst parseNetlink.simps) (simp add: nl_consts)

lemma parse_step:
  assumes "16 \<le> length b" "n = le_value (take 4 b)" "ty = le_value (take 2 (drop 4 b))"
  shows "parseNetlink b =
    (if n < 16 \<or> length b < n then Some []
     else if length b \<le> align4 n then Some (reported ty (take (n - 16) (drop 16 b)))
     else map_option (\<lambda>rest. reported ty (take (n - 16) (drop 16 b)) @ rest) (parseNetlink (drop (align4 n) b)))"
proof -
  have "uint_at b 0 4 = Some n" "uint_at b 4 6 = Some ty"
    using assms by (simp_all add: uint_at_def slice_def)
  moreover have "slice b 16 n = Some (take (n - 16) (drop 16 b))" if "\<not> (n < 16 \<or> length b < n)"
    using that by (simp add: slice_def)
  ultimately show ?thesis
    using assms(1)
    by (subst parseNetlink.simps) (auto simp: nl_consts Let_def handleProcEvent_eq reported_def split: option.split)
qed

lemma parseNetlink_total: "parseNetlink b \<noteq> None"
proof (induction b rule: length_induct)
  case (1 b)
  show ?case
  proof (cases "length b < 16")
    case False
    let ?n = "le_value (take 4 b)"
    have "parseNetlink (drop (align4 ?n) b) \<noteq> None" if "16 \<le> ?n"
      using 1 that False align4_ge [of ?n] by auto
    with False show ?thesis by (auto simp: parse_step [OF _ refl refl])
  qed (simp add: parse_short)
qed

text \<open>A datagram as the kernel builds it: messages with their length, type, the rest of the header, the
  payload, and padding to a multiple of four.\<close>

record nl_msg =
  nm_type :: nat
  nm_rest :: bytes
  nm_payload :: bytes
  nm_pad :: bytes

definition nm_len :: "nl_msg \<Rightarrow> nat" where
  "nm_len m = 16 + length (nm_payload m)"

definition nm_wf :: "nl_msg \<Rightarrow> bool" where
  "nm_wf m \<longleftrightarrow> nm_type m < 2 ^ 16 \<and> length (nm_rest m) = 10 \<and> nm_len m < 2 ^ 32 \<and> nm_len m + length (nm_pad m) = align4 (nm_len m)"

definition nm_bytes :: "nl_msg \<Rightarrow> bytes" where
  "nm_bytes m = le_bytes 4 (nm_len m) @ le_bytes 2 (nm_type m) @ nm_rest m @ nm_payload m @ nm_pad m"

lemma length_le_bytes [simp]: "length (le_bytes k n) = k"
  by (induction k arbitrary: n) simp_all

lemma le_value_bytes: "n < 256 ^ k \<Longrightarrow> le_value (le_bytes k n) = n"
proof (induction k arbitrary: n)
  case (Suc k)
  then have "n div 256 < 256 ^ k" by (simp add: less_mult_imp_div_less mult.commute)
  moreover have "unat (of_nat (n mod 256) :: byte) = n mod 256" by (simp add: unat_of_nat)
  ultimately show ?case using Suc.IH by simp
qed simp

lemma parse_message:
  assumes "nm_wf m"
  shows "parseNetlink (nm_bytes m @ rest) =
    (if rest = [] then Some (reported (nm_type m) (nm_payload m))
     else map_option (\<lambda>r. reported (nm_type m) (nm_payload m) @ r) (parseNetlink rest))"
proof -
  let ?b = "nm_bytes m @ rest"
  have fields: "take 4 ?b = le_bytes 4 (nm_len m)" "take 2 (drop 4 ?b) = le_bytes 2 (nm_type m)"
    by (simp_all add: nm_bytes_def)
  have vals: "nm_len m = le_value (take 4 ?b)" "nm_type m = le_value (take 2 (drop 4 ?b))"
    using assms unfolding fields by (simp_all add: nm_wf_def le_value_bytes)
  have len: "length (nm_bytes m) = align4 (nm_len m)" "16 \<le> nm_len m" "nm_len m \<le> align4 (nm_len m)"
    using assms align4_ge by (simp_all add: nm_wf_def nm_bytes_def nm_len_def)
  have "take (nm_len m - 16) (drop 16 ?b) = nm_payload m"
    using assms by (simp add: nm_bytes_def nm_wf_def nm_len_def)
  moreover have "drop (align4 (nm_len m)) ?b = rest" using len(1) by simp
  ultimately show ?thesis
    using parse_step [OF _ vals] len by auto
qed

text \<open>C33: The connector parser handles whatever the socket delivers: no byte sequence makes it read out
  of bounds or run forever, and of a datagram of well-formed messages it reports exactly the launches, in order,
  skipping error and no-op messages and events of other kinds.\<close>

theorem connector_parser:
  "parseNetlink b \<noteq> None
   \<and> (list_all nm_wf ms \<longrightarrow>
        parseNetlink (concat (map nm_bytes ms)) = Some (concat (map (\<lambda>m. reported (nm_type m) (nm_payload m)) ms)))"
proof (intro conjI impI)
  show "parseNetlink b \<noteq> None" by (rule parseNetlink_total)
  show "parseNetlink (concat (map nm_bytes ms)) = Some (concat (map (\<lambda>m. reported (nm_type m) (nm_payload m)) ms))"
    if "list_all nm_wf ms" using that
  proof (induction ms)
    case (Cons m ms)
    have "nm_bytes m \<noteq> []" for m
      by (simp add: nm_bytes_def flip: length_0_conv)
    then have "concat (map nm_bytes ms) = [] \<Longrightarrow> ms = []"
      by (cases ms) auto
    with Cons show ?case by (auto simp: parse_message)
  qed (simp add: parse_short)
qed

definition demo_exec :: nl_msg where
  "demo_exec = \<lparr>nm_type = 3, nm_rest = replicate 10 0,
     nm_payload = replicate 20 0 @ le_bytes 4 2 @ replicate 12 0 @ le_bytes 4 77 @ le_bytes 4 77, nm_pad = []\<rparr>"

theorem connector_parser_witness: "parseNetlink (nm_bytes demo_exec @ nm_bytes demo_exec) = Some [77, 77]"
proof -
  have "nm_wf demo_exec" by (simp add: nm_wf_def demo_exec_def nm_len_def align4_def)
  moreover have "reported (nm_type demo_exec) (nm_payload demo_exec) = [77]" by code_simp
  ultimately show ?thesis
    using connector_parser [of "[]" "[demo_exec, demo_exec]"] by simp
qed

lemma connector_never_panics: "monitorExecConnector a b c reads \<noteq> None"
proof -
  have "connector_loop rs \<noteq> None" for rs
  proof (induction rs rule: connector_loop.induct)
    case (3 b rs)
    then show ?case using parseNetlink_total [of b] by auto
  qed simp_all
  then show ?thesis by (simp add: monitorExecConnector_def split: option.split)
qed

text \<open>A process that is gone before its files are read is reported with user id 0, the superuser's, and not with the
  -1 that stands for an unknown user elsewhere.\<close>

lemma gone_process_reported_as_root:
  "pf_cmdline (ho_proc h pid) = None \<Longrightarrow> ee_UID (fst (launch_event h pid c)) = 0"
  "pf_cmdline (ho_proc h pid) = Some raw \<Longrightarrow> pf_status (ho_proc h pid) = None \<Longrightarrow> ee_UID (fst (launch_event h pid c)) = -1"
  by (simp_all add: launch_event_def buildExecEvent_def lookupUser_def)

section \<open>Polling reports each process once\<close>

text \<open>A scan that cannot read the directory forgets every process, so the next one reports all of
  them as launched.\<close>

lemma failed_scan_forgets: "poll_scan h [] p = ([], p\<lparr>po_seen := [], po_first := False\<rparr>)"
  by (simp add: poll_scan_def)

lemma poll_entry_seen:
  "poll_entry h name (evs, cur, p) = (evs', cur', p') \<Longrightarrow>
     set (po_seen p) \<subseteq> set (po_seen p') \<and> po_first p' = po_first p
     \<and> (po_first p \<longrightarrow> evs' = evs) \<and> map ee_PID evs' = map ee_PID evs @ map ee_PID (drop (length evs) evs')
     \<and> (\<forall>ev \<in> set (drop (length evs) evs'). ee_PID ev \<notin> set (po_seen p) \<and> ee_PID ev \<in> set (po_seen p'))"
  by (auto simp: poll_entry_def buildExecEvent_def Let_def split: prod.splits bool.splits option.splits if_splits)

lemma subscription_length: "length (subscribeProcEvents pid) = 40"
  by (simp add: subscribeProcEvents_def)

end
