(* ===== verification/Telemetry.thy ===== *)
theory Telemetry
  imports Complex_Main GoStd
begin

text \<open>
  The health snapshots of the agent (\<^verbatim>\<open>cmd/agent/telemetry.go\<close>,
  \<^verbatim>\<open>cmd/agent/telemetry_linux.go\<close>).  Counters are 64-bit words as in the code.  Quotients are
  taken over the rationals: float rounding is not modelled, only the conversion to an
  integer inside \<open>round1\<close>, whose result outside the range of \<^verbatim>\<open>int64\<close> depends on the processor and is a
  parameter, like \<^verbatim>\<open>strconv.ParseFloat\<close> and the contents of the files.
\<close>

record telemetry =
  te_Hostname :: string
  te_OS :: string
  te_Kernel :: string
  te_UptimeSec :: rat
  te_Load1 :: rat
  te_Load5 :: rat
  te_Load15 :: rat
  te_MemTotalMB :: "64 word"
  te_MemAvailMB :: "64 word"
  te_DiskTotalGB :: rat
  te_DiskFreeGB :: rat
  te_CPUPct :: rat
  te_NetRxKBs :: rat
  te_NetTxKBs :: rat
  te_TS :: string

text \<open>The package variables that hold the previous sample.\<close>

record samples =
  prevCPUBusy :: "64 word"
  prevCPUTotal :: "64 word"
  prevNetRx :: "64 word"
  prevNetTx :: "64 word"
  prevSampleAt :: "gotime option" \<comment> \<open>\<open>None\<close>: the zero time\<close>

record telemetry_env =
  ev_read :: "string \<Rightarrow> string option" \<comment> \<open>\<^verbatim>\<open>os.ReadFile\<close>\<close>
  ev_hostname :: string
  ev_parse_float :: "string \<Rightarrow> rat"
  ev_int64 :: "rat \<Rightarrow> int" \<comment> \<open>the conversion of a number out of range\<close>
  ev_statfs :: "(64 word \<times> 64 word \<times> 64 word) option" \<comment> \<open>block size, blocks, available blocks\<close>
  ev_uname :: "string option" \<comment> \<open>the bytes of the release field\<close>
  ev_now :: gotime
  ev_ts :: string

definition int64 :: "telemetry_env \<Rightarrow> rat \<Rightarrow> int" where
  "int64 e x =
     (let n = (if 0 \<le> x then \<lfloor>x\<rfloor> else \<lceil>x\<rceil>) in if - (2 ^ 63) \<le> n \<and> n < 2 ^ 63 then n else ev_int64 e x)"

definition round1 :: "telemetry_env \<Rightarrow> rat \<Rightarrow> rat" where
  "round1 e f = of_int (int64 e (f * 10 + 1/2)) / 10"

definition parse_u64 :: "string \<Rightarrow> 64 word" where
  "parse_u64 s = of_nat (fst (ParseUint s))"

definition word_rat :: "64 word \<Rightarrow> rat" where
  "word_rat w = of_nat (unat w)"

section \<open>CPU\<close>

text \<open>The counters of the line \<^verbatim>\<open>cpu\<close>: their sum and the sum of the fourth and fifth (idle and waiting).\<close>

definition cpu_counters :: "string list \<Rightarrow> 64 word \<times> 64 word" where
  "cpu_counters f =
     fold (\<lambda>(i, v) (total, idle). (total + parse_u64 v, if i = 3 \<or> i = 4 then idle + parse_u64 v else idle))
       (enumerate 0 f) (0, 0)"

definition cpu_sample :: "telemetry_env \<Rightarrow> 64 word \<times> 64 word \<Rightarrow> telemetry \<times> samples \<Rightarrow> telemetry \<times> samples" where
  "cpu_sample e = (\<lambda>(total, idle) (t, p).
     let busy = total - idle;
         t' = (if 0 < prevCPUTotal p \<and> prevCPUTotal p < total
               then t\<lparr>te_CPUPct := round1 e (word_rat (busy - prevCPUBusy p) / word_rat (total - prevCPUTotal p) * 100)\<rparr>
               else t)
     in (t', p\<lparr>prevCPUBusy := busy, prevCPUTotal := total\<rparr>))"

definition readCPU :: "telemetry_env \<Rightarrow> telemetry \<times> samples \<Rightarrow> telemetry \<times> samples" where
  "readCPU e s =
     (case ev_read e ''/proc/stat'' of
        None \<Rightarrow> s
      | Some b \<Rightarrow>
          (case find (\<lambda>l. HasPrefix l ''cpu '') (split_on (CHR 10) b) of
             None \<Rightarrow> s
           | Some l \<Rightarrow> cpu_sample e (cpu_counters (tl (Fields l))) s))"

section \<open>Network\<close>

definition net_line :: "string \<Rightarrow> 64 word \<times> 64 word \<Rightarrow> 64 word \<times> 64 word" where
  "net_line l = (\<lambda>(rx, tx).
     case split2 (CHR '':'') l of
       [a, b] \<Rightarrow>
         (let iface = TrimSpace a; f = Fields b
          in if iface = ''lo'' \<or> iface = [] \<or> length f < 9 then (rx, tx)
             else (rx + parse_u64 (f ! 0), tx + parse_u64 (f ! 8)))
     | _ \<Rightarrow> (rx, tx))"

definition net_sample :: "telemetry_env \<Rightarrow> 64 word \<times> 64 word \<Rightarrow> telemetry \<times> samples \<Rightarrow> telemetry \<times> samples" where
  "net_sample e = (\<lambda>(rx, tx) (t, p).
     let t' = (case prevSampleAt p of
                 None \<Rightarrow> t
               | Some t0 \<Rightarrow>
                   (let secs = of_int (ev_now e - t0) / of_int Second :: rat
                    in if 0 < secs \<and> prevNetRx p \<le> rx \<and> prevNetTx p \<le> tx
                       then t\<lparr>te_NetRxKBs := round1 e (word_rat (rx - prevNetRx p) / 1024 / secs),
                              te_NetTxKBs := round1 e (word_rat (tx - prevNetTx p) / 1024 / secs)\<rparr>
                       else t))
     in (t', p\<lparr>prevNetRx := rx, prevNetTx := tx, prevSampleAt := Some (ev_now e)\<rparr>))"

definition readNet :: "telemetry_env \<Rightarrow> telemetry \<times> samples \<Rightarrow> telemetry \<times> samples" where
  "readNet e s =
     (case ev_read e ''/proc/net/dev'' of
        None \<Rightarrow> s
      | Some b \<Rightarrow> net_sample e (fold net_line (split_on (CHR 10) b) (0, 0)) s)"

section \<open>The rest of a snapshot\<close>

definition prettyOS :: "telemetry_env \<Rightarrow> string" where
  "prettyOS e =
     (case ev_read e ''/etc/os-release'' of
        None \<Rightarrow> []
      | Some b \<Rightarrow>
          (case find (\<lambda>l. HasPrefix l ''PRETTY_NAME='') (split_on (CHR 10) b) of
             None \<Rightarrow> []
           | Some l \<Rightarrow> trim_char (CHR 34) (TrimPrefix l ''PRETTY_NAME='')))"

definition readUptime :: "telemetry_env \<Rightarrow> telemetry \<Rightarrow> telemetry" where
  "readUptime e t =
     (case ev_read e ''/proc/uptime'' of
        None \<Rightarrow> t
      | Some b \<Rightarrow> (case Fields b of [] \<Rightarrow> t | x # _ \<Rightarrow> t\<lparr>te_UptimeSec := ev_parse_float e x\<rparr>))"

definition readLoad :: "telemetry_env \<Rightarrow> telemetry \<Rightarrow> telemetry" where
  "readLoad e t =
     (case ev_read e ''/proc/loadavg'' of
        None \<Rightarrow> t
      | Some b \<Rightarrow>
          (case Fields b of
             x # y # z # _ \<Rightarrow>
               t\<lparr>te_Load1 := ev_parse_float e x, te_Load5 := ev_parse_float e y, te_Load15 := ev_parse_float e z\<rparr>
           | _ \<Rightarrow> t))"

definition mem_line :: "string \<Rightarrow> telemetry \<Rightarrow> telemetry" where
  "mem_line l t =
     (case Fields l of
        k # v # _ \<Rightarrow>
          (let mb = parse_u64 v div 1024
           in if k = ''MemTotal:'' then t\<lparr>te_MemTotalMB := mb\<rparr>
              else if k = ''MemAvailable:'' then t\<lparr>te_MemAvailMB := mb\<rparr> else t)
      | _ \<Rightarrow> t)"

definition readMem :: "telemetry_env \<Rightarrow> telemetry \<Rightarrow> telemetry" where
  "readMem e t =
     (case ev_read e ''/proc/meminfo'' of
        None \<Rightarrow> t
      | Some b \<Rightarrow> fold mem_line (split_on (CHR 10) b) t)"

definition utsString :: "string \<Rightarrow> string" where
  "utsString b = takeWhile (\<lambda>c. c \<noteq> CHR 0x00) b"

definition collectPlatform :: "telemetry_env \<Rightarrow> telemetry \<Rightarrow> telemetry" where
  "collectPlatform e t =
     (let t1 = (case ev_statfs e of
                  None \<Rightarrow> t
                | Some (bs, blocks, avail) \<Rightarrow>
                    t\<lparr>te_DiskTotalGB := round1 e (word_rat (blocks * bs) / 1000000000),
                      te_DiskFreeGB := round1 e (word_rat (avail * bs) / 1000000000)\<rparr>)
      in case ev_uname e of None \<Rightarrow> t1 | Some r \<Rightarrow> t1\<lparr>te_Kernel := utsString r\<rparr>)"

definition empty_telemetry :: "string \<Rightarrow> telemetry" where
  "empty_telemetry ts =
     \<lparr>te_Hostname = [], te_OS = [], te_Kernel = [], te_UptimeSec = 0, te_Load1 = 0, te_Load5 = 0, te_Load15 = 0,
      te_MemTotalMB = 0, te_MemAvailMB = 0, te_DiskTotalGB = 0, te_DiskFreeGB = 0, te_CPUPct = 0, te_NetRxKBs = 0,
      te_NetTxKBs = 0, te_TS = ts\<rparr>"

definition collect_telemetry :: "telemetry_env \<Rightarrow> samples \<Rightarrow> telemetry \<times> samples" where
  "collect_telemetry e p =
     (let t = readMem e (readLoad e (readUptime e ((empty_telemetry (ev_ts e))\<lparr>te_Hostname := ev_hostname e, te_OS := prettyOS e\<rparr>)));
          (t', p') = readNet e (readCPU e (t, p))
      in (collectPlatform e t', p'))"

section \<open>Rates and percentages\<close>

lemma round1_range:
  assumes "0 \<le> x" "x \<le> of_nat n" "n * 10 < 2 ^ 63"
  shows "0 \<le> round1 e x \<and> round1 e x \<le> of_nat n"
proof -
  have "0 \<le> \<lfloor>x * 10 + 1/2\<rfloor>" using assms(1) by (simp add: zero_le_floor)
  moreover have "\<lfloor>x * 10 + 1/2\<rfloor> \<le> int n * 10"
  proof -
    have "x * 10 + 1/2 < of_int (int n * 10 + 1)" using assms(2) by simp
    then show ?thesis by (simp add: floor_less_iff [symmetric] del: of_int_add)
  qed
  moreover have "int n * 10 < 2 ^ 63" using assms(3) by (metis of_nat_less_iff of_nat_mult of_nat_numeral of_nat_power)
  ultimately have b: "0 \<le> \<lfloor>x * 10 + 1/2\<rfloor>" "\<lfloor>x * 10 + 1/2\<rfloor> \<le> int n * 10"
    "- (2 ^ 63) \<le> \<lfloor>x * 10 + 1/2\<rfloor> \<and> \<lfloor>x * 10 + 1/2\<rfloor> < 2 ^ 63" by linarith+
  have "0 \<le> x * 10 + 1/2" using assms(1) by simp
  then have "int64 e (x * 10 + 1/2) = \<lfloor>x * 10 + 1/2\<rfloor>"
    by (simp only: int64_def Let_def if_P [OF b(3)] if_P)
  with b have 1: "0 \<le> int64 e (x * 10 + 1/2)" "int64 e (x * 10 + 1/2) \<le> int n * 10" by simp_all
  have "(of_int (int64 e (x * 10 + 1/2)) :: rat) \<le> of_int (int n * 10)" using 1(2) by (simp only: of_int_le_iff)
  with 1(1) show ?thesis by (simp add: round1_def)
qed

lemma nat_percent:
  "a \<le> b \<Longrightarrow> 0 < b \<Longrightarrow> 0 \<le> (of_nat a :: rat) / of_nat b * 100 \<and> (of_nat a :: rat) / of_nat b * 100 \<le> of_nat 100"
  by (simp add: divide_le_eq)

text \<open>The percentage is one as long as neither the busy nor the idle time goes backwards.\<close>

lemma cpu_pct_range:
  assumes "cpu_sample e (tot, idle) (t, p) = (t', p')" and "0 \<le> te_CPUPct t" "te_CPUPct t \<le> 100"
    and "idle \<le> tot" and "prevCPUBusy p \<le> prevCPUTotal p"
    and "prevCPUBusy p \<le> tot - idle" and "prevCPUTotal p - prevCPUBusy p \<le> idle"
  shows "0 \<le> te_CPUPct t' \<and> te_CPUPct t' \<le> 100"
proof (cases "0 < prevCPUTotal p \<and> prevCPUTotal p < tot")
  case True
  let ?b = "unat (tot - idle - prevCPUBusy p)" and ?d = "unat (tot - prevCPUTotal p)"
  have u: "unat (tot - idle) = unat tot - unat idle" "?b = unat (tot - idle) - unat (prevCPUBusy p)"
    "?d = unat tot - unat (prevCPUTotal p)" "unat (prevCPUTotal p - prevCPUBusy p) = unat (prevCPUTotal p) - unat (prevCPUBusy p)"
    using assms(4-6) True by (simp_all add: unat_sub less_imp_le)
  have "?b \<le> ?d" "0 < ?d"
    using u assms(4-7) True by (auto simp: word_le_nat_alt word_less_nat_alt)
  then have "0 \<le> word_rat (tot - idle - prevCPUBusy p) / word_rat (tot - prevCPUTotal p) * 100"
    "word_rat (tot - idle - prevCPUBusy p) / word_rat (tot - prevCPUTotal p) * 100 \<le> of_nat 100"
    using nat_percent [of ?b ?d] by (simp_all only: word_rat_def)
  from round1_range [OF this] assms(1) True show ?thesis by (auto simp: cpu_sample_def Let_def)
next
  case False
  then show ?thesis using assms(1-3) by (auto simp: cpu_sample_def Let_def)
qed

text \<open>When the waiting time jumps by more than the total, the difference of the busy times wraps around.\<close>

lemma cpu_busy_wraps:
  "te_CPUPct (fst (cpu_sample e (201, 102) (t, p\<lparr>prevCPUBusy := 100, prevCPUTotal := 200\<rparr>))) =
     round1 e (of_nat (2 ^ 64 - 1) * 100)"
  by (simp add: cpu_sample_def word_rat_def unsigned_minus_1_eq_mask mask_eq_exp_minus_1 Let_def)

text \<open>A rate is reported only when both counters moved forward, and is never negative.\<close>

lemma net_rate_only_forward:
  assumes "net_sample e (rx, tx) (t, p) = (t', p')" and "\<not> (prevNetRx p \<le> rx \<and> prevNetTx p \<le> tx)"
  shows "t' = t"
  using assms by (auto simp: net_sample_def Let_def split: option.splits)

end
