(* ===== verification/AgentProcess.thy ===== *)
theory AgentProcess
  imports AgentGateway "HOL-Library.Sublist"
begin

text \<open>
  The agent as a process (\<^verbatim>\<open>cmd/agent/main.go\<close>): the collectors that fill the queues, the loop in \<^verbatim>\<open>main\<close> that
  connects again whenever \<^verbatim>\<open>connectAndServe\<close> returns, and, per connection, the goroutines that forward the queues,
  send the pings and bridge streams.  They interleave freely; the queues outlive every connection.  The last section
  joins the agent to the gateway's handler of the frames it sends.
\<close>

section \<open>The process\<close>

text \<open>Where \<open>main\<close> is: about to dial (or asleep before the next attempt), or in the read loop of a connection.\<close>

datatype agent_main = Redials | Serves nat

record agent_process =
  ap_serverID :: string
  ap_queues :: agent_queues
  ap_net :: net
  ap_main :: agent_main
  ap_forwarders :: "nat list" \<comment> \<open>the connections whose forwarding goroutine runs\<close>
  ap_pingers :: "nat list" \<comment> \<open>the connections whose pinging goroutine runs\<close>
  ap_stops :: "nat list" \<comment> \<open>the connections whose channel \<^verbatim>\<open>stop\<close> is closed\<close>

definition agent_main_start :: "(string \<Rightarrow> string) \<Rightarrow> agent_process option" where
  "agent_main_start env =
     (if \<not> agent_starts env then None
      else Some \<lparr>ap_serverID = env ''SERVER_ID'', ap_queues = new_queues, ap_net = no_net, ap_main = Redials,
                 ap_forwarders = [], ap_pingers = [], ap_stops = []\<rparr>)"

text \<open>One turn of the loop in \<open>main\<close>: \<open>connectAndServe\<close> up to its read loop, unless dialling fails.\<close>

definition connect_turn :: "bool \<Rightarrow> agent_process \<Rightarrow> agent_process" where
  "connect_turn dial_ok s =
     (if ap_main s \<noteq> Redials \<or> \<not> dial_ok then s
      else case NewAgentConn (ap_serverID s) True False (ap_net s) of (c, n) \<Rightarrow>
             s\<lparr>ap_net := n, ap_main := Serves c, ap_forwarders := c # ap_forwarders s, ap_pingers := c # ap_pingers s\<rparr>)"

text \<open>One turn of \<open>ReadLoop\<close>; when it returns, the deferred \<^verbatim>\<open>close(stop)\<close> runs and \<open>main\<close> goes round.\<close>

definition read_turn :: "ws_message \<Rightarrow> agent_process \<Rightarrow> agent_process" where
  "read_turn m s =
     (case ap_main s of
        Redials \<Rightarrow> s
      | Serves c \<Rightarrow>
          if \<not> ready c (ap_net s) then s
          else let s1 = s\<lparr>ap_net := snd (ReadLoop m c (ap_net s))\<rparr>
               in if m = WsErr then s1\<lparr>ap_main := Redials, ap_stops := c # ap_stops s1\<rparr> else s1)"

text \<open>The \<^verbatim>\<open>select\<close> of the forwarding goroutine picks a queue, or \<^verbatim>\<open>stop\<close> once it is closed.\<close>

definition forward_turn :: "nat \<Rightarrow> queue \<Rightarrow> bool \<Rightarrow> agent_process \<Rightarrow> agent_process" where
  "forward_turn c w ws_ok s =
     (if c \<notin> set (ap_forwarders s) then s
      else case forward w ws_ok c (ap_queues s, ap_net s) of (goes_on, q, n) \<Rightarrow>
             s\<lparr>ap_queues := q, ap_net := n,
               ap_forwarders := (if goes_on then ap_forwarders s else removeAll c (ap_forwarders s))\<rparr>)"

definition forward_stop :: "nat \<Rightarrow> agent_process \<Rightarrow> agent_process" where
  "forward_stop c s =
     (if c \<in> set (ap_stops s) then s\<lparr>ap_forwarders := removeAll c (ap_forwarders s)\<rparr> else s)"

definition ping_turn :: "nat \<Rightarrow> bool \<Rightarrow> agent_process \<Rightarrow> agent_process" where
  "ping_turn c ws_ok s = (if ws_ok then s else s\<lparr>ap_pingers := removeAll c (ap_pingers s)\<rparr>)"

definition ping_stop :: "nat \<Rightarrow> agent_process \<Rightarrow> agent_process" where
  "ping_stop c s = (if c \<in> set (ap_stops s) then s\<lparr>ap_pingers := removeAll c (ap_pingers s)\<rparr> else s)"

text \<open>What a bridge does to its stream: \<^verbatim>\<open>io.Copy\<close> in both directions, and the deferred close.\<close>

datatype bridge_io = BRead nat nat | BWrite bool bytes nat | BClose bool nat

fun bridge_turn :: "bridge_io \<Rightarrow> net \<Rightarrow> net" where
  "bridge_turn (BRead k st) n = snd (stream_Read k st n)"
| "bridge_turn (BWrite ok b st) n = snd (stream_Write ok b st n)"
| "bridge_turn (BClose ok st) n = stream_Close ok st n"

datatype agent_act =
    Collect queue bytes
  | ConnectTurn bool
  | ReadTurn ws_message
  | ForwardTurn nat queue bool
  | ForwardStop nat
  | PingTurn nat bool
  | PingStop nat
  | BridgeTurn bridge_io

fun agent_step :: "agent_act \<Rightarrow> agent_process \<Rightarrow> agent_process" where
  "agent_step (Collect w b) s = s\<lparr>ap_queues := enqueue w b (ap_queues s)\<rparr>"
| "agent_step (ConnectTurn ok) s = connect_turn ok s"
| "agent_step (ReadTurn m) s = read_turn m s"
| "agent_step (ForwardTurn c w ok) s = forward_turn c w ok s"
| "agent_step (ForwardStop c) s = forward_stop c s"
| "agent_step (PingTurn c ok) s = ping_turn c ok s"
| "agent_step (PingStop c) s = ping_stop c s"
| "agent_step (BridgeTurn io) s = s\<lparr>ap_net := bridge_turn io (ap_net s)\<rparr>"

section \<open>Observing a run\<close>

fun queue_of :: "queue \<Rightarrow> agent_queues \<Rightarrow> bytes chan" where
  "queue_of QExec q = aq_exec q"
| "queue_of QTelemetry q = aq_telemetry q"
| "queue_of QScan q = aq_scan q"

fun frame_type :: "queue \<Rightarrow> byte" where
  "frame_type QExec = FrameLog"
| "frame_type QTelemetry = FrameTelemetry"
| "frame_type QScan = FrameScan"

text \<open>What a step adds to a queue, and the event it takes out, with the connection it was sent on and whether the
  send succeeded.\<close>

fun accepts :: "queue \<Rightarrow> agent_act \<Rightarrow> agent_process \<Rightarrow> bytes list" where
  "accepts w (Collect w' b) s =
     (if w = w' \<and> length (cbuf (queue_of w (ap_queues s))) < ccap (queue_of w (ap_queues s)) then [b] else [])"
| "accepts w _ s = []"

fun takes :: "queue \<Rightarrow> agent_act \<Rightarrow> agent_process \<Rightarrow> (bytes \<times> nat \<times> bool) list" where
  "takes w (ForwardTurn c w' ok) s =
     (if w = w' \<and> c \<in> set (ap_forwarders s)
      then (case cbuf (queue_of w (ap_queues s)) of
              [] \<Rightarrow> []
            | b # _ \<Rightarrow> [(b, c, fst (send_event w ok b c (ap_net s)))])
      else [])"
| "takes w _ s = []"

text \<open>The messages written on a connection, and the reports of one kind among them.\<close>

definition wire :: "nat \<Rightarrow> net \<Rightarrow> bytes list" where
  "wire c n = (case n_conns n c of None \<Rightarrow> [] | Some ac \<Rightarrow> ac_out ac)"

fun payload_of :: "byte \<Rightarrow> bytes \<Rightarrow> bytes list" where
  "payload_of t msg = (case DecodeFrame msg of Some (t', i, p) \<Rightarrow> if t' = t then [p] else [] | None \<Rightarrow> [])"

definition reports :: "queue \<Rightarrow> bytes list \<Rightarrow> bytes list" where
  "reports w out = concat (map (payload_of (frame_type w)) out)"

definition sent_on :: "nat \<Rightarrow> (bytes \<times> nat \<times> bool) list \<Rightarrow> bytes list" where
  "sent_on c xs = map fst (filter (\<lambda>(b, c', ok). c' = c \<and> ok) xs)"

definition lost_on :: "nat \<Rightarrow> (bytes \<times> nat \<times> bool) list \<Rightarrow> bytes list" where
  "lost_on c xs = map fst (filter (\<lambda>(b, c', ok). c' = c \<and> \<not> ok) xs)"

section \<open>Queues and frames\<close>

lemma queue_enqueue [simp]:
  "queue_of w (enqueue w' b q) = (if w = w' then offer b (queue_of w q) else queue_of w q)"
  by (cases w; cases w') simp_all

lemma take_event_queue:
  "take_event w q = (case cbuf (queue_of w q) of
     [] \<Rightarrow> (None, q)
   | b # bs \<Rightarrow> (Some b, snd (take_event w q)))"
  by (cases w) (simp_all add: recv_chan_def split: list.split)

lemma queue_take [simp]:
  "queue_of w (snd (take_event w' q)) =
     (if w = w' then (queue_of w q)\<lparr>cbuf := tl (cbuf (queue_of w q))\<rparr> else queue_of w q)"
  by (cases w; cases w') (simp_all add: recv_chan_def split: list.split)

lemma send_event_frame: "send_event w = (\<lambda>ok b. writeFrame ok (frame_type w) uuid_Nil b)"
  by (cases w) (simp_all add: SendLog_def SendTelemetry_def SendScan_def fun_eq_iff)

lemma frame_types [simp]:
  "frame_type w = frame_type w' \<longleftrightarrow> w = w'" "frame_type w \<noteq> FrameOpen" "frame_type w \<noteq> FrameData" "frame_type w \<noteq> FrameClose"
  "FrameOpen \<noteq> frame_type w" "FrameData \<noteq> frame_type w" "FrameClose \<noteq> frame_type w"
  by (cases w; cases w'; simp add: FrameOpen_def FrameData_def FrameClose_def FrameLog_def FrameTelemetry_def FrameScan_def)+

lemma payload_of_frame [simp]: "payload_of t (EncodeFrame t' i p) = (if t' = t then [p] else [])"
  by simp

lemma reports_append [simp]: "reports w (xs @ ys) = reports w xs @ reports w ys" "reports w [] = []"
  by (simp_all add: reports_def)

lemma reports_one [simp]: "reports w [EncodeFrame t i p] = (if t = frame_type w then [p] else [])"
  by (simp add: reports_def)

text \<open>Only \<open>writeFrame\<close> adds to what is written on a connection.\<close>

lemma wire_writeFrame:
  "wire c' (snd (writeFrame ok t i p c n)) =
     wire c' n @ (if c' = c \<and> fst (writeFrame ok t i p c n) then [EncodeFrame t i p] else [])"
  by (simp add: wire_def writeFrame_def upd_conn_def split: option.split)

lemma wire_keeps [simp]:
  "(\<And>ac. ac_out (f ac) = ac_out ac) \<Longrightarrow> wire c' (upd_conn c f n) = wire c' n"
  "wire c (upd_pipe g st n) = wire c n"
  "wire c (n\<lparr>n_streams := S\<rparr>) = wire c n"
  "wire c' (snd (newStream c i n)) = wire c' n"
  "wire c (fold closeRemote ss n) = wire c n"
  by (auto simp: wire_def net_obs split: option.split)

lemma wire_conn_Close [simp]: "wire c' (conn_Close c n) = wire c' n"
  by (simp add: conn_Close_def Let_def split: option.split)

lemma wire_dispatch: "wire c' (snd (dispatch t i p c ac n)) = wire c' n"
  by (auto simp: dispatch_def deliver_def closeRemote_def removeStream_def put_stream_def case_prod_beta split: option.split)

lemma wire_ReadLoop [simp]: "wire c' (snd (ReadLoop m c n)) = wire c' n"
  by (auto simp: ReadLoop_def wire_dispatch split: option.split ws_message.split)

lemma reports_bridge [simp]: "reports w (wire c (bridge_turn io n)) = reports w (wire c n)"
proof (cases io)
  case (BWrite ok b st)
  then show ?thesis by (auto simp: snd_stream_Write wire_writeFrame split: option.split)
next
  case (BClose ok st)
  then show ?thesis
    by (auto simp: stream_Close_def Let_def removeStream_def wire_writeFrame split: option.split)
qed (simp add: snd_stream_Read)

text \<open>Identities are handed out in order: a connection has a smaller one than the next.\<close>

definition conns_below :: "net \<Rightarrow> bool" where
  "conns_below n \<longleftrightarrow> (\<forall>c. has_conn c n \<longrightarrow> c < n_next n)"

lemma next_dispatch: "n_next n \<le> n_next (snd (dispatch t i p c ac n))" "has_conn c' (snd (dispatch t i p c ac n)) = has_conn c' n"
  by (auto simp: dispatch_def deliver_def closeRemote_def removeStream_def put_stream_def case_prod_beta net_obs split: option.split)

lemma next_ReadLoop: "n_next n \<le> n_next (snd (ReadLoop m c n))" "has_conn c' (snd (ReadLoop m c n)) = has_conn c' n"
  by (auto simp: ReadLoop_def next_dispatch net_obs split: option.split ws_message.split)

lemma next_bridge: "n_next (bridge_turn io n) = n_next n" "has_conn c (bridge_turn io n) = has_conn c n"
  by (cases io; auto simp: snd_stream_Write snd_stream_Read stream_Close_def Let_def removeStream_def net_obs split: option.split)+

lemma wire_fresh: "conns_below n \<Longrightarrow> n_next n \<le> c \<Longrightarrow> wire c n = []"
  by (auto simp: conns_below_def wire_def has_conn_def split: option.split)


section \<open>Reports arrive in order\<close>

lemma forward_eq:
  "forward w ok c (q, n) =
     (case cbuf (queue_of w q) of
        [] \<Rightarrow> (True, q, n)
      | b # _ \<Rightarrow> (fst (send_event w ok b c n), snd (take_event w q), snd (send_event w ok b c n)))"
  using take_event_queue [of w q]
  by (auto simp: forward_def split: list.splits prod.splits)

lemma queue_step:
  "queue_of w (ap_queues (agent_step a s)) =
     (case a of
        Collect w' b \<Rightarrow> if w = w' then offer b (queue_of w (ap_queues s)) else queue_of w (ap_queues s)
      | ForwardTurn c w' ok \<Rightarrow>
          if w = w' \<and> c \<in> set (ap_forwarders s)
          then (queue_of w (ap_queues s))\<lparr>cbuf := tl (cbuf (queue_of w (ap_queues s)))\<rparr> else queue_of w (ap_queues s)
      | _ \<Rightarrow> queue_of w (ap_queues s))"
  by (cases a) (auto simp: connect_turn_def read_turn_def forward_turn_def forward_stop_def ping_turn_def ping_stop_def
      forward_eq case_prod_beta Let_def split: agent_main.split list.split)

interpretation agent_queue: fifo_history agent_step "accepts w" "\<lambda>a s. map fst (takes w a s)"
  "\<lambda>s. cbuf (queue_of w (ap_queues s))" for w
proof
  fix s a
  show "cbuf (queue_of w (ap_queues s)) @ accepts w a s =
      map fst (takes w a s) @ cbuf (queue_of w (ap_queues (agent_step a s)))"
    unfolding queue_step by (cases a) (auto simp: offer_def split: list.split)
qed

definition process_ok :: "agent_process \<Rightarrow> bool" where
  "process_ok s \<longleftrightarrow> conns_below (ap_net s) \<and> (\<forall>c \<in> set (ap_forwarders s). c < n_next (ap_net s))"

lemma next_step: "n_next (ap_net s) \<le> n_next (ap_net (agent_step a s))"
  by (cases a) (auto simp: connect_turn_def read_turn_def forward_turn_def forward_stop_def ping_turn_def ping_stop_def
      forward_eq case_prod_beta Let_def next_bridge next_ReadLoop send_event_frame net_obs
      split: agent_main.split list.split)

lemma conn_step: "has_conn c (ap_net (agent_step a s)) \<Longrightarrow> has_conn c (ap_net s) \<or> c < n_next (ap_net (agent_step a s))"
  by (cases a) (auto simp: connect_turn_def read_turn_def forward_turn_def forward_stop_def ping_turn_def ping_stop_def
      forward_eq case_prod_beta Let_def next_bridge next_ReadLoop send_event_frame net_obs
      split: agent_main.splits list.splits if_splits)

lemma forwarder_step: "c \<in> set (ap_forwarders (agent_step a s)) \<Longrightarrow> c \<in> set (ap_forwarders s) \<or>
    n_next (ap_net s) \<le> c \<and> c < n_next (ap_net (agent_step a s))"
  by (cases a) (auto simp: connect_turn_def read_turn_def forward_turn_def forward_stop_def ping_turn_def ping_stop_def
      forward_eq case_prod_beta Let_def NewAgentConn_def split: agent_main.splits list.splits if_splits)

lemma process_ok_step: "process_ok s \<Longrightarrow> process_ok (agent_step a s)"
  unfolding process_ok_def conns_below_def
  using next_step [of s a] conn_step [of _ a s] forwarder_step [of _ a s] by (meson less_le_trans)

lemma wire_connect: "conns_below n \<Longrightarrow> wire c (snd (NewAgentConn sid a b n)) = wire c n"
  using wire_fresh [of n "n_next n"] by (auto simp: wire_def NewAgentConn_def)

lemma sent_on_simps [simp]: "sent_on c [] = []" "sent_on c ((b, c', ok) # xs) = (if c' = c \<and> ok then b # sent_on c xs else sent_on c xs)"
  by (simp_all add: sent_on_def)

lemma wire_step:
  assumes "process_ok s"
  shows "reports w (wire c (ap_net (agent_step a s))) = reports w (wire c (ap_net s)) @ sent_on c (takes w a s)"
  using assms wire_connect [of "ap_net s" c]
  by (cases a) (auto simp: process_ok_def connect_turn_def read_turn_def forward_turn_def forward_stop_def ping_turn_def
      ping_stop_def forward_eq case_prod_beta Let_def send_event_frame wire_writeFrame split: agent_main.split list.split)

interpretation agent_wire: log_history agent_step "\<lambda>a s. True" process_ok "\<lambda>a s. sent_on c (takes w a s)"
  "\<lambda>s. reports w (wire c (ap_net s))" for w c
  by unfold_locales (simp_all add: process_ok_step wire_step)


text \<open>The events a connection loses: those its goroutine took from a queue and could not send.  A connection that
  exists no longer forwards, or has not failed yet.\<close>

definition losses :: "nat \<Rightarrow> agent_act \<Rightarrow> agent_process \<Rightarrow> bytes list" where
  "losses c a s = concat (map (\<lambda>w. lost_on c (takes w a s)) [QExec, QTelemetry, QScan])"

definition may_lose :: "nat \<Rightarrow> agent_process \<Rightarrow> nat" where
  "may_lose c s = (if c \<in> set (ap_forwarders s) \<or> n_next (ap_net s) \<le> c then 1 else 0)"

lemma lost_on_simps [simp]: "lost_on c [] = []" "lost_on c [(b, c', ok)] = (if c' = c \<and> \<not> ok then [b] else [])"
  by (simp_all add: lost_on_def)

lemma losses_forward:
  "losses c (ForwardTurn c' w ok) s =
     (if c = c' \<and> c \<in> set (ap_forwarders s)
      then (case cbuf (queue_of w (ap_queues s)) of
              [] \<Rightarrow> []
            | b # _ \<Rightarrow> if fst (send_event w ok b c (ap_net s)) then [] else [b])
      else [])"
  by (cases w) (auto simp: losses_def split: list.split)

lemma losses_other: "(\<nexists>c' w ok. a = ForwardTurn c' w ok) \<Longrightarrow> losses c a s = []"
  by (cases a) (simp_all add: losses_def)

lemma may_lose_mono: "may_lose c (agent_step a s) \<le> may_lose c s"
  using forwarder_step [of c a s] next_step [of s a] by (auto simp: may_lose_def)

lemma loss_step:
  assumes "process_ok s"
  shows "length (losses c a s) + may_lose c (agent_step a s) \<le> may_lose c s"
proof (cases "losses c a s = []")
  case False
  then obtain c' w ok where "a = ForwardTurn c' w ok" using losses_other [of a c s] by blast
  with False obtain b bs where a: "a = ForwardTurn c w ok" and c: "c \<in> set (ap_forwarders s)"
    and b: "cbuf (queue_of w (ap_queues s)) = b # bs" and fails: "\<not> fst (send_event w ok b c (ap_net s))"
    and one: "losses c a s = [b]"
    by (auto simp: losses_forward split: if_splits list.splits)
  have "may_lose c (agent_step a s) = 0"
    using c b fails assms
    by (auto simp: a may_lose_def forward_turn_def forward_eq process_ok_def send_event_frame net_obs)
  with one c show ?thesis by (simp add: may_lose_def)
qed (simp add: may_lose_mono)

lemma loss_run: "process_ok s \<Longrightarrow> length (over_run agent_step (losses c) as s) + may_lose c (fold agent_step as s) \<le> may_lose c s"
proof (induction as arbitrary: s)
  case (Cons a as)
  with loss_step [OF Cons.prems, of c a] process_ok_step [OF Cons.prems, of a] show ?case by fastforce
qed simp

lemma cap_step: "ccap (queue_of w (ap_queues (agent_step a s))) = ccap (queue_of w (ap_queues s))"
  unfolding queue_step by (cases a) (simp_all add: offer_def)

lemma cap_run: "ccap (queue_of w (ap_queues (fold agent_step as s))) = ccap (queue_of w (ap_queues s))"
  by (induction as arbitrary: s) (simp_all add: cap_step)

lemma within_step:
  "length (cbuf (queue_of w (ap_queues s))) \<le> ccap (queue_of w (ap_queues s)) \<Longrightarrow>
   length (cbuf (queue_of w (ap_queues (agent_step a s)))) \<le> ccap (queue_of w (ap_queues (agent_step a s)))"
  unfolding queue_step by (cases a) (auto simp: offer_def)

lemma within_run:
  "length (cbuf (queue_of w (ap_queues s))) \<le> ccap (queue_of w (ap_queues s)) \<Longrightarrow>
   length (cbuf (queue_of w (ap_queues (fold agent_step as s)))) \<le> ccap (queue_of w (ap_queues s))"
proof (induction "as" arbitrary: s)
  case (Cons a as)
  from Cons.IH [OF within_step [OF Cons.prems, of a]] show ?case by (simp add: cap_step)
qed simp

fun queue_size :: "queue \<Rightarrow> nat" where
  "queue_size QExec = 1024"
| "queue_size QTelemetry = 16"
| "queue_size QScan = 4"

lemma started:
  assumes "agent_main_start env = Some s"
  shows "process_ok s \<and> queue_of w (ap_queues s) = make_chan (queue_size w) \<and> wire c (ap_net s) = [] \<and> may_lose c s = 1"
  using assms
  by (cases w) (auto simp: agent_main_start_def process_ok_def conns_below_def has_conn_def no_net_def new_queues_def
      wire_def may_lose_def split: if_splits)

lemma sent_on_subseq:
  "subseq (over_run step (\<lambda>a s. sent_on c (f a s)) as s) (map fst (over_run step f as s))"
  by (induction "as" arbitrary: s) (auto simp: sent_on_def intro!: list_emb_append_mono subseq_map)

text \<open>C31: Whatever the collectors, the connections, the gateway and the timing do, for every kind of report: the events
  a queue accepted are exactly those taken from it, in order, followed by those it holds, never more than its
  capacity; the reports written on a connection are those its goroutine sent, in the order they were collected and
  each once; and a connection loses at most one event, of whatever kind, before its goroutine ends.\<close>

theorem agent_reports_in_order:
  assumes "agent_main_start env = Some s0"
  shows "let s = fold agent_step as s0; taken = over_run agent_step (takes w) as s0 in
    over_run agent_step (accepts w) as s0 = map fst taken @ cbuf (queue_of w (ap_queues s)) \<and>
    length (cbuf (queue_of w (ap_queues s))) \<le> queue_size w \<and>
    reports w (wire c (ap_net s)) = over_run agent_step (\<lambda>a s. sent_on c (takes w a s)) as s0 \<and>
    subseq (reports w (wire c (ap_net s))) (map fst taken) \<and>
    length (over_run agent_step (losses c) as s0) \<le> 1"
proof -
  note st = started [OF assms]
  have "reports w (wire c (ap_net (fold agent_step as s0))) = over_run agent_step (\<lambda>a s. sent_on c (takes w a s)) as s0"
    using agent_wire.log_run [of s0 "as" w c] st [of w c] by (simp add: run_ok_all list_all_iff)
  moreover have "subseq (over_run agent_step (\<lambda>a s. sent_on c (takes w a s)) as s0) (map fst (over_run agent_step (takes w) as s0))"
    by (rule sent_on_subseq)
  ultimately show ?thesis
    using agent_queue.from_empty [of w s0 "as"] within_run [of w s0 "as"] loss_run [of s0 c "as"] st [of w c]
    by (simp add: Let_def over_run_map make_chan_def)
qed


definition demo_agent_env :: "string \<Rightarrow> string" where
  "demo_agent_env k =
     (if k = ''GATEWAY_URL'' then ''wss://gw'' else if k = ''AGENT_TOKEN'' then ''tok'' else if k = ''SERVER_ID'' then ''h1'' else [])"

definition demo_process :: agent_process where
  "demo_process = \<lparr>ap_serverID = ''h1'', ap_queues = new_queues, ap_net = no_net, ap_main = Redials,
     ap_forwarders = [], ap_pingers = [], ap_stops = []\<rparr>"

lemma demo_process_starts: "agent_main_start demo_agent_env = Some demo_process"
  by (simp add: agent_main_start_def agent_starts_def demo_agent_env_def demo_process_def)

definition demo_acts :: "agent_act list" where
  "demo_acts = [ConnectTurn True, Collect QExec [1], Collect QExec [2], ForwardTurn 0 QExec True, ReadTurn WsErr,
     ForwardTurn 0 QExec True, ConnectTurn True, Collect QExec [3], ForwardTurn 1 QExec True]"

theorem agent_reports_in_order_witness:
  "agent_main_start demo_agent_env = Some demo_process
   \<and> reports QExec (wire 1 (ap_net (fold agent_step demo_acts demo_process))) = [[3]]
   \<and> over_run agent_step (losses 0) demo_acts demo_process = [[2]]
   \<and> length (over_run agent_step (losses 0) demo_acts demo_process) \<le> 1"
proof -
  have "reports QExec (wire 1 (ap_net (fold agent_step demo_acts demo_process))) =
      over_run agent_step (\<lambda>a s. sent_on 1 (takes QExec a s)) demo_acts demo_process"
    "length (over_run agent_step (losses 0) demo_acts demo_process) \<le> 1"
    using agent_reports_in_order [OF demo_process_starts, where as = demo_acts and w = QExec and c = 1]
      agent_reports_in_order [OF demo_process_starts, where as = demo_acts and w = QExec and c = 0]
    by (simp_all add: Let_def)
  moreover have "over_run agent_step (\<lambda>a s. sent_on 1 (takes QExec a s)) demo_acts demo_process = [[3]]"
    by code_simp
  moreover have "over_run agent_step (losses 0) demo_acts demo_process = [[2]]" by code_simp
  ultimately show ?thesis using demo_process_starts by simp
qed


section \<open>From a command on a host to the audit trail\<close>

text \<open>The host commands the trail holds for a server, and the gateway reading the messages of a connection.\<close>

definition host_log :: "string \<Rightarrow> audit_table \<Rightarrow> string option list" where
  "host_log i t = map data (filter (\<lambda>r. server_id r = ns i \<and> event_type r = ''host_exec'') t)"

definition gateway_reads :: "string \<Rightarrow> nat \<Rightarrow> frame_env \<times> bytes \<Rightarrow> agent_gateway \<Rightarrow> agent_gateway" where
  "gateway_reads i c em g = agent_message (fst em) i c (WsBinary (snd em)) g"

definition hooked :: "nat \<Rightarrow> agent_gateway \<Rightarrow> bool" where
  "hooked c g \<longleftrightarrow> (case n_conns (ag_net g) c of None \<Rightarrow> False | Some ac \<Rightarrow> ac_hooks ac)"

lemma callback_net [simp]: "ag_net (on_callback e i cb g) = ag_net g"
  by (cases cb) (auto simp: on_callback_def OnLog_def OnTelemetry_def OnScan_def upd_server_def Let_def
      split: option.split prod.split)

lemma callbacks_net [simp]: "ag_net (fold (on_callback e i) cbs g) = ag_net g"
  by (induction cbs arbitrary: g) simp_all

lemma hooks_dispatch:
  "map_option ac_hooks (n_conns (snd (dispatch t i p c ac n)) c') = map_option ac_hooks (n_conns n c')"
  by (auto simp: dispatch_def deliver_def closeRemote_def removeStream_def put_stream_def case_prod_beta net_obs
      option.map_comp comp_def split: option.split)

lemma hooks_ReadLoop:
  "map_option ac_hooks (n_conns (snd (ReadLoop (WsBinary msg) c n)) c') = map_option ac_hooks (n_conns n c')"
  by (auto simp: ReadLoop_def hooks_dispatch split: option.split)

lemma hooked_read: "hooked c g \<Longrightarrow> hooked c (gateway_reads i c em g)"
  using hooks_ReadLoop [of "snd em" c "ag_net g" c]
  by (auto simp: hooked_def gateway_reads_def agent_message_def case_prod_beta split: option.splits)

lemma host_log_append:
  "\<not> insert_fails env \<Longrightarrow> host_log i (g_audit (audit_append sha env [] i [] t d g)) =
     host_log i (g_audit g) @ (if t = ''host_exec'' then [ns d] else [])"
  by (simp add: host_log_def audit_append_def Append_def Let_def)

lemma host_log_read:
  assumes "hooked c g" "\<not> insert_fails (fe_audit e)"
  shows "host_log i (g_audit (gateway_reads i c (e, msg) g)) =
    host_log i (g_audit g) @ map (ns \<circ> bytes_string) (payload_of FrameLog msg)"
proof -
  obtain ac where ac: "n_conns (ag_net g) c = Some ac" "ac_hooks ac"
    using assms(1) by (auto simp: hooked_def split: option.splits)
  have scan: "host_log i (g_audit (OnScan e i p h)) = host_log i (g_audit h)" for p h
    using assms(2) by (auto simp: OnScan_def Let_def host_log_append upd_server_def split: option.split prod.split)
  have tel: "g_audit (OnTelemetry e i p h) = g_audit h" for p h
    by (auto simp: OnTelemetry_def Let_def upd_server_def split: option.split)
  show ?thesis
    using assms(2) ac
    by (auto simp: gateway_reads_def agent_message_def ReadLoop_def dispatch_def on_callback_def OnLog_def scan tel
        host_log_append case_prod_beta FrameLog_def FrameOpen_def FrameData_def FrameClose_def FrameTelemetry_def
        FrameScan_def split: option.split)
qed

interpretation host_trail: log_history "gateway_reads i c" "\<lambda>em g. \<not> insert_fails (fe_audit (fst em))" "hooked c"
  "\<lambda>em g. map (ns \<circ> bytes_string) (payload_of FrameLog (snd em))" "\<lambda>g. host_log i (g_audit g)" for i c
  by unfold_locales (auto simp: hooked_read host_log_read)

lemma reported_run:
  "length es = length out \<Longrightarrow>
   over_run (gateway_reads i c) (\<lambda>em g. map (ns \<circ> bytes_string) (payload_of FrameLog (snd em))) (zip es out) g =
     map (ns \<circ> bytes_string) (reports QExec out)"
  by (induction es out arbitrary: g rule: list_induct2) (simp_all add: reports_def)

lemma hooked_connect:
  assumes "agent_connect scan up df now r g = (Serving i c, g')"
  shows "hooked c g'"
proof -
  let ?n = "snd (NewAgentConn i False True (ag_net g))"
  have c: "c = n_next (ag_net g)" and g': "ag_net g' = Tunnel.Register i c ?n"
    using assms by (auto simp: agent_connect_def Let_def NewAgentConn_def markOnline_def upd_server_def
        split: if_splits row_result.splits)
  have "map_option ac_hooks (n_conns (Tunnel.Register i c n) c) = map_option ac_hooks (n_conns n c)" for n
    by (auto simp: Register_def conn_Close_def Let_def net_obs option.map_comp comp_def split: option.split)
  from this [of ?n] show ?thesis by (auto simp: hooked_def g' c NewAgentConn_def split: option.splits)
qed

lemma reports_mono: "prefix xs ys \<Longrightarrow> subseq (reports w xs) (reports w ys)"
  by (auto simp: prefix_def)

text \<open>C32: A command a host executes reaches the audit trail as the collector saw it: when the gateway serves a connection
  under server \<open>i\<close> and has read any part of what the agent wrote on it, the commands the trail holds for \<open>i\<close> are those it
  held before followed by the reports in what was read, and these are events the agent's queue accepted, in their order
  and each once.\<close>

theorem host_commands_in_trail:
  assumes "agent_main_start env = Some s0" and "agent_connect scan up df now r g0 = (Serving i c', g)"
    and "prefix received (wire c (ap_net (fold agent_step as s0)))"
    and "length es = length received" and "list_all (\<lambda>e. \<not> insert_fails (fe_audit e)) es"
  shows "host_log i (g_audit (fold (gateway_reads i c') (zip es received) g)) =
      host_log i (g_audit g0) @ map (ns \<circ> bytes_string) (reports QExec received) \<and>
    subseq (reports QExec received) (over_run agent_step (accepts QExec) as s0)"
proof -
  note st = started [OF assms(1)]
  have "list_all (\<lambda>em. \<not> insert_fails (fe_audit (fst em))) (zip es received)"
    using assms(5) by (auto simp: list_all_iff dest: set_zip_leftD)
  then have "host_log i (g_audit (fold (gateway_reads i c') (zip es received) g)) =
      host_log i (g_audit g) @ map (ns \<circ> bytes_string) (reports QExec received)"
    using host_trail.log_run [OF hooked_connect [OF assms(2)]] reported_run [OF assms(4)] by (simp add: run_ok_all)
  moreover have "g_audit g = g_audit g0"
    using assms(2) by (auto simp: agent_connect_def Let_def case_prod_beta markOnline_def upd_server_def
        split: if_splits row_result.splits)
  moreover have "reports QExec (wire c (ap_net (fold agent_step as s0))) =
      over_run agent_step (\<lambda>a s. sent_on c (takes QExec a s)) as s0"
    using agent_wire.log_run [of s0 "as" QExec c] st [of QExec c] by (simp add: run_ok_all list_all_iff)
  then have "subseq (reports QExec received) (map fst (over_run agent_step (takes QExec) as s0))"
    using subseq_order.order_trans [OF reports_mono [OF assms(3), of QExec]]
      sent_on_subseq [of agent_step c "takes QExec" "as" s0] by simp
  then have "subseq (reports QExec received) (over_run agent_step (accepts QExec) as s0)"
    using agent_queue.from_empty [of QExec s0 "as"] st [of QExec c]
    by (simp add: over_run_map make_chan_def list_emb_prefix)
  ultimately show ?thesis by simp
qed


definition demo_frame_env :: frame_env where
  "demo_frame_env = \<lparr>fe_sha = (\<lambda>s. s), fe_audit = \<lparr>select_fails = False, insert_fails = False, serial = 1, now_ts = 0\<rparr>,
     fe_now = 0, fe_update_fails = False, fe_insert_fails = False, fe_telemetry = (\<lambda>s. None), fe_scan = (\<lambda>s. None),
     fe_osv = (\<lambda>s. None)\<rparr>"

theorem host_commands_in_trail_witness:
  "\<exists>g. agent_connect (Some [''h1'']) True False 5 demo_agent_request demo_gateway = (Serving ''h1'' 0, g)
     \<and> host_log ''h1'' (g_audit (fold (gateway_reads ''h1'' 0)
          (zip [demo_frame_env] (wire 1 (ap_net (fold agent_step demo_acts demo_process)))) g)) = [Some [CHR 0x03]]"
proof -
  have "fst (agent_connect (Some [''h1'']) True False 5 demo_agent_request demo_gateway) = Serving ''h1'' 0"
    by (simp add: agent_connect_def agent_token_row_def bearer_def demo_agent_request_def demo_gateway_def NewAgentConn_def no_net_def)
  then obtain g where g: "agent_connect (Some [''h1'']) True False 5 demo_agent_request demo_gateway = (Serving ''h1'' 0, g)"
    by (metis prod.collapse)
  have w: "wire 1 (ap_net (fold agent_step demo_acts demo_process)) = [EncodeFrame FrameLog uuid_Nil [3]]" by code_simp
  have "host_log ''h1'' (g_audit demo_gateway) = []" by (simp add: demo_gateway_def host_log_def)
  moreover have "map (ns \<circ> bytes_string) (reports QExec [EncodeFrame FrameLog uuid_Nil [3]]) = [Some [CHR 0x03]]"
    by code_simp
  ultimately show ?thesis
    using host_commands_in_trail [OF demo_process_starts g, of "wire 1 (ap_net (fold agent_step demo_acts demo_process))" 1 demo_acts
        "[demo_frame_env]"] g
    by (simp add: w demo_frame_env_def del: One_nat_def)
qed

end
