(* ===== verification/Spec2Isabelle.thy ===== *)
theory Spec2Isabelle
  imports Boot Trail Bulk Reports HostMonitor Telemetry AgentProcess
begin

text \<open>
  A verification development for ShellWarden, a self-hosted gateway for privileged access over SSH and RDP: the server of
  \<^verbatim>\<open>cmd/gateway\<close> with the packages under \<^verbatim>\<open>internal\<close>, and the agent of \<^verbatim>\<open>cmd/agent\<close> that hosts behind a firewall run.  Source paths
  are relative to the root of the repository.

  \<^bold>\<open>The program and how its parts interact.\<close>
  A browser reaches the gateway through one handler (\<^verbatim>\<open>withCORS\<close> around the router).  The middleware turns a token into
  claims, the role guards compare the claims' role with the route, and the handlers read and write one PostgreSQL
  database: servers and groups, users, access requests, sessions, the audit table, settings.  \<^verbatim>\<open>/ws/ssh\<close> checks the
  just-in-time grant, dials the server directly or through the agent registry, checks the pinned host key, authenticates
  with the stored, decrypted credentials or a short-lived certificate, and starts a managed session: goroutines that pump the
  shell's output to the WebSocket, the recorder, the replay ring and the hub of watchers, a watchdog, and a reaper for detached
  sessions.  The recorder writes an audit row per chunk through the hash-chained audit log, whose sink notifies webhooks.
  An agent keeps a WebSocket to \<^verbatim>\<open>/agent/connect\<close>; streams to the host's SSH server, and the host's exec events, telemetry and
  vulnerability scans, are frames on it.  Bulk jobs fan out over the same connections.

  \<^bold>\<open>Conventions.\<close>
  Go strings and byte slices are byte lists; \<^verbatim>\<open>int\<close> is \<^typ>\<open>int\<close> where the code cannot reach its bounds and a word where it wraps;
  a nil pointer or NULL is \<^term>\<open>None\<close>; a struct is a record with the fields' names behind a short prefix; a handler is a
  function from its request and the state to its answer and the new state; a mutex-protected section is one step, and what
  other goroutines may do between two sections is an explicit interleaving.  What the code gets from outside is an argument:
  the clock, random bytes, the answers and errors of the database, of the WebSocket and SSH libraries, of the network, and the
  cryptographic primitives.  Where a theorem needs something of those it is a named hypothesis that states documented behaviour
  (\<^term>\<open>aead_ok\<close>, \<^term>\<open>hmac_ok\<close>, \<^term>\<open>digest_32\<close>, \<^term>\<open>mux_ok\<close>, \<^term>\<open>jwt_ok\<close>), and a witness instantiates it.

  \<^bold>\<open>The theories\<close>, from the bottom up.

  \<^item> \<open>Prelude\<close>: the string, time and query vocabulary, list and map lemmas, and the contracts components share:
    \<open>invariant_ops\<close>, \<open>append_only\<close>, \<open>keyed_store\<close>, \<open>fifo_history\<close>, \<open>log_history\<close>.  \<open>GoStd\<close>, \<open>Codec\<close>, \<open>Url\<close>, \<open>Chan\<close>: what the code uses of
    the Go library (UTF-8 coercion, paths, number parsing; base64, base32, CSV; percent-encoding; buffered channels with
    non-blocking sends), with the contracts \<open>codec\<close> and \<open>mailbox\<close>.
  \<^item> \<open>AuditLog\<close> (\<^verbatim>\<open>internal/auditlog\<close>): \<open>Append\<close>, \<open>chainHash\<close>, \<open>Verify\<close>.  Every log built by appending verifies; the head hash commits
    to the hashed rows up to a collision; edited rows are located; and what the chain does not detect.
  \<^item> \<open>Notify\<close> (\<^verbatim>\<open>internal/notify\<close>): the bounded queue, its worker, the audit sink.
  \<^item> \<open>Hub\<close> (\<^verbatim>\<open>internal/proxy/hub.go\<close>): the critical sections as operations on a heap of sessions and channels, and an inductive
    interleaving of publishers, subscribers and terminations.  No channel is closed twice or sent to after its close; a
    watcher receives the output in order.
  \<^item> \<open>Recorder\<close>, \<open>Session\<close> (\<^verbatim>\<open>internal/proxy/recorder.go\<close>, \<^verbatim>\<open>resume.go\<close>, the session half of \<^verbatim>\<open>ssh.go\<close>): recording lines and counters, the
    ring buffer, attach, detach, end, reaper, watchdog.  Output is recorded and replayed completely, the end of a session
    finishes everything once, the reaper and the watchdog end exactly what they should.
  \<^item> \<open>Secrets\<close> (\<^verbatim>\<open>internal/crypto\<close>), \<open>Servers\<close>, \<open>Access\<close> (\<^verbatim>\<open>internal/api/servers.go\<close>, \<^verbatim>\<open>groups.go\<close>, \<^verbatim>\<open>access.go\<close>, \<^verbatim>\<open>internal/access\<close>): stored
    credentials read back and are never served; every grant goes back to a request of that user and an approval.  What the
    database does by itself, keys, references and cascades of \<^verbatim>\<open>internal/db/migrations\<close>, is a group of definitions of its own that the
    statements of the handlers go through.
  \<^item> \<open>SshProxy\<close> (\<^verbatim>\<open>internal/proxy/ssh.go\<close>): dialling, host keys, authentication methods, the terminal, forward and watch handlers.
  \<^item> \<open>Auth\<close>, \<open>Router\<close>, \<open>Totp\<close>, \<open>Users\<close> (\<^verbatim>\<open>internal/auth\<close>, \<^verbatim>\<open>internal/api/router.go\<close>, \<^verbatim>\<open>users.go\<close>, \<^verbatim>\<open>alerts.go\<close>, \<^verbatim>\<open>oidc.go\<close>): tokens, every
    route with its guard, one-time codes against RFC 6238 and the enrolment URL, login with its factors, one brute-force alert
    per burst, second-factor enrolment as a check and an update with others in between, accounts and single sign-on.
  \<^item> \<open>Tunnel\<close> (\<^verbatim>\<open>internal/agent/registry.go\<close>): frames, connections, streams over pipes, the registry.  The multiplexed streams refine
    independent pipes, and a reconnecting agent replaces its old connection.
  \<^item> \<open>AgentGateway\<close> (\<^verbatim>\<open>internal/agent/tunnel.go\<close>), \<open>AgentProcess\<close> (\<^verbatim>\<open>cmd/agent/main.go\<close>): the endpoint with its token check, callbacks and
    heartbeats, and the agent as a process whose collectors, reconnect loop, forwarders, pingers and bridges interleave
    freely.  Reports arrive in order and once, a connection loses at most one, and host commands reach the audit trail.
  \<^item> \<open>HostMonitor\<close>, \<open>VulnScan\<close>, \<open>Telemetry\<close> (\<^verbatim>\<open>cmd/agent/procmon*.go\<close>, \<^verbatim>\<open>vulnscan.go\<close>, \<^verbatim>\<open>telemetry*.go\<close>, \<^verbatim>\<open>internal/cve\<close>): the collectors, the netlink
    parser, the readings of the package managers and of \<^verbatim>\<open>/proc\<close>, and CVSS scores.
  \<^item> \<open>Bulk\<close> (\<^verbatim>\<open>internal/bulk\<close>, \<^verbatim>\<open>internal/api/bulk.go\<close>): the semaphore, the goroutines per host with the steps between which others may
    run (store, copy the subscribers, send to each, return), \<^verbatim>\<open>wg.Wait\<close> and the steps of \<open>finish\<close>, the subscribers.  No channel is sent to or closed after its close
    although both happen outside the lock; at most fifty hosts are in flight; a job whose hosts answer ends on every fair
    schedule, and one silent host keeps it running for ever; every host gets one result.
  \<^item> \<open>AuditApi\<close>, \<open>Files\<close>, \<open>Reports\<close> (\<^verbatim>\<open>internal/api/audit.go\<close>, \<^verbatim>\<open>commands.go\<close>, \<^verbatim>\<open>sftp.go\<close>, \<^verbatim>\<open>sessions.go\<close>, \<^verbatim>\<open>static.go\<close>, \<^verbatim>\<open>reports.go\<close>, \<^verbatim>\<open>metrics.go\<close>,
    \<^verbatim>\<open>dashboard.go\<close>, \<^verbatim>\<open>internal/proxy/rdp.go\<close>): filters never become SQL text, exports read back column by column, commands as typed, uploads
    change one path only, recordings of terminated sessions are served, the access review agrees with enforcement.
  \<^item> \<open>Startup\<close>, \<open>Boot\<close> (\<^verbatim>\<open>internal/config\<close>, \<^verbatim>\<open>internal/db\<close>, \<^verbatim>\<open>internal/sshca\<close>, \<^verbatim>\<open>cmd/gateway/main.go\<close>): configuration, migrations, the first
    administrator, the certificate authority and its short-lived certificates, and \<^verbatim>\<open>main\<close> as the sequence of these.
  \<^item> \<open>Trail\<close>: the audit table shared by sessions, agents and logins; any interleaving of their operations verifies (for single
    appends in any order, \<open>append_history_verifies\<close> of \<open>AuditLog\<close> says the same).
  \<^item> This theory: from the environment and a request to an open shell.

  \<^bold>\<open>Bounds and termination.\<close>
  Loops over data are structural or have a measure (the netlink parser consumes at least a header per round).  The only
  fuel is in the CSV reader used to state that exports read back and in the group decoder of base32; the length of the input is enough
  for both and the theorems say so.  Bulk runs are a step relation with a lexicographic measure that every step of the job decreases and no
  other step changes, and a progress lemma; that the hosts answer is a condition, since the SSH handshake and the opening of a
  session have no deadline.  The read loops, the reaper, the watchdog and the agent's reconnect loop run for ever by design; they
  are modelled turn by turn and the theorems quantify over all sequences of turns.  Minutes from the environment
  are multiplied in 64 bits and exact up to 153722867 minutes, which is a hypothesis where it matters; times are before
  2 to the 62 nanoseconds there.  A healthy agent pings every 30 seconds against a deadline of 90.  Floating-point quotients of
  telemetry and CVSS scores are exact rationals; the whole seconds of the session report are exact below 97 days.

  \<^bold>\<open>Not modelled.\<close>
  \<^verbatim>\<open>scripts/wsprobe\<close> is a manual test client.  The web interface, the SQL and shell scripts and the container files are not
  Go; of the schema, the constraints and cascades that handlers rely on are definitions of \<open>Servers\<close>, \<open>Access\<close> and \<open>Users\<close>, and no property
  rests on them alone.  Libraries are parameters: \<^verbatim>\<open>golang.org/x/crypto\<close>, \<^verbatim>\<open>gorilla/mux\<close> and \<^verbatim>\<open>websocket\<close>, the JWT, OIDC, SFTP and Guacamole
  libraries, the PostgreSQL driver, the SSH session of a bulk host.  Log output, the fixed addresses and ignored deadlines
  of a tunnel stream, and the tickers that call \<^verbatim>\<open>collect\<close> and \<^verbatim>\<open>scanHost\<close> are left out.
\<close>

section \<open>From the environment to a shell\<close>

lemma opened_user:
  assumes "ServeHTTP sha c cfg env (Some k) serverID reason resumeID w p = (Opened a, q)"
  shows "map_option m_userID (p_ms q a) = Some (cl_UserID k)"
proof -
  obtain srv sid p2 p3 where
      st: "start_session sha cfg env w serverID (cl_UserID k) reason (decrypted c srv) p2 = (Some a, sid, p3)"
    and q: "q = track_session cfg (ce_now env) w a sid (cl_UserID k) serverID p3"
    using ServeHTTP_opened [OF assms] by blast
  obtain rc where "p_ms p3 = (p_ms p2)(a \<mapsto> new_managed sid (cl_UserID k) (sv_Name (decrypted c srv)) rc)"
    using start_session_ok [OF st, of sid] by blast
  then show ?thesis
    by (simp add: q track_session_def start_watchdog_def attach_def set_ms_def store_add_def new_managed_def Let_def)
qed

lemma resumed_user:
  assumes "ServeHTTP sha c cfg env (Some k) serverID reason resumeID w p = (Resumed a, q)"
  shows "map_option m_userID (p_ms q a) = Some (cl_UserID k)"
proof -
  obtain m where "p_ms p a = Some m" "m_userID m = cl_UserID k" "q = attach a w (ws_upgrade w p)"
    using ServeHTTP_resumed [OF assms] by auto
  then show ?thesis by (simp add: attach_def ws_upgrade_def set_ms_def ws_write_def Let_def)
qed

text \<open>C1: Reaching a shell takes everything the deployment asks for: if a request that arrives at the gateway's handler ends in
  the terminal handler opening or resuming a session, then it was a GET request whose token parses under the configured secret, its
  claims carry the role admin or operator, the session belongs to the user of those claims, and, where the environment
  sets \<^verbatim>\<open>JIT_REQUIRED\<close> to true, an operator held an approved, unexpired grant for the server the request names.  A new session is on
  that server; a resumed one may be on another (see \<open>resume_ignores_server\<close>).\<close>

theorem shell_needs_access:
  assumes "mux_ok sel" and "main_handler sel L (Load rf e) now r = Run WsSSH cl"
    and "ServeHTTP sha c (main_proxy (Load rf e) ca) env cl serverID reason resumeID w p = (out, q)"
    and "out = Opened a \<or> out = Resumed a"
  shows "hr_method r = ''GET'' \<and> (\<exists>k. cl = Some k \<and>
    Parse L (cf_JWTSecret (Load rf e)) now (extractToken r) = Some k \<and>
    (cl_Role k = RoleAdmin \<or> cl_Role k = RoleOperator) \<and>
    map_option m_userID (p_ms q a) = Some (cl_UserID k) \<and>
    (e ''JIT_REQUIRED'' = ''true'' \<longrightarrow> cl_Role k = RoleAdmin \<or>
       (\<exists>g \<in> set (t_requests p). grants (ce_now env) (cl_UserID k) serverID g)))"
proof -
  have run: "Router sel L (cf_JWTSecret (Load rf e)) now r = Run WsSSH cl"
    using assms(2) by (auto simp: main_handler_def withCORS_def split: if_splits)
  obtain rt where rt: "rt \<in> set routes" "rt_handler rt = WsSSH"
      "if rt_jwt rt then \<exists>c. cl = Some c \<and> Parse L (cf_JWTSecret (Load rf e)) now (extractToken r) = Some c else cl = None"
      "case rt_roles rt of None \<Rightarrow> True | Some roles \<Rightarrow> guard roles cl"
      "\<forall>m. rt_method rt = Some m \<longrightarrow> hr_method r = m"
    using Router_Run [OF assms(1) run] by blast
  have "rt_jwt rt \<and> rt_roles rt = Some [RoleAdmin, RoleOperator]"
    using routes_checked [OF rt(1)] rt(2) by (simp add: operator_handlers_def)
  with rt(3,4) obtain k where k: "cl = Some k" "Parse L (cf_JWTSecret (Load rf e)) now (extractToken r) = Some k"
      "cl_Role k = RoleAdmin \<or> cl_Role k = RoleOperator"
    by (auto simp: guard_def)
  have "\<forall>rt \<in> set routes. rt_handler rt = WsSSH \<longrightarrow> rt_method rt = Some ''GET''"
    by (simp add: routes_def public_def sub_def)
  then have "hr_method r = ''GET''" using rt(1,2,5) by blast
  moreover have "map_option m_userID (p_ms q a) = Some (cl_UserID k)"
    using assms(4)
  proof
    assume "out = Opened a"
    then show ?thesis using opened_user assms(3) k(1) by blast
  next
    assume "out = Resumed a"
    then show ?thesis using resumed_user assms(3) k(1) by blast
  qed
  moreover have "cl_Role k = RoleAdmin \<or> (\<exists>g \<in> set (t_requests p). grants (ce_now env) (cl_UserID k) serverID g)"
    if "e ''JIT_REQUIRED'' = ''true''"
  proof (rule ccontr)
    assume "\<not> ?thesis"
    then have "jit_refuses (main_proxy (Load rf e) ca) env (cl_UserID k) (cl_Role k) serverID p"
      using that jit_switch [of rf e] by (intro jit_refusesI) (auto simp: main_proxy_def RoleAdmin_def list_ex_iff)
    with assms(3,4) k(1) show False by (auto simp: ServeHTTP_def)
  qed
  ultimately show ?thesis using k by blast
qed

definition demo_env :: environment where
  "demo_env = (\<lambda>x. if x = ''JWT_SECRET'' then ''k'' else if x = ''JIT_REQUIRED'' then ''true'' else [])"

definition demo_grant :: access_request where
  "demo_grant = \<lparr>ar_ID = ''r1'', ar_UserID = Some ''u1'', ar_ServerID = ''h1'', ar_Reason = None, ar_Status = ''approved'',
     ar_RequestedAt = 0, ar_DecidedAt = Some 0, ar_DecidedBy = Some ''root'', ar_ExpiresAt = Some 100\<rparr>"

definition bob :: claims where
  "bob = \<lparr>cl_UserID = ''u1'', cl_Username = ''bob'', cl_Role = ''operator''\<rparr>"

lemma demo_shell:
  "\<exists>q. ServeHTTP id toy_aead (main_proxy (Load (\<lambda>f. None) demo_env) False) demo_connect (Some bob) ''h1'' ''ticket'' [] 9
     (demo_proxy\<lparr>t_requests := [demo_grant]\<rparr>) = (Opened 1, q)"
proof -
  have "DecryptPtr toy_aead (sv_SSHPassword sample_server) = Some ''hunter2''"
    using DecryptPtr_coalesce(1) [OF toy_aead_ok, of "Some ''p1''" "Some ''hunter2''"]
    by (simp add: sample_server_def nonce_ok_def sample_senv_def sample_req_def) (simp add: toy_aead_def)
  moreover have "sv_SSHHostKey sample_server = None"
    by (simp add: sample_server_def server_row_def)
  moreover have "\<not> jit_refuses (main_proxy (Load (\<lambda>f. None) demo_env) False) demo_connect ''u1'' ''operator'' ''h1''
      (demo_proxy\<lparr>t_requests := [demo_grant]\<rparr>)"
    by (simp add: jit_refuses_def HasActiveGrant_def grants_def demo_grant_def demo_connect_def)
  ultimately show ?thesis
    by (simp add: ServeHTTP_def bob_def main_proxy_def demo_connect_def loadServer_def demo_proxy_def demo_def
        newSSHClient_def auth_methods_def nonempty_def decrypted_def hostKeyCallback_def Let_def ws_upgrade_def
        start_session_def createSession_def rec_audit_def audit_append_def Append_def NewRecorder_def
        newManagedSession_def set_ms_def)
qed

theorem shell_needs_access_witness:
  "\<exists>g \<in> set (t_requests (demo_proxy\<lparr>t_requests := [demo_grant]\<rparr>)). grants 0 ''u1'' ''h1'' g"
proof -
  obtain q where q: "ServeHTTP id toy_aead (main_proxy (Load (\<lambda>f. None) demo_env) False) demo_connect (Some bob) ''h1'' ''ticket'' [] 9
     (demo_proxy\<lparr>t_requests := [demo_grant]\<rparr>) = (Opened 1, q)"
    using demo_shell by blast
  have "main_handler demo_sel toy_jwt (Load (\<lambda>f. None) demo_env) 0 (demo_request ''GET'' ''operator'') = Run WsSSH (Some bob)"
    using demo_parse [of "''operator''"] demo_extract [of "''GET''" "''operator''"]
    by (simp add: main_handler_def withCORS_def Router_def demo_sel_def demo_request_def serve_route_def sub_def Middleware_def
        Let_def guard_def RoleOperator_def RoleAdmin_def Load_def getenv_def demo_env_def bob_def)
  from shell_needs_access [OF demo_mux_ok this q, of 1] show ?thesis
    by (simp add: demo_env_def bob_def RoleAdmin_def demo_connect_def)
qed

end
